(* ===== verification/RV_Prelude.thy ===== *)
theory RV_Prelude
  imports Main "HOL-Library.Word" "HOL-Library.Signed_Division"
begin

text \<open>
  Shared vocabulary of the development: the machine integers of the Rust sources
  (\<open>u8\<close> to \<open>u64\<close>, the signed types share the representation and are read with
  \<open>sint\<close>), the casts and arithmetic operations the code uses on them, the little-endian
  byte representation behind \<open>Elem::store\<close> and \<open>Elem::from_stored\<close>, and the generic
  lemmas on bits, words and lists on which the component theories rest.

  Arithmetic follows the release profile of the workspace (the build target of
  \<^verbatim>\<open>src/risc_v/Makefile\<close>): \<open>+\<close> and \<open>-\<close> wrap around and a shift amount is
  taken modulo the width of the shifted value.
\<close>

unbundle bit_operations_syntax

type_synonym u8 = "8 word"
type_synonym u16 = "16 word"
type_synonym u32 = "32 word"
type_synonym u64 = "64 word"
type_synonym i32 = "32 word"
type_synonym i64 = "64 word"
type_synonym usize = "64 word"

section \<open>Collections\<close>

text \<open>
  \<open>word_defs\<close> holds the definitions of the cast and shift operations;
  \<open>le_simps\<close> the laws of the little-endian representation.
\<close>

named_theorems word_defs
named_theorems le_simps

section \<open>Casts and shifts of the source language\<close>

text \<open>\<open>x as i32 as u64\<close>: keep the low 32 bits, then sign-extend.\<close>

definition as_i32_as_u64 :: "u64 \<Rightarrow> u64" where
  "as_i32_as_u64 x = scast (ucast x :: i32)"

text \<open>\<open>x << n\<close> and \<open>x >> n\<close> on unsigned values, \<open>x >> n\<close> on signed values.\<close>

definition shl :: "'a::len word \<Rightarrow> nat \<Rightarrow> 'a word" where
  "shl x n = push_bit (n mod LENGTH('a)) x"

definition shr :: "'a::len word \<Rightarrow> nat \<Rightarrow> 'a word" where
  "shr x n = drop_bit (n mod LENGTH('a)) x"

definition sar :: "'a::len word \<Rightarrow> nat \<Rightarrow> 'a word" where
  "sar x n = signed_drop_bit (n mod LENGTH('a)) x"

text \<open>\<open>saturating_sub\<close> and \<open>saturating_add\<close> on unsigned machine integers.\<close>

definition saturating_sub :: "'a::len word \<Rightarrow> 'a word \<Rightarrow> 'a word" where
  "saturating_sub x y = (if x < y then 0 else x - y)"

definition saturating_add :: "'a::len word \<Rightarrow> 'a word \<Rightarrow> 'a word" where
  "saturating_add x y = (if x + y < x then - 1 else x + y)"

lemmas [word_defs] = as_i32_as_u64_def shl_def shr_def sar_def

lemma unat_saturating_sub: "unat (saturating_sub x y) = unat x - unat y"
  by (simp add: saturating_sub_def word_less_nat_alt unat_sub_if')

lemma unat_saturating_add:
  fixes x y :: "'a::len word"
  shows "unat (saturating_add x y) = min (unat x + unat y) (2 ^ LENGTH('a) - 1)"
proof (cases "unat x + unat y < 2 ^ LENGTH('a)")
  case True
  then have s: "unat (x + y) = unat x + unat y"
    by (simp add: unat_plus_if')
  then have "\<not> x + y < x"
    by (simp add: word_less_nat_alt)
  with s True show ?thesis
    by (simp add: saturating_add_def)
next
  case False
  have "unat x < 2 ^ LENGTH('a)" and b_y: "unat y < 2 ^ LENGTH('a)"
    by (rule unsigned_less)+
  from False have s: "unat (x + y) = unat x + unat y - 2 ^ LENGTH('a)"
    by (simp add: unat_plus_if')
  have "unat x + unat y - 2 ^ LENGTH('a) < unat x"
    using False b_y by linarith
  with s have "x + y < x"
    by (simp add: word_less_nat_alt)
  then have "saturating_add x y = - 1"
    by (simp add: saturating_add_def)
  moreover have "unat (- 1 :: 'a word) = 2 ^ LENGTH('a) - 1"
    by (simp add: unsigned_minus_1_eq_mask mask_eq_exp_minus_1)
  moreover have "min (unat x + unat y) (2 ^ LENGTH('a) - 1) = 2 ^ LENGTH('a) - 1"
    using False by linarith
  ultimately show ?thesis by simp
qed

section \<open>Bits\<close>

lemma bit_as_i32_as_u64:
  "bit (as_i32_as_u64 x) n \<longleftrightarrow> n < 64 \<and> bit x (if n < 31 then n else 31)"
  by (auto simp: as_i32_as_u64_def bit_signed_iff bit_unsigned_iff min_def not_less)

lemma as_i32_as_u64_cong:
  "(ucast x :: u32) = ucast y \<Longrightarrow> as_i32_as_u64 x = as_i32_as_u64 y"
  by (simp add: as_i32_as_u64_def)

lemma ucast_as_i32_as_u64 [simp]: "(ucast (as_i32_as_u64 x) :: u32) = ucast x"
proof (rule bit_word_eqI)
  fix n assume "n < LENGTH(32)"
  then show "bit (ucast (as_i32_as_u64 x) :: u32) n = bit (ucast x :: u32) n"
    by (cases "n = 31") (auto simp: bit_unsigned_iff bit_as_i32_as_u64)
qed

lemma sint_as_i32_as_u64: "sint (as_i32_as_u64 x) = sint (ucast x :: i32)"
  by (simp add: as_i32_as_u64_def sint_up_scast is_up_def source_size_def target_size_def)

lemma unat_and_mask: "unat ((x::'a::len word) AND mask n) = unat x mod 2 ^ n"
  by (simp add: unsigned_take_bit_eq flip: take_bit_eq_mask take_bit_eq_mod)

lemma unat_word_of_nat: "n < 2 ^ LENGTH('a) \<Longrightarrow> unat (word_of_nat n :: 'a::len word) = n"
  by (simp add: unsigned_of_nat take_bit_nat_eq_self)

section \<open>Little-endian bytes\<close>

text \<open>
  The stored form of a value is its little-endian byte sequence
  (\<^verbatim>\<open>impl_elem_prim!\<close> of \<^verbatim>\<open>state_backend.rs\<close> stores \<open>to_le\<close> and loads \<open>from_le\<close>).
\<close>

definition elem_size :: "'a::len word itself \<Rightarrow> nat" where
  "elem_size _ = LENGTH('a) div 8"

definition to_le_bytes :: "'a::len word \<Rightarrow> u8 list" where
  "to_le_bytes w = map (\<lambda>i. ucast (drop_bit (8 * i) w)) [0..<LENGTH('a) div 8]"

fun from_le_bytes :: "u8 list \<Rightarrow> 'a::len word" where
  "from_le_bytes [] = 0"
| "from_le_bytes (b # bs) = ucast b OR push_bit 8 (from_le_bytes bs)"

lemma length_to_le_bytes [simp, le_simps]:
  "length (to_le_bytes (w :: 'a::len word)) = LENGTH('a) div 8"
  by (simp add: to_le_bytes_def)

lemma bit_from_le_bytes:
  "bit (from_le_bytes bs :: 'a::len word) n \<longleftrightarrow>
     n < LENGTH('a) \<and> n div 8 < length bs \<and> bit (bs ! (n div 8)) (n mod 8)"
proof (induction bs arbitrary: n)
  case Nil
  then show ?case by simp
next
  case (Cons b bs)
  show ?case
  proof (cases "n < 8")
    case True
    then show ?thesis
      by (auto simp: bit_simps dest: bit_imp_le_length)
  next
    case False
    then have d: "n div 8 = Suc ((n - 8) div 8)" "(n - 8) mod 8 = n mod 8"
      by (simp_all add: le_div_geq le_mod_geq)
    from False have "\<not> bit b n"
      by (auto dest: bit_imp_le_length)
    with False d Cons.IH [of "n - 8"] show ?thesis
      by (auto simp: bit_simps)
  qed
qed

lemma from_le_bytes_to_le_bytes [simp, le_simps]:
  fixes w :: "'a::len word"
  assumes "8 dvd LENGTH('a)"
  shows "from_le_bytes (to_le_bytes w) = w"
proof (rule bit_word_eqI)
  fix n assume n: "n < LENGTH('a)"
  with assms have "n div 8 < LENGTH('a) div 8"
    by (auto elim!: dvdE)
  with n show "bit (from_le_bytes (to_le_bytes w) :: 'a word) n = bit w n"
    by (simp add: bit_from_le_bytes to_le_bytes_def bit_simps)
qed

lemma to_le_bytes_from_le_bytes [le_simps]:
  assumes "length bs = LENGTH('a) div 8"
  shows "to_le_bytes (from_le_bytes bs :: 'a::len word) = bs"
proof (rule nth_equalityI)
  show "length (to_le_bytes (from_le_bytes bs :: 'a word)) = length bs"
    using assms by simp
next
  fix i assume i: "i < length (to_le_bytes (from_le_bytes bs :: 'a word))"
  then have i': "i < length bs" using assms by simp
  show "to_le_bytes (from_le_bytes bs :: 'a word) ! i = bs ! i"
  proof (rule bit_word_eqI)
    fix n :: nat assume n: "n < LENGTH(8)"
    have "8 * i + n < LENGTH('a)"
      using n i by simp
    moreover have "(8 * i + n) div 8 = i" "(8 * i + n) mod 8 = n"
      using n by simp_all
    ultimately show "bit (to_le_bytes (from_le_bytes bs :: 'a word) ! i) n = bit (bs ! i) n"
      using i i' n by (simp add: to_le_bytes_def bit_simps bit_from_le_bytes)
  qed
qed

lemma to_le_bytes_nth:
  "i < LENGTH('a) div 8 \<Longrightarrow> to_le_bytes (w :: 'a::len word) ! i = ucast (drop_bit (8 * i) w)"
  by (simp add: to_le_bytes_def)

section \<open>Byte-addressed storage\<close>

text \<open>
  A storage is a function from byte offsets to bytes; its length is kept where it is
  declared. Reading and writing runs of consecutive bytes is shared by the state backend
  and the main memory.
\<close>

type_synonym storage = "nat \<Rightarrow> u8"

definition read_bytes :: "storage \<Rightarrow> nat \<Rightarrow> nat \<Rightarrow> u8 list" where
  "read_bytes st off n = map (\<lambda>i. st (off + i)) [0..<n]"

fun write_bytes_at :: "storage \<Rightarrow> nat \<Rightarrow> u8 list \<Rightarrow> storage" where
  "write_bytes_at st off [] = st"
| "write_bytes_at st off (b # bs) = write_bytes_at (st(off := b)) (Suc off) bs"

lemma length_read_bytes [simp]: "length (read_bytes st off n) = n"
  by (simp add: read_bytes_def)

lemma read_bytes_nth [simp]: "i < n \<Longrightarrow> read_bytes st off n ! i = st (off + i)"
  by (simp add: read_bytes_def)

lemma write_bytes_at_apply:
  "write_bytes_at st off bs a =
     (if off \<le> a \<and> a < off + length bs then bs ! (a - off) else st a)"
proof (induction bs arbitrary: st off)
  case Nil
  then show ?case by auto
next
  case (Cons b bs)
  have "a - off = Suc (a - Suc off)" if "Suc off \<le> a"
    using that by simp
  then show ?case
    by (auto simp: Cons.IH)
qed

lemma read_write_bytes_same [simp]: "read_bytes (write_bytes_at st off bs) off (length bs) = bs"
  by (rule nth_equalityI) (simp_all add: write_bytes_at_apply)

lemma read_write_bytes_disjoint:
  "off + n \<le> off' \<or> off' + length bs \<le> off \<Longrightarrow>
     read_bytes (write_bytes_at st off' bs) off n = read_bytes st off n"
  by (auto simp: read_bytes_def write_bytes_at_apply)

lemma read_bytes_cong:
  "(\<And>a. off \<le> a \<Longrightarrow> a < off + n \<Longrightarrow> st a = st' a) \<Longrightarrow> read_bytes st off n = read_bytes st' off n"
  by (simp add: read_bytes_def)

end
