(* ===== verification/RV_State_Backend.thy ===== *)
theory RV_State_Backend
  imports RV_Prelude
begin

text \<open>
  The state backend (\<^verbatim>\<open>interpreter/src/state_backend.rs\<close> and its submodules): regions of
  elements, the placement of a layout by the \<open>Choreographer\<close>, and the in-memory backing
  storage on which regions are slices. The theory shows that placements are aligned,
  disjoint and inside the storage, and that a slice of the storage behaves as an array of
  elements, independently of every slice at another location.

  A region is a function from indices to elements; its length is a constant of the type in
  the source (\<open>LEN\<close>) and is given where a law needs it. Sizes, alignments and offsets are
  natural numbers below \<open>2 ^ 64\<close>, and the sums that the source computes in \<open>usize\<close> wrap around as they
  do in a release build; that a placement is sound has the total size of the layout, computed
  without wrapping, as a hypothesis.
\<close>

section \<open>Regions\<close>

type_synonym 'e region = "nat \<Rightarrow> 'e"

definition region_read :: "'e region \<Rightarrow> nat \<Rightarrow> 'e" where
  "region_read r i = r i"

definition region_write :: "'e region \<Rightarrow> nat \<Rightarrow> 'e \<Rightarrow> 'e region" where
  "region_write r i v = r(i := v)"

definition region_replace :: "'e region \<Rightarrow> nat \<Rightarrow> 'e \<Rightarrow> 'e \<times> 'e region" where
  "region_replace r i v = (r i, r(i := v))"

text \<open>Consecutive reads and writes, stated over any region operations.\<close>

definition region_read_some :: "('s \<Rightarrow> nat \<Rightarrow> 'e) \<Rightarrow> 's \<Rightarrow> nat \<Rightarrow> nat \<Rightarrow> 'e list" where
  "region_read_some rd s off n = map (\<lambda>i. rd s (off + i)) [0..<n]"

fun region_write_some :: "('s \<Rightarrow> nat \<Rightarrow> 'e \<Rightarrow> 's) \<Rightarrow> 's \<Rightarrow> nat \<Rightarrow> 'e list \<Rightarrow> 's" where
  "region_write_some wr s idx [] = s"
| "region_write_some wr s idx (v # vs) = region_write_some wr (wr s idx v) (Suc idx) vs"

definition region_read_all :: "('s \<Rightarrow> nat \<Rightarrow> 'e) \<Rightarrow> nat \<Rightarrow> 's \<Rightarrow> 'e list" where
  "region_read_all rd len s = map (rd s) [0..<len]"

definition region_write_all :: "('s \<Rightarrow> nat \<Rightarrow> 'e \<Rightarrow> 's) \<Rightarrow> 's \<Rightarrow> 'e list \<Rightarrow> 's" where
  "region_write_all wr s vs = region_write_some wr s 0 vs"

text \<open>
  What a client of the trait \<open>Region\<close> relies on: inside the region an element reads back
  as written and a write leaves every other element alone.
\<close>

locale region_spec =
  fixes len :: nat
    and rd :: "'s \<Rightarrow> nat \<Rightarrow> 'e"
    and wr :: "'s \<Rightarrow> nat \<Rightarrow> 'e \<Rightarrow> 's"
  assumes read_write: "i < len \<Longrightarrow> rd (wr s i v) i = v"
    and read_write_other: "i < len \<Longrightarrow> j < len \<Longrightarrow> i \<noteq> j \<Longrightarrow> rd (wr s i v) j = rd s j"
begin

lemma read_write_some:
  "idx + length vs \<le> len \<Longrightarrow> j < len \<Longrightarrow>
     rd (region_write_some wr s idx vs) j =
       (if idx \<le> j \<and> j < idx + length vs then vs ! (j - idx) else rd s j)"
proof (induction vs arbitrary: s idx)
  case Nil
  then show ?case by auto
next
  case (Cons v vs)
  have "j - idx = Suc (j - Suc idx)" if "Suc idx \<le> j"
    using that by simp
  with Cons show ?case
    by (cases "j = idx") (auto simp: read_write read_write_other)
qed

lemma read_some_write_some:
  "idx + length vs \<le> len \<Longrightarrow>
     region_read_some rd (region_write_some wr s idx vs) idx (length vs) = vs"
  by (rule nth_equalityI) (simp_all add: region_read_some_def read_write_some)

lemma read_all_write_all:
  "length vs = len \<Longrightarrow> region_read_all rd len (region_write_all wr s vs) = vs"
  by (rule nth_equalityI)
     (simp_all add: region_read_all_def region_write_all_def read_write_some)

lemma write_overwrites:
  "i < len \<Longrightarrow> j < len \<Longrightarrow> rd (wr (wr s i v) i w) j = rd (wr s i w) j"
  by (cases "i = j") (simp_all add: read_write read_write_other)

lemma writes_commute:
  "i < len \<Longrightarrow> i' < len \<Longrightarrow> j < len \<Longrightarrow> i \<noteq> i' \<Longrightarrow>
     rd (wr (wr s i v) i' w) j = rd (wr (wr s i' w) i v) j"
  by (cases "i = j"; cases "i' = j") (simp_all add: read_write read_write_other)

end

interpretation array_region: region_spec len region_read region_write
  by unfold_locales (simp_all add: region_read_def region_write_def)

section \<open>Placement\<close>

definition align_address :: "nat \<Rightarrow> nat \<Rightarrow> nat" where
  "align_address address align =
     (let offset = address mod align
      in if offset > 0 then (address + (align - offset)) mod 2 ^ 64 else address)"

record choreographer =
  first_unallocated_byte :: nat
  max_align :: nat
  one_time_align_hook :: "(nat \<Rightarrow> nat) option"

definition choreographer_new :: choreographer where
  "choreographer_new =
     \<lparr>first_unallocated_byte = 0, max_align = 1, one_time_align_hook = None\<rparr>"

text \<open>
  A location is an offset with the size and the alignment it was placed with (type
  parameters of \<open>Location<T>\<close> in the source). A failed assertion is \<open>None\<close>.
\<close>

record location =
  loc_offset :: nat
  loc_size :: nat
  loc_align :: nat

definition alloc_min_align ::
  "nat \<Rightarrow> nat \<Rightarrow> nat \<Rightarrow> choreographer \<Rightarrow> (location \<times> choreographer) option" where
  "alloc_min_align sz align_of min_align ch =
     (if \<not> sz > 0 then None else
      let align = max align_of min_align;
          new_align = (case one_time_align_hook ch of
                         Some with_align \<Rightarrow>
                           (if with_align align \<ge> align then Some (with_align align) else None)
                       | None \<Rightarrow> Some align)
      in case new_align of
           None \<Rightarrow> None
         | Some align \<Rightarrow>
             let offset = align_address (first_unallocated_byte ch) align
             in Some (\<lparr>loc_offset = offset, loc_size = sz, loc_align = align\<rparr>,
                      \<lparr>first_unallocated_byte = (offset + sz) mod 2 ^ 64,
                       max_align = max (max_align ch) align,
                       one_time_align_hook = None\<rparr>))"

definition choreographer_alloc ::
  "nat \<Rightarrow> nat \<Rightarrow> choreographer \<Rightarrow> (location \<times> choreographer) option" where
  "choreographer_alloc sz align_of ch = alloc_min_align sz align_of 1 ch"

text \<open>
  Layouts: \<open>Atom<T>\<close> and \<open>Array<T, LEN>\<close> carry size and alignment of \<open>T\<close>; tuples and
  arrays of layouts place their components in order; \<open>Sizes<BYTES>\<close> is the main memory,
  a byte array placed on a 4 KiB boundary.
\<close>

datatype layout =
    Atom nat nat
  | Array nat nat nat
  | Sizes nat
  | Tuple "layout list"

abbreviation Layout_Array :: "nat \<Rightarrow> layout \<Rightarrow> layout" where
  "Layout_Array n l \<equiv> Tuple (replicate n l)"

datatype placed_tree = Leaf location | Node "placed_tree list"

fun place_with :: "layout \<Rightarrow> choreographer \<Rightarrow> (placed_tree \<times> choreographer) option"
  and place_all :: "layout list \<Rightarrow> choreographer \<Rightarrow> (placed_tree list \<times> choreographer) option"
where
  "place_with (Atom sz align) ch =
     (case choreographer_alloc sz align ch of
        None \<Rightarrow> None | Some (loc, ch') \<Rightarrow> Some (Leaf loc, ch'))"
| "place_with (Array sz align len) ch =
     (case choreographer_alloc (sz * len) align ch of
        None \<Rightarrow> None | Some (loc, ch') \<Rightarrow> Some (Leaf loc, ch'))"
| "place_with (Sizes bytes) ch =
     (case alloc_min_align bytes 1 4096 ch of
        None \<Rightarrow> None | Some (loc, ch') \<Rightarrow> Some (Leaf loc, ch'))"
| "place_with (Tuple ls) ch =
     (case place_all ls ch of None \<Rightarrow> None | Some (ps, ch') \<Rightarrow> Some (Node ps, ch'))"
| "place_all [] ch = Some ([], ch)"
| "place_all (l # ls) ch =
     (case place_with l ch of
        None \<Rightarrow> None
      | Some (p, ch') \<Rightarrow>
          (case place_all ls ch' of None \<Rightarrow> None | Some (ps, ch'') \<Rightarrow> Some (p # ps, ch'')))"

record placed =
  placed_size :: nat
  placed_align :: nat
  placed_location :: placed_tree

definition choreographer_place :: "layout \<Rightarrow> placed option" where
  "choreographer_place l =
     (case place_with l choreographer_new of
        None \<Rightarrow> None
      | Some (location, alloc) \<Rightarrow>
          if first_unallocated_byte alloc > 0
          then Some \<lparr>placed_size = first_unallocated_byte alloc,
                     placed_align = max_align alloc,
                     placed_location = location\<rparr>
          else None)"

fun leaves :: "placed_tree \<Rightarrow> location list" where
  "leaves (Leaf loc) = [loc]"
| "leaves (Node ps) = concat (map leaves ps)"

text \<open>
  Locations in placement order: each starts at a multiple of its alignment and ends before
  the next one starts, all between \<open>lo\<close> and \<open>hi\<close>.
\<close>

fun laid_out :: "nat \<Rightarrow> location list \<Rightarrow> nat \<Rightarrow> bool" where
  "laid_out lo [] hi \<longleftrightarrow> lo \<le> hi"
| "laid_out lo (l # ls) hi \<longleftrightarrow>
     lo \<le> loc_offset l \<and> loc_align l dvd loc_offset l \<and> 0 < loc_size l \<and>
     laid_out (loc_offset l + loc_size l) ls hi"

fun layout_sizes_ok :: "layout \<Rightarrow> bool" where
  "layout_sizes_ok (Atom sz align) \<longleftrightarrow> 0 < sz"
| "layout_sizes_ok (Array sz align len) \<longleftrightarrow> 0 < sz * len"
| "layout_sizes_ok (Sizes bytes) \<longleftrightarrow> 0 < bytes"
| "layout_sizes_ok (Tuple ls) \<longleftrightarrow> list_all layout_sizes_ok ls"

fun layout_nonempty :: "layout \<Rightarrow> bool" where
  "layout_nonempty (Tuple ls) \<longleftrightarrow> list_ex layout_nonempty ls"
| "layout_nonempty _ \<longleftrightarrow> True"

text \<open>The end of a layout that is placed at an address, with unbounded numbers.\<close>

definition round_up :: "nat \<Rightarrow> nat \<Rightarrow> nat" where
  "round_up a n = (a + n - 1) div n * n"

fun layout_end :: "layout \<Rightarrow> nat \<Rightarrow> nat" where
  "layout_end (Atom sz align) a = round_up a (max align 1) + sz"
| "layout_end (Array sz align len) a = round_up a (max align 1) + sz * len"
| "layout_end (Sizes bytes) a = round_up a 4096 + bytes"
| "layout_end (Tuple ls) a = fold layout_end ls a"

lemma round_up_eq:
  "0 < n \<Longrightarrow> round_up a n = (if a mod n = 0 then a else a + (n - a mod n))"
proof -
  assume n: "0 < n"
  have a: "a = a div n * n + a mod n" by simp
  show ?thesis
  proof (cases "a mod n = 0")
    case True
    then obtain k where "a = k * n" by (metis mod_0_imp_dvd dvd_def mult.commute)
    moreover have "(k * n + (n - 1)) div n = k"
      using n by (simp only: div_mult_self3) simp
    ultimately show ?thesis
      using n by (simp add: round_up_def Nat.add_diff_assoc)
  next
    case False
    then have "a + n - 1 = (a div n + 1) * n + (a mod n - 1)"
      using n a unfolding add_mult_distrib by linarith
    moreover have "(a mod n - 1) div n = 0"
      using n by (simp add: less_imp_diff_less)
    ultimately have "(a + n - 1) div n = a div n + 1"
      using n by (simp del: mult_Suc add: div_mult_self3)
    moreover have "(a div n + 1) * n = a + (n - a mod n)"
      using a mod_less_divisor [OF n, of a] unfolding add_mult_distrib by linarith
    ultimately show ?thesis
      using False by (simp add: round_up_def)
  qed
qed

lemma round_up_ge: "0 < n \<Longrightarrow> a \<le> round_up a n"
  by (metis round_up_eq le_add1 order_refl)

lemma round_up_dvd: "n dvd round_up a n"
  by (simp add: round_up_def)

text \<open>Alignment without overflow gives the least multiple that is not below the address.\<close>

lemma align_address_round_up:
  assumes "0 < n" "round_up a n < 2 ^ 64"
  shows "align_address a n = round_up a n"
  using assms by (simp add: align_address_def Let_def round_up_eq split: if_splits)

lemma layout_end_ge: "a \<le> layout_end l a"
proof (induction l a rule: layout_end.induct)
  case (4 ls a)
  have "a \<le> fold layout_end ms a" if "set ms \<subseteq> set ls" for ms
    using that
  proof (induction ms rule: rev_induct)
    case (snoc m ms)
    then show ?case using "4.IH" [of m "fold layout_end ms a"] by fastforce
  qed simp
  then show ?case by simp
qed (simp_all add: round_up_ge trans_le_add1)

lemma layouts_end_ge: "a \<le> fold layout_end ls a"
  using layout_end_ge [of a "Tuple ls"] by simp

lemma laid_out_mono: "laid_out lo ls hi \<Longrightarrow> lo \<le> hi"
  by (induction ls arbitrary: lo) fastforce+

lemma laid_out_append:
  "laid_out lo xs mid \<Longrightarrow> laid_out mid ys hi \<Longrightarrow> laid_out lo (xs @ ys) hi"
proof (induction xs arbitrary: lo)
  case Nil
  then show ?case
    by (cases ys) auto
next
  case (Cons x xs)
  then show ?case by simp
qed

lemma alloc_min_align_eq:
  assumes "one_time_align_hook ch = None" "0 < ml" "0 < sz"
    and "round_up (first_unallocated_byte ch) (max al ml) + sz < 2 ^ 64"
  shows "alloc_min_align sz al ml ch =
    (let offset = round_up (first_unallocated_byte ch) (max al ml)
     in Some (\<lparr>loc_offset = offset, loc_size = sz, loc_align = max al ml\<rparr>,
              \<lparr>first_unallocated_byte = offset + sz, max_align = max (max_align ch) (max al ml),
               one_time_align_hook = None\<rparr>))"
  using assms by (simp add: alloc_min_align_def Let_def align_address_round_up)

text \<open>Placing a layout that fits: no assertion fails and the locations are laid out in order.\<close>

definition placed_between :: "choreographer \<Rightarrow> location list \<Rightarrow> choreographer \<Rightarrow> bool" where
  "placed_between ch ls ch' \<longleftrightarrow>
     one_time_align_hook ch' = None \<and>
     laid_out (first_unallocated_byte ch) ls (first_unallocated_byte ch') \<and>
     max_align ch \<le> max_align ch' \<and> (\<forall>x \<in> set ls. loc_align x \<le> max_align ch')"

lemma placed_between_append:
  "placed_between ch xs ch1 \<Longrightarrow> placed_between ch1 ys ch' \<Longrightarrow> placed_between ch (xs @ ys) ch'"
  by (auto simp: placed_between_def intro: laid_out_append order_trans)

lemma alloc_placed_between:
  assumes "one_time_align_hook ch = None" "0 < ml" "0 < sz"
    and "round_up (first_unallocated_byte ch) (max al ml) + sz < 2 ^ 64"
  shows "\<exists>loc ch'. alloc_min_align sz al ml ch = Some (loc, ch') \<and> placed_between ch [loc] ch' \<and>
    first_unallocated_byte ch' = round_up (first_unallocated_byte ch) (max al ml) + sz"
  using assms by (simp add: alloc_min_align_eq Let_def placed_between_def round_up_ge round_up_dvd)

lemma place_fits:
  "layout_sizes_ok l \<Longrightarrow> one_time_align_hook ch = None \<Longrightarrow>
   layout_end l (first_unallocated_byte ch) < 2 ^ 64 \<Longrightarrow>
     \<exists>p ch'. place_with l ch = Some (p, ch') \<and> placed_between ch (leaves p) ch' \<and>
       first_unallocated_byte ch' = layout_end l (first_unallocated_byte ch)"
  "list_all layout_sizes_ok ls \<Longrightarrow> one_time_align_hook ch = None \<Longrightarrow>
   fold layout_end ls (first_unallocated_byte ch) < 2 ^ 64 \<Longrightarrow>
     \<exists>ps ch'. place_all ls ch = Some (ps, ch') \<and> placed_between ch (concat (map leaves ps)) ch' \<and>
       first_unallocated_byte ch' = fold layout_end ls (first_unallocated_byte ch)"
proof (induction l ch and ls ch rule: place_with_place_all.induct)
  case (1 sz align ch)
  then show ?case
    using alloc_placed_between [of ch 1 sz align] by (auto simp: choreographer_alloc_def)
next
  case (2 sz align len ch)
  then show ?case
    using alloc_placed_between [of ch 1 "sz * len" align] by (auto simp: choreographer_alloc_def)
next
  case (3 bytes ch)
  then show ?case
    using alloc_placed_between [of ch 4096 bytes 1] by auto
next
  case (4 ls ch)
  then show ?case by fastforce
next
  case (5 ch)
  then show ?case by (simp add: placed_between_def)
next
  case (6 l ls ch)
  let ?a = "first_unallocated_byte ch"
  have "layout_end l ?a < 2 ^ 64"
    using "6.prems"(3) layouts_end_ge [of "layout_end l ?a" ls] by simp
  then obtain p ch1 where p: "place_with l ch = Some (p, ch1)" "placed_between ch (leaves p) ch1"
    "first_unallocated_byte ch1 = layout_end l ?a"
    using "6.IH"(1) "6.prems" by auto
  then obtain ps ch' where "place_all ls ch1 = Some (ps, ch')"
    "placed_between ch1 (concat (map leaves ps)) ch'"
    "first_unallocated_byte ch' = fold layout_end ls (layout_end l ?a)"
    using "6.IH"(2) [OF p(1) refl] "6.prems" by (auto simp: placed_between_def)
  with p show ?case by (auto intro: placed_between_append)
qed

text \<open>A placement without a failed assertion has no zero-sized part.\<close>

lemma place_sizes_ok:
  "place_with l ch = Some (p, ch') \<Longrightarrow> layout_sizes_ok l"
  "place_all ls ch = Some (ps, ch') \<Longrightarrow> list_all layout_sizes_ok ls"
proof (induction l ch and ls ch arbitrary: p ch' and ps ch' rule: place_with_place_all.induct)
  case (6 l ls ch)
  from "6.prems" obtain p1 ch1 ps1 where
    "place_with l ch = Some (p1, ch1)" "place_all ls ch1 = Some (ps1, ch')"
    by (auto split: option.splits prod.splits)
  with "6.IH" show ?case by simp
qed (auto simp: choreographer_alloc_def alloc_min_align_def split: option.splits prod.splits if_splits)

lemma place_leaves_empty:
  "place_with l ch = Some (p, ch') \<Longrightarrow> leaves p = [] \<longleftrightarrow> \<not> layout_nonempty l"
  "place_all ls ch = Some (ps, ch') \<Longrightarrow>
     concat (map leaves ps) = [] \<longleftrightarrow> \<not> list_ex layout_nonempty ls"
proof (induction l ch and ls ch arbitrary: p ch' and ps ch' rule: place_with_place_all.induct)
  case (6 l ls ch)
  from "6.prems" obtain p1 ch1 ps1 where
    "place_with l ch = Some (p1, ch1)" "place_all ls ch1 = Some (ps1, ch')" "ps = p1 # ps1"
    by (auto split: option.splits prod.splits)
  with "6.IH" show ?case by simp
qed (auto split: option.splits prod.splits)

text \<open>In a laid-out list two locations at different positions never share a byte.\<close>

definition loc_disjoint :: "location \<Rightarrow> location \<Rightarrow> bool" where
  "loc_disjoint a b \<longleftrightarrow>
     loc_offset a + loc_size a \<le> loc_offset b \<or> loc_offset b + loc_size b \<le> loc_offset a"

lemma laid_out_bounds:
  "laid_out lo ls hi \<Longrightarrow> l \<in> set ls \<Longrightarrow>
     lo \<le> loc_offset l \<and> loc_align l dvd loc_offset l \<and> loc_offset l + loc_size l \<le> hi"
  by (induction ls arbitrary: lo) (fastforce dest: laid_out_mono)+

lemma laid_out_disjoint:
  "laid_out lo ls hi \<Longrightarrow> i < j \<Longrightarrow> j < length ls \<Longrightarrow>
     loc_offset (ls ! i) + loc_size (ls ! i) \<le> loc_offset (ls ! j)"
proof (induction ls arbitrary: lo i j)
  case Nil
  then show ?case by simp
next
  case (Cons l ls)
  show ?case
  proof (cases i)
    case 0
    with Cons.prems have "ls ! (j - 1) \<in> set ls"
      by auto
    with Cons.prems 0 laid_out_bounds [of "loc_offset l + loc_size l" ls hi "ls ! (j - 1)"]
    show ?thesis by (auto simp: nth_Cons')
  next
    case (Suc i')
    with Cons.prems Cons.IH [of "loc_offset l + loc_size l" i' "j - 1"] show ?thesis
      by (auto simp: nth_Cons')
  qed
qed

lemma place_cases:
  assumes "choreographer_place l = Some pl"
  obtains ch where "place_with l choreographer_new = Some (placed_location pl, ch)"
    "placed_size pl = first_unallocated_byte ch" "placed_align pl = max_align ch"
  using assms by (auto simp: choreographer_place_def split: option.splits prod.splits if_splits)

lemma place_leaves:
  assumes "choreographer_place l = Some pl" "layout_end l 0 < 2 ^ 64"
  shows "laid_out 0 (leaves (placed_location pl)) (placed_size pl)"
    and "x \<in> set (leaves (placed_location pl)) \<Longrightarrow> loc_align x \<le> placed_align pl"
    and "placed_size pl = layout_end l 0"
proof -
  obtain ch where ch: "place_with l choreographer_new = Some (placed_location pl, ch)"
    "placed_size pl = first_unallocated_byte ch" "placed_align pl = max_align ch"
    using assms(1) by (rule place_cases)
  then have "placed_between choreographer_new (leaves (placed_location pl)) ch \<and>
      first_unallocated_byte ch = layout_end l 0"
    using place_fits(1) [of l choreographer_new] place_sizes_ok(1) [OF ch(1)] assms(2)
    by (auto simp: choreographer_new_def)
  then show "laid_out 0 (leaves (placed_location pl)) (placed_size pl)"
    "x \<in> set (leaves (placed_location pl)) \<Longrightarrow> loc_align x \<le> placed_align pl"
    "placed_size pl = layout_end l 0"
    using ch by (auto simp: placed_between_def choreographer_new_def)
qed

section \<open>In-memory backend\<close>

text \<open>
  \<open>InMemoryBackend::new\<close> allocates zeroed storage of the placed size; \<open>borrow\<close> gives the
  bytes; \<open>read\<close> and \<open>write\<close> panic (\<open>None\<close>) unless the accessed range is inside. A region
  at a location is the run of elements that starts at the location's offset.
\<close>

record in_memory_backend =
  backing_storage :: storage
  backend_size :: nat
  backend_align :: nat

definition in_memory_new :: "layout \<Rightarrow> (in_memory_backend \<times> placed_tree) option" where
  "in_memory_new l =
     (case choreographer_place l of
        None \<Rightarrow> None
      | Some pl \<Rightarrow>
          Some (\<lparr>backing_storage = (\<lambda>_. 0), backend_size = placed_size pl,
                 backend_align = placed_align pl\<rparr>, placed_location pl))"

definition in_memory_borrow :: "in_memory_backend \<Rightarrow> u8 list" where
  "in_memory_borrow b = read_bytes (backing_storage b) 0 (backend_size b)"

definition in_memory_read :: "in_memory_backend \<Rightarrow> nat \<Rightarrow> nat \<Rightarrow> u8 list option" where
  "in_memory_read b index n =
     (if n \<le> backend_size b \<and> index \<le> backend_size b - n
      then Some (read_bytes (backing_storage b) index n) else None)"

definition in_memory_write :: "in_memory_backend \<Rightarrow> nat \<Rightarrow> u8 list \<Rightarrow> in_memory_backend option" where
  "in_memory_write b index buffer =
     (if length buffer \<le> backend_size b \<and> index \<le> backend_size b - length buffer
      then Some (b\<lparr>backing_storage := write_bytes_at (backing_storage b) index buffer\<rparr>) else None)"

definition slice_read :: "nat \<Rightarrow> storage \<Rightarrow> nat \<Rightarrow> 'a::len word" where
  "slice_read off st i =
     from_le_bytes (read_bytes st (off + i * (LENGTH('a) div 8)) (LENGTH('a) div 8))"

definition slice_write :: "nat \<Rightarrow> storage \<Rightarrow> nat \<Rightarrow> 'a::len word \<Rightarrow> storage" where
  "slice_write off st i v = write_bytes_at st (off + i * (LENGTH('a) div 8)) (to_le_bytes v)"

lemma slice_read_write_apart:
  fixes v :: "'b::len word"
  assumes "offa + (i + 1) * (LENGTH('a) div 8) \<le> offb + j * (LENGTH('b) div 8) \<or>
           offb + (j + 1) * (LENGTH('b) div 8) \<le> offa + i * (LENGTH('a) div 8)"
  shows "(slice_read offa (slice_write offb st j v) i :: 'a::len word) = slice_read offa st i"
  using assms unfolding slice_read_def slice_write_def
  by (subst read_write_bytes_disjoint) (auto simp: algebra_simps)

lemma slice_region_spec:
  assumes "8 dvd LENGTH('a)"
  shows "region_spec len (slice_read off :: storage \<Rightarrow> nat \<Rightarrow> 'a::len word) (slice_write off)"
proof
  fix i st and v :: "'a word"
  have "read_bytes (write_bytes_at st k (to_le_bytes v)) k (LENGTH('a) div 8) = to_le_bytes v" for k
    using read_write_bytes_same [of st k "to_le_bytes v"] by simp
  then show "slice_read off (slice_write off st i v) i = v"
    using assms by (simp add: slice_read_def slice_write_def)
next
  fix i j :: nat and st and v :: "'a word"
  assume "i \<noteq> j"
  then have "i + 1 \<le> j \<or> j + 1 \<le> i" by linarith
  then have "(i + 1) * (LENGTH('a) div 8) \<le> j * (LENGTH('a) div 8) \<or>
      (j + 1) * (LENGTH('a) div 8) \<le> i * (LENGTH('a) div 8)"
    using mult_le_mono1 by blast
  then show "(slice_read off (slice_write off st i v) j :: 'a word) = slice_read off st j"
    by (intro slice_read_write_apart) auto
qed

text \<open>The element types of the machine state: 64-bit registers and single bytes.\<close>

interpretation slice_u64: region_spec len "slice_read off :: storage \<Rightarrow> nat \<Rightarrow> u64" "slice_write off"
  by (rule slice_region_spec) simp

interpretation slice_u8: region_spec len "slice_read off :: storage \<Rightarrow> nat \<Rightarrow> u8" "slice_write off"
  by (rule slice_region_spec) simp

text \<open>A cell is a region of length one (\<^verbatim>\<open>region.rs\<close>, \<open>Cell\<close>).\<close>

definition cell_read :: "nat \<Rightarrow> storage \<Rightarrow> 'a::len word" where
  "cell_read off st = slice_read off st 0"

definition cell_write :: "nat \<Rightarrow> storage \<Rightarrow> 'a::len word \<Rightarrow> storage" where
  "cell_write off st v = slice_write off st 0 v"

section \<open>Properties\<close>

text \<open>
  C9: every layout without zero-sized parts, with at least one byte and with an end below
  \<open>2 ^ 64\<close> is placed without a failing assertion, and the placement puts each location at a
  multiple of its alignment, inside the storage of the computed size, with no two locations
  sharing a byte, and with an overall alignment that covers the alignment of every location; the
  computed size is the one that unbounded arithmetic gives.
\<close>

theorem placement_sound:
  assumes "layout_sizes_ok l" "layout_nonempty l" "layout_end l 0 < 2 ^ 64"
  shows "\<exists>pl. choreographer_place l = Some pl \<and> placed_size pl = layout_end l 0 \<and>
    (let ls = leaves (placed_location pl) in
       (\<forall>x \<in> set ls. loc_align x dvd loc_offset x \<and> loc_offset x + loc_size x \<le> placed_size pl \<and>
                     loc_align x \<le> placed_align pl) \<and>
       (\<forall>i j. i < length ls \<and> j < length ls \<and> i \<noteq> j \<longrightarrow> loc_disjoint (ls ! i) (ls ! j)))"
proof -
  obtain p ch where p: "place_with l choreographer_new = Some (p, ch)"
    "placed_between choreographer_new (leaves p) ch"
    using place_fits(1) [OF assms(1), of choreographer_new] assms(3)
    by (auto simp: choreographer_new_def)
  have "leaves p \<noteq> []"
    using place_leaves_empty(1) [OF p(1)] assms(2) by simp
  then have "0 < first_unallocated_byte ch"
    using p(2) by (cases "leaves p") (auto simp: placed_between_def dest: laid_out_mono)
  with p obtain pl where pl: "choreographer_place l = Some pl"
    by (simp add: choreographer_place_def)
  note out = place_leaves [OF pl assms(3)]
  have "loc_disjoint (ls ! i) (ls ! j)"
    if "ls = leaves (placed_location pl)" "i < length ls" "j < length ls" "i \<noteq> j" for ls i j
    using that laid_out_disjoint [OF out(1)]
    by (cases "i < j") (auto simp: loc_disjoint_def not_less_iff_gr_or_eq)
  then show ?thesis
    using pl out by (auto simp: Let_def dest: laid_out_bounds)
qed

text \<open>Registers, a status byte and one gibibyte of memory.\<close>

theorem placement_sound_witness:
  "\<exists>pl. choreographer_place (Tuple [Atom 1 1, Array 8 8 31, Sizes (2 ^ 30)]) = Some pl \<and>
    placed_size pl = 4096 + 2 ^ 30 \<and>
    (let ls = leaves (placed_location pl) in
       (\<forall>x \<in> set ls. loc_align x dvd loc_offset x \<and> loc_offset x + loc_size x \<le> placed_size pl \<and>
                     loc_align x \<le> placed_align pl) \<and>
       (\<forall>i j. i < length ls \<and> j < length ls \<and> i \<noteq> j \<longrightarrow> loc_disjoint (ls ! i) (ls ! j)))"
proof -
  let ?l = "Tuple [Atom 1 1, Array 8 8 31, Sizes (2 ^ 30)]"
  have e: "layout_end ?l 0 = 4096 + 2 ^ 30" by (simp add: round_up_def)
  then show ?thesis
    using placement_sound [of ?l, unfolded e] by simp
qed

text \<open>
  C10: regions at two different locations of one placement, of a layout that ends below
  \<open>2 ^ 64\<close>, are independent: writing an element of one, whatever the element types, never changes
  an element of the other.
\<close>

theorem regions_isolated:
  fixes v :: "'b::len word"
  assumes "choreographer_place l = Some pl" "layout_end l 0 < 2 ^ 64"
    and "ls = leaves (placed_location pl)"
    and "i < length ls" "j < length ls" "i \<noteq> j"
    and "(k + 1) * (LENGTH('a::len) div 8) \<le> loc_size (ls ! i)"
    and "(m + 1) * (LENGTH('b) div 8) \<le> loc_size (ls ! j)"
  shows "(slice_read (loc_offset (ls ! i)) (slice_write (loc_offset (ls ! j)) st m v) k :: 'a word) =
         slice_read (loc_offset (ls ! i)) st k"
proof (rule slice_read_write_apart, cases "i < j")
  case True
  then have "loc_offset (ls ! i) + loc_size (ls ! i) \<le> loc_offset (ls ! j)"
    using assms laid_out_disjoint [OF place_leaves(1) [OF assms(1,2)]] by blast
  with assms(7) show "loc_offset (ls ! i) + (k + 1) * (LENGTH('a) div 8)
      \<le> loc_offset (ls ! j) + m * (LENGTH('b) div 8) \<or>
    loc_offset (ls ! j) + (m + 1) * (LENGTH('b) div 8)
      \<le> loc_offset (ls ! i) + k * (LENGTH('a) div 8)"
    by linarith
next
  case False
  with assms(6) have "j < i" by simp
  then have "loc_offset (ls ! j) + loc_size (ls ! j) \<le> loc_offset (ls ! i)"
    using assms laid_out_disjoint [OF place_leaves(1) [OF assms(1,2)]] by blast
  with assms(8) show "loc_offset (ls ! i) + (k + 1) * (LENGTH('a) div 8)
      \<le> loc_offset (ls ! j) + m * (LENGTH('b) div 8) \<or>
    loc_offset (ls ! j) + (m + 1) * (LENGTH('b) div 8)
      \<le> loc_offset (ls ! i) + k * (LENGTH('a) div 8)"
    by linarith
qed

theorem regions_isolated_witness:
  "(slice_read 0 (slice_write 248 (\<lambda>_. 0) 0 (5 :: u64)) 30 :: u64) = slice_read 0 (\<lambda>_. 0) 30"
proof -
  let ?a = "\<lparr>loc_offset = 0, loc_size = 248, loc_align = 8\<rparr>"
  let ?b = "\<lparr>loc_offset = 248, loc_size = 8, loc_align = 8\<rparr>"
  have pl: "choreographer_place (Tuple [Array 8 8 31, Atom 8 8]) =
      Some \<lparr>placed_size = 256, placed_align = 8, placed_location = Node [Leaf ?a, Leaf ?b]\<rparr>"
    by (simp add: choreographer_place_def choreographer_alloc_def alloc_min_align_def
        choreographer_new_def align_address_def)
  show ?thesis
    using regions_isolated [where 'a = 64, OF pl _, of "[?a, ?b]" 0 1 30 0 "\<lambda>_. 0" "5 :: u64"]
    by (simp add: round_up_def)
qed

end
