(* ===== verification/RV_Registers.thy ===== *)
theory RV_Registers
  imports RV_State_Backend
begin

text \<open>
  Integer and floating-point register files (\<^verbatim>\<open>interpreter/src/machine_state/registers.rs\<close>).
  Register \<open>x0\<close> is not stored: it reads as zero and writes to it are dropped. The other
  registers are the 31 (integer) and 32 (floating point) elements of a region.
\<close>

section \<open>Register names\<close>

datatype (plugins only: code size) XRegister =
    x0 | x1 | x2 | x3 | x4 | x5 | x6 | x7 | x8 | x9 | x10 | x11 | x12 | x13 | x14 | x15
  | x16 | x17 | x18 | x19 | x20 | x21 | x22 | x23 | x24 | x25 | x26 | x27 | x28 | x29 | x30 | x31

abbreviation (input) "ra \<equiv> x1"
abbreviation (input) "t0 \<equiv> x5"
abbreviation (input) "t1 \<equiv> x6"
abbreviation (input) "a0 \<equiv> x10"
abbreviation (input) "a1 \<equiv> x11"
abbreviation (input) "a2 \<equiv> x12"
abbreviation (input) "a7 \<equiv> x17"

definition XRegister_list :: "XRegister list" where
  "XRegister_list = [x0, x1, x2, x3, x4, x5, x6, x7, x8, x9, x10, x11, x12, x13, x14, x15,
     x16, x17, x18, x19, x20, x21, x22, x23, x24, x25, x26, x27, x28, x29, x30, x31]"

text \<open>The discriminant \<open>reg as usize\<close>, the index into the region; \<open>x0\<close> has a dummy one.\<close>

fun xreg_index :: "XRegister \<Rightarrow> nat" where
  "xreg_index x0 = 0xFFFF"
| "xreg_index x1 = 0" | "xreg_index x2 = 1" | "xreg_index x3 = 2" | "xreg_index x4 = 3"
| "xreg_index x5 = 4" | "xreg_index x6 = 5" | "xreg_index x7 = 6" | "xreg_index x8 = 7"
| "xreg_index x9 = 8" | "xreg_index x10 = 9" | "xreg_index x11 = 10" | "xreg_index x12 = 11"
| "xreg_index x13 = 12" | "xreg_index x14 = 13" | "xreg_index x15 = 14" | "xreg_index x16 = 15"
| "xreg_index x17 = 16" | "xreg_index x18 = 17" | "xreg_index x19 = 18" | "xreg_index x20 = 19"
| "xreg_index x21 = 20" | "xreg_index x22 = 21" | "xreg_index x23 = 22" | "xreg_index x24 = 23"
| "xreg_index x25 = 24" | "xreg_index x26 = 25" | "xreg_index x27 = 26" | "xreg_index x28 = 27"
| "xreg_index x29 = 28" | "xreg_index x30 = 29" | "xreg_index x31 = 30"

text \<open>\<open>parse_xregister\<close> matches the 32 encodings in order and panics (\<open>None\<close>) otherwise.\<close>

definition parse_xregister :: "u32 \<Rightarrow> XRegister option" where
  "parse_xregister r = (if unat r < 32 then Some (XRegister_list ! unat r) else None)"

fun xreg_name :: "XRegister \<Rightarrow> string" where
  "xreg_name x0 = ''zero''" | "xreg_name x1 = ''ra''" | "xreg_name x2 = ''sp''"
| "xreg_name x3 = ''gp''" | "xreg_name x4 = ''tp''" | "xreg_name x5 = ''t0''"
| "xreg_name x6 = ''t1''" | "xreg_name x7 = ''t2''" | "xreg_name x8 = ''s0''"
| "xreg_name x9 = ''s1''" | "xreg_name x10 = ''a0''" | "xreg_name x11 = ''a1''"
| "xreg_name x12 = ''a2''" | "xreg_name x13 = ''a3''" | "xreg_name x14 = ''a4''"
| "xreg_name x15 = ''a5''" | "xreg_name x16 = ''a6''" | "xreg_name x17 = ''a7''"
| "xreg_name x18 = ''s2''" | "xreg_name x19 = ''s3''" | "xreg_name x20 = ''s4''"
| "xreg_name x21 = ''s5''" | "xreg_name x22 = ''s6''" | "xreg_name x23 = ''s7''"
| "xreg_name x24 = ''s8''" | "xreg_name x25 = ''s9''" | "xreg_name x26 = ''s10''"
| "xreg_name x27 = ''s11''" | "xreg_name x28 = ''t3''" | "xreg_name x29 = ''t4''"
| "xreg_name x30 = ''t5''" | "xreg_name x31 = ''t6''"

definition xreg_is_zero :: "XRegister \<Rightarrow> bool" where
  "xreg_is_zero r \<longleftrightarrow> r = x0"

datatype (plugins only: code size) FRegister =
    f0 | f1 | f2 | f3 | f4 | f5 | f6 | f7 | f8 | f9 | f10 | f11 | f12 | f13 | f14 | f15
  | f16 | f17 | f18 | f19 | f20 | f21 | f22 | f23 | f24 | f25 | f26 | f27 | f28 | f29 | f30 | f31

definition FRegister_list :: "FRegister list" where
  "FRegister_list = [f0, f1, f2, f3, f4, f5, f6, f7, f8, f9, f10, f11, f12, f13, f14, f15,
     f16, f17, f18, f19, f20, f21, f22, f23, f24, f25, f26, f27, f28, f29, f30, f31]"

fun freg_index :: "FRegister \<Rightarrow> nat" where
  "freg_index f0 = 0" | "freg_index f1 = 1" | "freg_index f2 = 2" | "freg_index f3 = 3"
| "freg_index f4 = 4" | "freg_index f5 = 5" | "freg_index f6 = 6" | "freg_index f7 = 7"
| "freg_index f8 = 8" | "freg_index f9 = 9" | "freg_index f10 = 10" | "freg_index f11 = 11"
| "freg_index f12 = 12" | "freg_index f13 = 13" | "freg_index f14 = 14" | "freg_index f15 = 15"
| "freg_index f16 = 16" | "freg_index f17 = 17" | "freg_index f18 = 18" | "freg_index f19 = 19"
| "freg_index f20 = 20" | "freg_index f21 = 21" | "freg_index f22 = 22" | "freg_index f23 = 23"
| "freg_index f24 = 24" | "freg_index f25 = 25" | "freg_index f26 = 26" | "freg_index f27 = 27"
| "freg_index f28 = 28" | "freg_index f29 = 29" | "freg_index f30 = 30" | "freg_index f31 = 31"

definition parse_fregister :: "u32 \<Rightarrow> FRegister option" where
  "parse_fregister r = (if unat r < 32 then Some (FRegister_list ! unat r) else None)"

section \<open>Register files\<close>

type_synonym XValue = u64
type_synonym FValue = u64
type_synonym xregisters = "XValue region"
type_synonym fregisters = "FValue region"

definition xregs_read :: "xregisters \<Rightarrow> XRegister \<Rightarrow> XValue" where
  "xregs_read xs reg = (if xreg_is_zero reg then 0 else region_read xs (xreg_index reg))"

definition xregs_write :: "xregisters \<Rightarrow> XRegister \<Rightarrow> XValue \<Rightarrow> xregisters" where
  "xregs_write xs reg val =
     (if xreg_is_zero reg then xs else region_write xs (xreg_index reg) val)"

definition xregs_reset :: "xregisters \<Rightarrow> xregisters" where
  "xregs_reset xs = fold (\<lambda>i r. region_write r i 0) [0..<31] xs"

definition fregs_read :: "fregisters \<Rightarrow> FRegister \<Rightarrow> FValue" where
  "fregs_read fs reg = region_read fs (freg_index reg)"

definition fregs_write :: "fregisters \<Rightarrow> FRegister \<Rightarrow> FValue \<Rightarrow> fregisters" where
  "fregs_write fs reg val = region_write fs (freg_index reg) val"

definition fregs_reset :: "fregisters \<Rightarrow> fregisters" where
  "fregs_reset fs = fold (\<lambda>i r. region_write r i 0) [0..<32] fs"

section \<open>Lemmas\<close>

lemma xreg_index_bound: "r \<noteq> x0 \<Longrightarrow> xreg_index r < 31"
  by (cases r) simp_all

lemma freg_index_bound: "freg_index r < 32"
  by (cases r) simp_all

lemma XRegister_list_index: "r \<noteq> x0 \<Longrightarrow> XRegister_list ! Suc (xreg_index r) = r"
  by (cases r) (simp_all add: XRegister_list_def)

lemma FRegister_list_index: "FRegister_list ! freg_index r = r"
  by (cases r) (simp_all add: FRegister_list_def)

lemma xreg_index_inj: "xreg_index r = xreg_index r' \<Longrightarrow> r = r'"
proof -
  assume eq: "xreg_index r = xreg_index r'"
  show "r = r'"
  proof (cases "r = x0 \<or> r' = x0")
    case True
    with eq show ?thesis
      using xreg_index_bound [of r] xreg_index_bound [of r'] by (cases "r = x0"; cases "r' = x0") auto
  next
    case False
    with eq show ?thesis
      by (metis XRegister_list_index)
  qed
qed

lemma freg_index_inj: "freg_index r = freg_index r' \<Longrightarrow> r = r'"
  by (metis FRegister_list_index)

lemma length_XRegister_list [simp]: "length XRegister_list = 32"
  by (simp add: XRegister_list_def)

lemma parse_xregister_total: "r AND 31 = r \<Longrightarrow> \<exists>x. parse_xregister r = Some x"
proof -
  assume r: "r AND 31 = r"
  have "unat (r AND mask 5) = unat r mod 2 ^ 5"
    by (rule unat_and_mask)
  then have "unat r < 32"
    using r by (simp add: mask_eq_exp_minus_1)
  then show ?thesis
    by (simp add: parse_xregister_def)
qed

lemma region_clear:
  "fold (\<lambda>i r. region_write r i 0) [0..<n] s j = (if j < n then 0 else s j)"
  by (induction n) (auto simp: region_write_def)

lemma xregs_read_reset [simp]: "xregs_read (xregs_reset xs) r = 0"
  by (simp add: xregs_read_def xregs_reset_def region_read_def region_clear xreg_is_zero_def
      xreg_index_bound)

lemma fregs_read_reset [simp]: "fregs_read (fregs_reset fs) r = 0"
  by (simp add: fregs_read_def fregs_reset_def region_read_def region_clear freg_index_bound)

section \<open>The register file interface\<close>

text \<open>
  What the instruction semantics relies on: a writable register reads back as written, a
  write changes no other register, and a write to a register that is not writable is void.
\<close>

locale register_file =
  fixes rd :: "'s \<Rightarrow> 'r \<Rightarrow> 'v"
    and wr :: "'s \<Rightarrow> 'r \<Rightarrow> 'v \<Rightarrow> 's"
    and writable :: "'r \<Rightarrow> bool"
  assumes read_write: "writable r \<Longrightarrow> rd (wr s r v) r = v"
    and read_write_other: "r' \<noteq> r \<Longrightarrow> rd (wr s r v) r' = rd s r'"
    and write_void: "\<not> writable r \<Longrightarrow> wr s r v = s"
begin

lemma read_write_if: "rd (wr s r v) r' = (if r' = r \<and> writable r then v else rd s r')"
  by (cases "r' = r"; cases "writable r") (simp_all add: read_write read_write_other write_void)

lemma write_write: "rd (wr (wr s r v) r w) r' = rd (wr s r w) r'"
  by (simp add: read_write_if)

end

interpretation xregs: register_file xregs_read xregs_write "\<lambda>r. r \<noteq> x0"
  by unfold_locales
     (auto simp: xregs_read_def xregs_write_def xreg_is_zero_def region_read_def region_write_def
        dest: xreg_index_inj)

interpretation fregs: register_file fregs_read fregs_write "\<lambda>_. True"
  by unfold_locales
     (auto simp: fregs_read_def fregs_write_def region_read_def region_write_def
        dest: freg_index_inj)

lemma xregs_read_x0 [simp]: "xregs_read xs x0 = 0"
  by (simp add: xregs_read_def xreg_is_zero_def)

lemma xregs_write_x0 [simp]: "xregs_write xs x0 v = xs"
  by (simp add: xregs_write_def xreg_is_zero_def)

lemmas xregs_read_write [simp] = xregs.read_write_if

section \<open>The register file\<close>

text \<open>
  The integer register file is a total map with a hard-wired zero: a write is read back from
  its register unless that is \<open>x0\<close>, leaves the other registers alone, \<open>x0\<close> reads as zero, and a
  reset clears every register.
\<close>

lemma register_file_laws:
  "xregs_read (xregs_write xs r v) r' = (if r' = r \<and> r \<noteq> x0 then v else xregs_read xs r') \<and>
   xregs_read xs x0 = 0 \<and> xregs_read (xregs_reset xs) r = 0"
  by simp

end
