(* ===== verification/RV_Traps.thy ===== *)
theory RV_Traps
  imports RV_Registers
begin

text \<open>
  Privilege modes (\<^verbatim>\<open>machine_state/mode.rs\<close>) and traps (\<^verbatim>\<open>traps.rs\<close>): the synchronous
  exceptions and the interrupts, their codes, causes, trap values and handler addresses. The
  trait \<open>TrapContext\<close> has the two implementors \<open>Exception\<close> and \<open>Interrupt\<close>; its operations
  are functions of the sum \<open>trap_source\<close> of the two.
\<close>

unbundle bit_operations_syntax

type_synonym Address = u64
type_synonym CSRValue = u64

section \<open>Modes\<close>

datatype Privilege = Unprivileged | SupervisorPrivilege | HypervisorPrivilege | MachinePrivilege

fun privilege_level :: "Privilege \<Rightarrow> nat" where
  "privilege_level Unprivileged = 0"
| "privilege_level SupervisorPrivilege = 1"
| "privilege_level HypervisorPrivilege = 2"
| "privilege_level MachinePrivilege = 3"

datatype Mode = User | Supervisor | Machine

fun mode_privilege :: "Mode \<Rightarrow> Privilege" where
  "mode_privilege User = Unprivileged"
| "mode_privilege Supervisor = SupervisorPrivilege"
| "mode_privilege Machine = MachinePrivilege"

fun mode_as_u8 :: "Mode \<Rightarrow> u8" where
  "mode_as_u8 User = 0"
| "mode_as_u8 Supervisor = 1"
| "mode_as_u8 Machine = 3"

definition mode_try_from :: "u8 \<Rightarrow> Mode option" where
  "mode_try_from value =
     (if value = 0 then Some User
      else if value = 1 then Some Supervisor
      else if value = 3 then Some Machine
      else None)"

text \<open>\<open>Mode\<close> derives \<open>PartialOrd\<close> on its discriminants.\<close>

definition mode_le :: "Mode \<Rightarrow> Mode \<Rightarrow> bool" where
  "mode_le a b \<longleftrightarrow> mode_as_u8 a \<le> mode_as_u8 b"

datatype TrapMode = TrapSupervisor | TrapMachine

fun as_mode :: "TrapMode \<Rightarrow> Mode" where
  "as_mode TrapSupervisor = Supervisor"
| "as_mode TrapMachine = Machine"

text \<open>
  \<open>ModeCell\<close> stores the discriminant in a byte cell and unwraps \<open>try_from\<close> when read. The
  hart record below keeps the mode itself; the lemma shows that the cell loses nothing and
  that reading back never hits the unwrap's panic.
\<close>

definition mode_cell_write :: "nat \<Rightarrow> storage \<Rightarrow> Mode \<Rightarrow> storage" where
  "mode_cell_write off st m = cell_write off st (mode_as_u8 m)"

definition mode_cell_read :: "nat \<Rightarrow> storage \<Rightarrow> Mode option" where
  "mode_cell_read off st = mode_try_from (cell_read off st)"

lemma mode_try_from_as_u8 [simp]: "mode_try_from (mode_as_u8 m) = Some m"
  by (cases m) (simp_all add: mode_try_from_def)

lemma mode_cell_read_write [simp]: "mode_cell_read off (mode_cell_write off st m) = Some m"
  using slice_u8.read_write [of 0 1 off st "mode_as_u8 m"]
  by (simp add: mode_cell_read_def mode_cell_write_def cell_read_def cell_write_def)

lemma mode_le_simps [simp]:
  "mode_le m Supervisor \<longleftrightarrow> m \<noteq> Machine"
  by (cases m) (simp_all add: mode_le_def word_le_nat_alt)

section \<open>Exceptions and interrupts\<close>

datatype EnvironException = EnvCallFromUMode | EnvCallFromSMode | EnvCallFromMMode

datatype RException =
    InstructionAccessFault Address
  | IllegalInstruction
  | Breakpoint
  | LoadAccessFault Address
  | StoreAccessFault Address
  | ExcEnvCallFromUMode
  | ExcEnvCallFromSMode
  | ExcEnvCallFromMMode

fun as_exception :: "EnvironException \<Rightarrow> RException" where
  "as_exception EnvCallFromUMode = ExcEnvCallFromUMode"
| "as_exception EnvCallFromSMode = ExcEnvCallFromSMode"
| "as_exception EnvCallFromMMode = ExcEnvCallFromMMode"

text \<open>\<open>EnvironException::try_from\<close>; the error string of the other cases is \<open>None\<close>.\<close>

fun environ_try_from :: "RException \<Rightarrow> EnvironException option" where
  "environ_try_from ExcEnvCallFromUMode = Some EnvCallFromUMode"
| "environ_try_from ExcEnvCallFromSMode = Some EnvCallFromSMode"
| "environ_try_from ExcEnvCallFromMMode = Some EnvCallFromMMode"
| "environ_try_from Breakpoint = None"
| "environ_try_from IllegalInstruction = None"
| "environ_try_from (InstructionAccessFault _) = None"
| "environ_try_from (LoadAccessFault _) = None"
| "environ_try_from (StoreAccessFault _) = None"

datatype Interrupt =
    SupervisorSoftware | MachineSoftware | SupervisorTimer | MachineTimer
  | SupervisorExternal | MachineExternal

fun exception_code_const :: "Interrupt \<Rightarrow> CSRValue" where
  "exception_code_const SupervisorSoftware = 1"
| "exception_code_const MachineSoftware = 3"
| "exception_code_const SupervisorTimer = 5"
| "exception_code_const MachineTimer = 7"
| "exception_code_const SupervisorExternal = 9"
| "exception_code_const MachineExternal = 11"

definition SUPERVISOR_BIT_MASK :: CSRValue where
  "SUPERVISOR_BIT_MASK =
     shl 1 (unat (exception_code_const SupervisorSoftware)) OR
     shl 1 (unat (exception_code_const SupervisorTimer)) OR
     shl 1 (unat (exception_code_const SupervisorExternal))"

definition MACHINE_BIT_MASK :: CSRValue where
  "MACHINE_BIT_MASK =
     shl 1 (unat (exception_code_const MachineSoftware)) OR
     shl 1 (unat (exception_code_const MachineTimer)) OR
     shl 1 (unat (exception_code_const MachineExternal))"

section \<open>Trap contexts\<close>

datatype trap_source = TrapException RException | TrapInterrupt Interrupt

datatype TrapKind = KindInterrupt | KindException

fun trap_kind :: "trap_source \<Rightarrow> TrapKind" where
  "trap_kind (TrapException _) = KindException"
| "trap_kind (TrapInterrupt _) = KindInterrupt"

fun exception_code_exn :: "RException \<Rightarrow> CSRValue" where
  "exception_code_exn (InstructionAccessFault _) = 1"
| "exception_code_exn IllegalInstruction = 2"
| "exception_code_exn Breakpoint = 3"
| "exception_code_exn (LoadAccessFault _) = 5"
| "exception_code_exn (StoreAccessFault _) = 7"
| "exception_code_exn ExcEnvCallFromUMode = 8"
| "exception_code_exn ExcEnvCallFromSMode = 9"
| "exception_code_exn ExcEnvCallFromMMode = 11"

fun exception_code :: "trap_source \<Rightarrow> CSRValue" where
  "exception_code (TrapException e) = exception_code_exn e"
| "exception_code (TrapInterrupt i) = exception_code_const i"

fun xcause :: "trap_source \<Rightarrow> CSRValue" where
  "xcause (TrapException e) = exception_code_exn e"
| "xcause (TrapInterrupt i) = shl 1 63 OR exception_code_const i"

fun xtval_exn :: "RException \<Rightarrow> CSRValue" where
  "xtval_exn IllegalInstruction = 0"
| "xtval_exn Breakpoint = 0"
| "xtval_exn ExcEnvCallFromUMode = 0"
| "xtval_exn ExcEnvCallFromSMode = 0"
| "xtval_exn ExcEnvCallFromMMode = 0"
| "xtval_exn (InstructionAccessFault addr) = addr"
| "xtval_exn (LoadAccessFault addr) = addr"
| "xtval_exn (StoreAccessFault addr) = addr"

fun xtval :: "trap_source \<Rightarrow> CSRValue" where
  "xtval (TrapException e) = xtval_exn e"
| "xtval (TrapInterrupt i) = 0"

fun trap_handler_address :: "trap_source \<Rightarrow> CSRValue \<Rightarrow> Address" where
  "trap_handler_address (TrapException e) xtvec_val = xtvec_val AND NOT 3"
| "trap_handler_address (TrapInterrupt i) xtvec_val =
     (let xtvec_mode = xtvec_val AND 3;
          xtvec_base = xtvec_val AND NOT 3;
          handler_offset = (if xtvec_mode = 1 then 4 * exception_code_const i else 0)
      in xtvec_base + handler_offset)"

lemma environ_try_from_as_exception [simp]: "environ_try_from (as_exception e) = Some e"
  by (cases e) simp_all

lemma environ_try_from_Some: "environ_try_from x = Some e \<Longrightarrow> x = as_exception e"
  by (cases x) auto

lemma exception_code_bound: "unat (exception_code t) < 12"
proof (cases t)
  case (TrapException e)
  then show ?thesis by (cases e) simp_all
next
  case (TrapInterrupt i)
  then show ?thesis by (cases i) simp_all
qed

lemma exception_code_const_inj:
  "unat (exception_code_const i) = unat (exception_code_const j) \<Longrightarrow> i = j"
  by (cases i; cases j) simp_all

lemma SUPERVISOR_BIT_MASK_eq: "SUPERVISOR_BIT_MASK = 0x222"
  by (simp add: SUPERVISOR_BIT_MASK_def shl_def)

lemma MACHINE_BIT_MASK_eq: "MACHINE_BIT_MASK = 0x888"
  by (simp add: MACHINE_BIT_MASK_def shl_def)

section \<open>The bit operations of the twiddle crate\<close>

text \<open>
  \<open>get_trap_mode\<close> and the interrupt selection use \<open>Twiddle::bit\<close> and \<open>Twiddle::set_bit\<close> of
  the external crate \<open>twiddle\<close>. They are parameters of the model; \<open>twiddle_spec\<close> states the
  documented behaviour: testing, and replacing, the bit at a position inside the word.
\<close>

record twiddle =
  tw_bit :: "u64 \<Rightarrow> nat \<Rightarrow> bool"
  tw_set_bit :: "u64 \<Rightarrow> nat \<Rightarrow> bool \<Rightarrow> u64"

definition twiddle_spec :: "twiddle \<Rightarrow> bool" where
  "twiddle_spec tw \<longleftrightarrow>
     (\<forall>w i. i < 64 \<longrightarrow> tw_bit tw w i = bit w i) \<and>
     (\<forall>w i b n. i < 64 \<and> n < 64 \<longrightarrow>
        bit (tw_set_bit tw w i b) n = (if n = i then b else bit w n))"

lemma tw_bit_eq: "twiddle_spec tw \<Longrightarrow> i < 64 \<Longrightarrow> tw_bit tw w i = bit w i"
  by (simp add: twiddle_spec_def)

lemma bit_tw_set_bit:
  "twiddle_spec tw \<Longrightarrow> i < 64 \<Longrightarrow> n < 64 \<Longrightarrow>
     bit (tw_set_bit tw w i b) n = (if n = i then b else bit w n)"
  by (simp add: twiddle_spec_def)

lemma tw_bit_code:
  "twiddle_spec tw \<Longrightarrow> tw_bit tw w (unat (exception_code t)) = bit w (unat (exception_code t))"
  using exception_code_bound [of t] by (simp add: tw_bit_eq)

text \<open>An instance, used by the witnesses.\<close>

definition twiddle_words :: twiddle where
  "twiddle_words =
     \<lparr>tw_bit = (\<lambda>w i. bit w i),
      tw_set_bit = (\<lambda>w i b. if b then set_bit i w else unset_bit i w)\<rparr>"

lemma twiddle_words_spec [simp]: "twiddle_spec twiddle_words"
  by (auto simp: twiddle_spec_def twiddle_words_def bit_simps)

end
