(* ===== verification/RV_CSR_Fields.thy ===== *)
theory RV_CSR_Fields
  imports RV_Traps
begin

text \<open>
  Fields of control and status registers: \<open>ones\<close> of \<^verbatim>\<open>csregisters.rs\<close>, the field macros of
  \<^verbatim>\<open>csregisters/fields.rs\<close>, the fields and WARL (write any, read legal) rules of the status
  registers in \<^verbatim>\<open>csregisters/xstatus.rs\<close>, and the fields of \<open>satp\<close> in \<^verbatim>\<open>csregisters/satp.rs\<close>.
  The getters and setters that the macro \<open>create_field!\<close> generates are instances of
  \<open>get_field\<close> and \<open>set_field\<close>; the locale \<open>field_value\<close> is the contract of the trait
  \<open>FieldValue\<close>, and every field type interprets it.
\<close>

unbundle bit_operations_syntax

section \<open>Fields\<close>

definition ones :: "nat \<Rightarrow> u64" where
  "ones n = shr (NOT 0) (64 - n)"

text \<open>A field constant is the pair of its offset and its width.\<close>

type_synonym field = "nat \<times> nat"

definition get_field :: "(u64 \<Rightarrow> 'v) \<Rightarrow> field \<Rightarrow> CSRValue \<Rightarrow> 'v" where
  "get_field new f mstatus = new (shr mstatus (fst f) AND ones (snd f))"

definition set_field :: "('v \<Rightarrow> u64) \<Rightarrow> field \<Rightarrow> CSRValue \<Rightarrow> 'v \<Rightarrow> CSRValue" where
  "set_field raw_bits f mstatus new_value =
     (let field_bits = raw_bits new_value AND ones (snd f);
          cleared = mstatus AND NOT (shl (ones (snd f)) (fst f))
      in cleared OR shl field_bits (fst f))"

definition field_mask :: "field \<Rightarrow> CSRValue" where
  "field_mask f = shl (ones (snd f)) (fst f)"

definition field_ok :: "field \<Rightarrow> bool" where
  "field_ok f \<longleftrightarrow> 0 < snd f \<and> fst f + snd f \<le> 64"

definition in_field :: "field \<Rightarrow> nat \<Rightarrow> bool" where
  "in_field f n \<longleftrightarrow> fst f \<le> n \<and> n < fst f + snd f"

lemma bit_ones [simp]: "0 < w \<Longrightarrow> w \<le> 64 \<Longrightarrow> bit (ones w) n \<longleftrightarrow> n < w"
  by (auto simp: ones_def shr_def bit_simps)

lemma field_ok_pair [simp]: "field_ok (off, w) \<longleftrightarrow> 0 < w \<and> off + w \<le> 64"
  by (simp add: field_ok_def)

lemma in_field_pair [simp]: "in_field (off, w) n \<longleftrightarrow> off \<le> n \<and> n < off + w"
  by (simp add: in_field_def)

lemma bit_set_field:
  assumes "field_ok f" "n < 64"
  shows "bit (set_field raw f m v) n =
           (if in_field f n then bit (raw v) (n - fst f) else bit m n)"
  using assms
  by (cases f) (auto simp: set_field_def shl_def bit_simps Let_def)

lemma bit_set_field_1:
  "off < 64 \<Longrightarrow> n < 64 \<Longrightarrow>
     bit (set_field raw (off, Suc 0) m v) n = (if n = off then bit (raw v) 0 else bit m n)"
  by (auto simp: bit_set_field)

lemma bit_set_field_2:
  assumes "off < 63" "n < 64"
  shows "bit (set_field raw (off, 2) m v) n =
           (if n = off then bit (raw v) 0 else if n = Suc off then bit (raw v) 1 else bit m n)"
proof -
  have "in_field (off, 2) n \<longleftrightarrow> n = off \<or> n = Suc off"
    by (auto simp: in_field_def)
  then show ?thesis
    using assms by (auto simp: bit_set_field)
qed

lemma bit_get_raw:
  assumes "field_ok f" "n < 64"
  shows "bit (shr m (fst f) AND ones (snd f)) n \<longleftrightarrow> n < snd f \<and> bit m (fst f + n)"
  using assms by (cases f) (auto simp: shr_def bit_simps)

lemma bit_field_mask:
  assumes "field_ok f" "n < 64"
  shows "bit (field_mask f) n \<longleftrightarrow> in_field f n"
  using assms by (cases f) (auto simp: field_mask_def shl_def bit_simps)

text \<open>A getter depends on the bits of its field only.\<close>

lemma get_field_cong:
  assumes "field_ok f" "\<And>n. in_field f n \<Longrightarrow> bit m n = bit m' n"
  shows "get_field new f m = get_field new f m'"
proof -
  have "shr m (fst f) AND ones (snd f) = shr m' (fst f) AND ones (snd f)"
    using assms by (intro bit_word_eqI) (auto simp: bit_get_raw in_field_def)
  then show ?thesis
    by (simp add: get_field_def)
qed

text \<open>Writing a field leaves every disjoint field as it was.\<close>

lemma get_set_field_other:
  assumes "field_ok f" "field_ok g" "\<And>n. \<not> (in_field f n \<and> in_field g n)"
  shows "get_field new g (set_field raw f m v) = get_field new g m"
proof (rule get_field_cong [OF assms(2)])
  fix n assume "in_field g n"
  with assms show "bit (set_field raw f m v) n = bit m n"
    by (subst bit_set_field) (auto simp: field_ok_def in_field_def)
qed

locale field_value =
  fixes new :: "u64 \<Rightarrow> 'v" and raw_bits :: "'v \<Rightarrow> u64" and width :: nat and valid :: "'v \<Rightarrow> bool"
  assumes width_pos: "0 < width"
    and new_raw_bits: "valid v \<Longrightarrow> new (raw_bits v AND mask width) = v"
begin

lemma get_set_same:
  assumes "off + width \<le> 64" "valid v"
  shows "get_field new (off, width) (set_field raw_bits (off, width) m v) = v"
proof -
  let ?f = "(off, width)" and ?m = "set_field raw_bits (off, width) m v"
  have ok: "field_ok ?f" using assms width_pos by simp
  have "shr ?m off AND ones width = raw_bits v AND mask width"
    using ok assms bit_get_raw [OF ok, of _ ?m]
    by (intro bit_word_eqI) (auto simp: bit_set_field bit_simps)
  then show ?thesis
    using new_raw_bits [OF assms(2)] by (simp add: get_field_def)
qed

lemma set_set_same:
  assumes "off + width \<le> 64"
  shows "set_field raw_bits (off, width) (set_field raw_bits (off, width) m v) v' =
         set_field raw_bits (off, width) m v'"
  using assms width_pos by (intro bit_word_eqI) (auto simp: bit_set_field)

end

section \<open>Field types\<close>

definition bool_new :: "u64 \<Rightarrow> bool" where
  "bool_new value \<longleftrightarrow> value AND 1 = 1"

definition bool_raw_bits :: "bool \<Rightarrow> u64" where
  "bool_raw_bits b = of_bool b"

datatype MPPValue = MPP_User | MPP_Supervisor | MPP_Machine

definition MPPValue_new :: "u64 \<Rightarrow> MPPValue" where
  "MPPValue_new value =
     (let v = value AND 3 in
      if v = 0 then MPP_User
      else if v = 1 then MPP_Supervisor
      else if v = 3 then MPP_Machine
      else MPP_User)"

fun MPPValue_raw_bits :: "MPPValue \<Rightarrow> u64" where
  "MPPValue_raw_bits MPP_User = 0"
| "MPPValue_raw_bits MPP_Supervisor = 1"
| "MPPValue_raw_bits MPP_Machine = 3"

datatype SPPValue = SPP_User | SPP_Supervisor

definition SPPValue_new :: "u64 \<Rightarrow> SPPValue" where
  "SPPValue_new value = (if value AND 1 = 0 then SPP_User else SPP_Supervisor)"

fun SPPValue_raw_bits :: "SPPValue \<Rightarrow> u64" where
  "SPPValue_raw_bits SPP_User = 0"
| "SPPValue_raw_bits SPP_Supervisor = 1"

datatype XLenValue = MXL32 | MXL64 | MXL128

definition XLenValue_new :: "u64 \<Rightarrow> XLenValue" where
  "XLenValue_new value =
     (let v = value AND 3 in
      if v = 1 then MXL32 else if v = 2 then MXL64 else if v = 3 then MXL128 else MXL64)"

fun XLenValue_raw_bits :: "XLenValue \<Rightarrow> u64" where
  "XLenValue_raw_bits MXL32 = 1"
| "XLenValue_raw_bits MXL64 = 2"
| "XLenValue_raw_bits MXL128 = 3"

datatype ExtensionValue = ExtOff | ExtInitial | ExtClean | ExtDirty

definition ExtensionValue_new :: "u64 \<Rightarrow> ExtensionValue" where
  "ExtensionValue_new value =
     (let v = value AND 3 in
      if v = 0 then ExtOff else if v = 1 then ExtInitial else if v = 2 then ExtClean else ExtDirty)"

fun ExtensionValue_raw_bits :: "ExtensionValue \<Rightarrow> u64" where
  "ExtensionValue_raw_bits ExtOff = 0"
| "ExtensionValue_raw_bits ExtInitial = 1"
| "ExtensionValue_raw_bits ExtClean = 2"
| "ExtensionValue_raw_bits ExtDirty = 3"

datatype SvLength = Sv39 | Sv48 | Sv57

datatype TranslationAlgorithm = Bare | Sv SvLength

fun TranslationAlgorithm_enc :: "TranslationAlgorithm \<Rightarrow> CSRValue" where
  "TranslationAlgorithm_enc Bare = 0"
| "TranslationAlgorithm_enc (Sv Sv39) = 8"
| "TranslationAlgorithm_enc (Sv Sv48) = 9"
| "TranslationAlgorithm_enc (Sv Sv57) = 10"

definition TranslationAlgorithm_new :: "u64 \<Rightarrow> TranslationAlgorithm option" where
  "TranslationAlgorithm_new value =
     (let v = value AND 15 in
      if v = 0 then Some Bare
      else if v = 8 then Some (Sv Sv39)
      else if v = 9 then Some (Sv Sv48)
      else if v = 10 then Some (Sv Sv57)
      else None)"

fun TranslationAlgorithm_raw_bits :: "TranslationAlgorithm option \<Rightarrow> u64" where
  "TranslationAlgorithm_raw_bits None = 0"
| "TranslationAlgorithm_raw_bits (Some algorithm) = TranslationAlgorithm_enc algorithm"

text \<open>\<open>UnsignedValue\<close> wraps the bits; it is the \<open>u64\<close> itself here.\<close>

definition UnsignedValue_new :: "u64 \<Rightarrow> u64" where
  "UnsignedValue_new value = value"

definition UnsignedValue_raw_bits :: "u64 \<Rightarrow> u64" where
  "UnsignedValue_raw_bits bits = bits"

lemma mask_numerals: "mask 1 = (1::u64)" "mask 2 = (3::u64)" "mask 4 = (15::u64)"
  by (simp_all add: mask_eq_exp_minus_1)

lemma and_one_eq: "(x::u64) AND 1 = of_bool (bit x 0)"
  by (simp add: and_one_eq bit_0 mod_2_eq_odd)

interpretation bool_field: field_value bool_new bool_raw_bits 1 "\<lambda>_. True"
  by unfold_locales (auto simp: bool_new_def bool_raw_bits_def mask_numerals)

interpretation mpp_field: field_value MPPValue_new MPPValue_raw_bits 2 "\<lambda>_. True"
proof
  fix v :: MPPValue
  show "MPPValue_new (MPPValue_raw_bits v AND mask 2) = v"
    by (cases v) (simp_all add: MPPValue_new_def mask_numerals)
qed simp

interpretation spp_field: field_value SPPValue_new SPPValue_raw_bits 1 "\<lambda>_. True"
proof
  fix v :: SPPValue
  show "SPPValue_new (SPPValue_raw_bits v AND mask 1) = v"
    by (cases v) (simp_all add: SPPValue_new_def mask_numerals)
qed simp

interpretation xlen_field: field_value XLenValue_new XLenValue_raw_bits 2 "\<lambda>_. True"
proof
  fix v :: XLenValue
  show "XLenValue_new (XLenValue_raw_bits v AND mask 2) = v"
    by (cases v) (simp_all add: XLenValue_new_def mask_numerals)
qed simp

interpretation ext_field: field_value ExtensionValue_new ExtensionValue_raw_bits 2 "\<lambda>_. True"
proof
  fix v :: ExtensionValue
  show "ExtensionValue_new (ExtensionValue_raw_bits v AND mask 2) = v"
    by (cases v) (simp_all add: ExtensionValue_new_def mask_numerals)
qed simp

interpretation satp_mode_field: field_value TranslationAlgorithm_new
  TranslationAlgorithm_raw_bits 4 "\<lambda>v. v \<noteq> None"
proof
  fix v :: "TranslationAlgorithm option"
  assume "v \<noteq> None"
  then obtain a where "v = Some a" by auto
  then show "TranslationAlgorithm_new (TranslationAlgorithm_raw_bits v AND mask 4) = v"
    by (cases a rule: TranslationAlgorithm_enc.cases)
       (simp_all add: TranslationAlgorithm_new_def mask_numerals)
qed simp

interpretation asid_field: field_value UnsignedValue_new UnsignedValue_raw_bits 16
  "\<lambda>v. take_bit 16 v = v"
  by unfold_locales (simp_all add: UnsignedValue_new_def UnsignedValue_raw_bits_def take_bit_eq_mask)

interpretation ppn_field: field_value UnsignedValue_new UnsignedValue_raw_bits 44
  "\<lambda>v. take_bit 44 v = v"
  by unfold_locales (simp_all add: UnsignedValue_new_def UnsignedValue_raw_bits_def take_bit_eq_mask)

section \<open>The status registers\<close>

text \<open>
  The fields of \<open>mstatus\<close>, \<open>sstatus\<close> and \<open>mnstatus\<close>, named as in the source with a prefix \<open>F_\<close>,
  and the getters and setters that \<open>create_field!\<close> generates for them.
\<close>

abbreviation F_SD :: field where "F_SD \<equiv> (63, 1)"
abbreviation F_MBE :: field where "F_MBE \<equiv> (37, 1)"
abbreviation F_SBE :: field where "F_SBE \<equiv> (36, 1)"
abbreviation F_SXL :: field where "F_SXL \<equiv> (34, 2)"
abbreviation F_UXL :: field where "F_UXL \<equiv> (32, 2)"
abbreviation F_TSR :: field where "F_TSR \<equiv> (22, 1)"
abbreviation F_TW :: field where "F_TW \<equiv> (21, 1)"
abbreviation F_TVM :: field where "F_TVM \<equiv> (20, 1)"
abbreviation F_MXR :: field where "F_MXR \<equiv> (19, 1)"
abbreviation F_SUM :: field where "F_SUM \<equiv> (18, 1)"
abbreviation F_MPRV :: field where "F_MPRV \<equiv> (17, 1)"
abbreviation F_XS :: field where "F_XS \<equiv> (15, 2)"
abbreviation F_FS :: field where "F_FS \<equiv> (13, 2)"
abbreviation F_MPP :: field where "F_MPP \<equiv> (11, 2)"
abbreviation F_VS :: field where "F_VS \<equiv> (9, 2)"
abbreviation F_SPP :: field where "F_SPP \<equiv> (8, 1)"
abbreviation F_MPIE :: field where "F_MPIE \<equiv> (7, 1)"
abbreviation F_UBE :: field where "F_UBE \<equiv> (6, 1)"
abbreviation F_SPIE :: field where "F_SPIE \<equiv> (5, 1)"
abbreviation F_MIE :: field where "F_MIE \<equiv> (3, 1)"
abbreviation F_SIE :: field where "F_SIE \<equiv> (1, 1)"
abbreviation F_MNPP :: field where "F_MNPP \<equiv> (11, 2)"
abbreviation F_MNPV :: field where "F_MNPV \<equiv> (7, 1)"
abbreviation F_NMIE :: field where "F_NMIE \<equiv> (3, 1)"

abbreviation get_SD :: "CSRValue \<Rightarrow> bool" where "get_SD \<equiv> get_field bool_new F_SD"
abbreviation set_SD :: "CSRValue \<Rightarrow> bool \<Rightarrow> CSRValue" where "set_SD \<equiv> set_field bool_raw_bits F_SD"
abbreviation get_MBE :: "CSRValue \<Rightarrow> bool" where "get_MBE \<equiv> get_field bool_new F_MBE"
abbreviation set_MBE :: "CSRValue \<Rightarrow> bool \<Rightarrow> CSRValue" where "set_MBE \<equiv> set_field bool_raw_bits F_MBE"
abbreviation get_SBE :: "CSRValue \<Rightarrow> bool" where "get_SBE \<equiv> get_field bool_new F_SBE"
abbreviation set_SBE :: "CSRValue \<Rightarrow> bool \<Rightarrow> CSRValue" where "set_SBE \<equiv> set_field bool_raw_bits F_SBE"
abbreviation get_SXL :: "CSRValue \<Rightarrow> XLenValue" where "get_SXL \<equiv> get_field XLenValue_new F_SXL"
abbreviation set_SXL :: "CSRValue \<Rightarrow> XLenValue \<Rightarrow> CSRValue" where "set_SXL \<equiv> set_field XLenValue_raw_bits F_SXL"
abbreviation get_UXL :: "CSRValue \<Rightarrow> XLenValue" where "get_UXL \<equiv> get_field XLenValue_new F_UXL"
abbreviation set_UXL :: "CSRValue \<Rightarrow> XLenValue \<Rightarrow> CSRValue" where "set_UXL \<equiv> set_field XLenValue_raw_bits F_UXL"
abbreviation get_TSR :: "CSRValue \<Rightarrow> bool" where "get_TSR \<equiv> get_field bool_new F_TSR"
abbreviation set_TSR :: "CSRValue \<Rightarrow> bool \<Rightarrow> CSRValue" where "set_TSR \<equiv> set_field bool_raw_bits F_TSR"
abbreviation get_TW :: "CSRValue \<Rightarrow> bool" where "get_TW \<equiv> get_field bool_new F_TW"
abbreviation set_TW :: "CSRValue \<Rightarrow> bool \<Rightarrow> CSRValue" where "set_TW \<equiv> set_field bool_raw_bits F_TW"
abbreviation get_TVM :: "CSRValue \<Rightarrow> bool" where "get_TVM \<equiv> get_field bool_new F_TVM"
abbreviation set_TVM :: "CSRValue \<Rightarrow> bool \<Rightarrow> CSRValue" where "set_TVM \<equiv> set_field bool_raw_bits F_TVM"
abbreviation get_MXR :: "CSRValue \<Rightarrow> bool" where "get_MXR \<equiv> get_field bool_new F_MXR"
abbreviation set_MXR :: "CSRValue \<Rightarrow> bool \<Rightarrow> CSRValue" where "set_MXR \<equiv> set_field bool_raw_bits F_MXR"
abbreviation get_SUM :: "CSRValue \<Rightarrow> bool" where "get_SUM \<equiv> get_field bool_new F_SUM"
abbreviation set_SUM :: "CSRValue \<Rightarrow> bool \<Rightarrow> CSRValue" where "set_SUM \<equiv> set_field bool_raw_bits F_SUM"
abbreviation get_MPRV :: "CSRValue \<Rightarrow> bool" where "get_MPRV \<equiv> get_field bool_new F_MPRV"
abbreviation set_MPRV :: "CSRValue \<Rightarrow> bool \<Rightarrow> CSRValue" where "set_MPRV \<equiv> set_field bool_raw_bits F_MPRV"
abbreviation get_XS :: "CSRValue \<Rightarrow> ExtensionValue" where "get_XS \<equiv> get_field ExtensionValue_new F_XS"
abbreviation set_XS :: "CSRValue \<Rightarrow> ExtensionValue \<Rightarrow> CSRValue" where "set_XS \<equiv> set_field ExtensionValue_raw_bits F_XS"
abbreviation get_FS :: "CSRValue \<Rightarrow> ExtensionValue" where "get_FS \<equiv> get_field ExtensionValue_new F_FS"
abbreviation set_FS :: "CSRValue \<Rightarrow> ExtensionValue \<Rightarrow> CSRValue" where "set_FS \<equiv> set_field ExtensionValue_raw_bits F_FS"
abbreviation get_MPP :: "CSRValue \<Rightarrow> MPPValue" where "get_MPP \<equiv> get_field MPPValue_new F_MPP"
abbreviation set_MPP :: "CSRValue \<Rightarrow> MPPValue \<Rightarrow> CSRValue" where "set_MPP \<equiv> set_field MPPValue_raw_bits F_MPP"
abbreviation get_VS :: "CSRValue \<Rightarrow> ExtensionValue" where "get_VS \<equiv> get_field ExtensionValue_new F_VS"
abbreviation set_VS :: "CSRValue \<Rightarrow> ExtensionValue \<Rightarrow> CSRValue" where "set_VS \<equiv> set_field ExtensionValue_raw_bits F_VS"
abbreviation get_SPP :: "CSRValue \<Rightarrow> SPPValue" where "get_SPP \<equiv> get_field SPPValue_new F_SPP"
abbreviation set_SPP :: "CSRValue \<Rightarrow> SPPValue \<Rightarrow> CSRValue" where "set_SPP \<equiv> set_field SPPValue_raw_bits F_SPP"
abbreviation get_MPIE :: "CSRValue \<Rightarrow> bool" where "get_MPIE \<equiv> get_field bool_new F_MPIE"
abbreviation set_MPIE :: "CSRValue \<Rightarrow> bool \<Rightarrow> CSRValue" where "set_MPIE \<equiv> set_field bool_raw_bits F_MPIE"
abbreviation get_UBE :: "CSRValue \<Rightarrow> bool" where "get_UBE \<equiv> get_field bool_new F_UBE"
abbreviation set_UBE :: "CSRValue \<Rightarrow> bool \<Rightarrow> CSRValue" where "set_UBE \<equiv> set_field bool_raw_bits F_UBE"
abbreviation get_SPIE :: "CSRValue \<Rightarrow> bool" where "get_SPIE \<equiv> get_field bool_new F_SPIE"
abbreviation set_SPIE :: "CSRValue \<Rightarrow> bool \<Rightarrow> CSRValue" where "set_SPIE \<equiv> set_field bool_raw_bits F_SPIE"
abbreviation get_MIE :: "CSRValue \<Rightarrow> bool" where "get_MIE \<equiv> get_field bool_new F_MIE"
abbreviation set_MIE :: "CSRValue \<Rightarrow> bool \<Rightarrow> CSRValue" where "set_MIE \<equiv> set_field bool_raw_bits F_MIE"
abbreviation get_SIE :: "CSRValue \<Rightarrow> bool" where "get_SIE \<equiv> get_field bool_new F_SIE"
abbreviation set_SIE :: "CSRValue \<Rightarrow> bool \<Rightarrow> CSRValue" where "set_SIE \<equiv> set_field bool_raw_bits F_SIE"
abbreviation get_MNPP :: "CSRValue \<Rightarrow> MPPValue" where "get_MNPP \<equiv> get_field MPPValue_new F_MNPP"
abbreviation set_MNPP :: "CSRValue \<Rightarrow> MPPValue \<Rightarrow> CSRValue" where "set_MNPP \<equiv> set_field MPPValue_raw_bits F_MNPP"
abbreviation get_MNPV :: "CSRValue \<Rightarrow> bool" where "get_MNPV \<equiv> get_field bool_new F_MNPV"
abbreviation set_MNPV :: "CSRValue \<Rightarrow> bool \<Rightarrow> CSRValue" where "set_MNPV \<equiv> set_field bool_raw_bits F_MNPV"
abbreviation get_NMIE :: "CSRValue \<Rightarrow> bool" where "get_NMIE \<equiv> get_field bool_new F_NMIE"
abbreviation set_NMIE :: "CSRValue \<Rightarrow> bool \<Rightarrow> CSRValue" where "set_NMIE \<equiv> set_field bool_raw_bits F_NMIE"

definition SSTATUS_FIELDS_MASK :: CSRValue where
  "SSTATUS_FIELDS_MASK =
     field_mask F_SD OR field_mask F_UXL OR field_mask F_MXR OR field_mask F_SUM OR
     field_mask F_XS OR field_mask F_FS OR field_mask F_VS OR field_mask F_SPP OR
     field_mask F_UBE OR field_mask F_SPIE OR field_mask F_SIE"

definition MSTATUS_FIELDS_MASK :: CSRValue where
  "MSTATUS_FIELDS_MASK =
     SSTATUS_FIELDS_MASK OR field_mask F_MBE OR field_mask F_SBE OR field_mask F_SXL OR
     field_mask F_TSR OR field_mask F_TW OR field_mask F_TVM OR field_mask F_MPRV OR
     field_mask F_MPP OR field_mask F_MPIE OR field_mask F_MIE"

definition apply_warl_sstatus :: "CSRValue \<Rightarrow> CSRValue" where
  "apply_warl_sstatus mstatus =
     (let xs = get_XS mstatus;
          vs = get_VS mstatus;
          fs = get_FS mstatus;
          mstatus = set_SD mstatus (xs = ExtDirty \<or> fs = ExtDirty \<or> vs = ExtDirty)
      in set_UXL mstatus MXL64)"

definition apply_warl_mstatus :: "CSRValue \<Rightarrow> CSRValue" where
  "apply_warl_mstatus mstatus =
     (let mstatus = apply_warl_sstatus mstatus;
          mstatus = set_SXL mstatus MXL64;
          mpp = get_MPP mstatus
      in set_MPP mstatus mpp)"

definition apply_warl_mnstatus :: "CSRValue \<Rightarrow> CSRValue" where
  "apply_warl_mnstatus mnstatus =
     (let mnstatus = set_MNPV mnstatus False;
          mnstatus = set_NMIE mnstatus True;
          mnpp = get_MNPP mnstatus
      in set_MNPP mnstatus mnpp)"

definition sstatus_from_mstatus :: "u64 \<Rightarrow> u64" where
  "sstatus_from_mstatus mstatus = mstatus AND SSTATUS_FIELDS_MASK"

section \<open>The fields of satp\<close>

abbreviation SATP_MODE_OFFSET :: nat where "SATP_MODE_OFFSET \<equiv> 60"
abbreviation F_MODE :: field where "F_MODE \<equiv> (SATP_MODE_OFFSET, 4)"
abbreviation F_ASID :: field where "F_ASID \<equiv> (44, 16)"
abbreviation F_PPN :: field where "F_PPN \<equiv> (0, 44)"

definition satp_DEFAULT_VALUE :: CSRValue where
  "satp_DEFAULT_VALUE = shl (TranslationAlgorithm_enc Bare) SATP_MODE_OFFSET"

abbreviation get_MODE :: "CSRValue \<Rightarrow> TranslationAlgorithm option" where
  "get_MODE \<equiv> get_field TranslationAlgorithm_new F_MODE"
abbreviation set_MODE :: "CSRValue \<Rightarrow> TranslationAlgorithm option \<Rightarrow> CSRValue" where
  "set_MODE \<equiv> set_field TranslationAlgorithm_raw_bits F_MODE"
abbreviation get_ASID :: "CSRValue \<Rightarrow> u64" where "get_ASID \<equiv> get_field UnsignedValue_new F_ASID"
abbreviation set_ASID :: "CSRValue \<Rightarrow> u64 \<Rightarrow> CSRValue" where
  "set_ASID \<equiv> set_field UnsignedValue_raw_bits F_ASID"
abbreviation get_PPN :: "CSRValue \<Rightarrow> u64" where "get_PPN \<equiv> get_field UnsignedValue_new F_PPN"
abbreviation set_PPN :: "CSRValue \<Rightarrow> u64 \<Rightarrow> CSRValue" where
  "set_PPN \<equiv> set_field UnsignedValue_raw_bits F_PPN"

section \<open>Bitwise reading of the WARL rules\<close>

text \<open>The value read from a one-bit or two-bit field, by its bits.\<close>

lemma and_3_eq: "(x::u64) AND 3 = of_bool (bit x 0) + 2 * of_bool (bit x 1)"
proof -
  have "x AND 3 = of_bool (bit x 0) OR push_bit 1 (of_bool (bit x 1))"
    by (intro bit_word_eqI)
       (auto simp: bit_simps bit_0 less_Suc_eq numeral_eq_Suc bit_Suc elim!: less_SucE)
  also have "\<dots> = of_bool (bit x 0) + 2 * of_bool (bit x 1)"
    by (cases "bit x 0"; cases "bit x 1") (simp_all add: push_bit_eq_mult)
  finally show ?thesis .
qed

lemma get_bool_bit:
  assumes "off < 64"
  shows "get_field bool_new (off, Suc 0) m = bit m off"
  using assms bit_get_raw [of "(off, 1)" 0 m]
  by (simp add: get_field_def bool_new_def and_one_eq)

lemma get_ext_dirty:
  assumes "off + 2 \<le> 64"
  shows "get_field ExtensionValue_new (off, 2) m = ExtDirty \<longleftrightarrow> bit m off \<and> bit m (off + 1)"
  using assms bit_get_raw [of "(off, 2)" 0 m] bit_get_raw [of "(off, 2)" 1 m]
  by (simp add: get_field_def ExtensionValue_new_def and_3_eq Let_def)

lemma bit_mpp_raw_get:
  assumes "off + 2 \<le> 64"
  shows "bit (MPPValue_raw_bits (get_field MPPValue_new (off, 2) m)) n \<longleftrightarrow>
           (n = 0 \<and> bit m off) \<or> (n = 1 \<and> bit m off \<and> bit m (off + 1))"
  using assms bit_get_raw [of "(off, 2)" 0 m] bit_get_raw [of "(off, 2)" 1 m]
  by (cases "bit m off"; cases "bit m (off + 1)"; cases n; cases "n - 1")
     (simp_all add: get_field_def MPPValue_new_def and_3_eq Let_def bit_simps bit_0 bit_Suc)

definition status_dirty :: "CSRValue \<Rightarrow> bool" where
  "status_dirty m \<longleftrightarrow> (bit m 15 \<and> bit m 16) \<or> (bit m 13 \<and> bit m 14) \<or> (bit m 9 \<and> bit m 10)"

lemma bit_bool_raw [simp]: "bit (bool_raw_bits b) n \<longleftrightarrow> n = 0 \<and> b"
  by (auto simp: bool_raw_bits_def bit_simps)

lemma bit_MXL64 [simp]: "bit (XLenValue_raw_bits MXL64) n \<longleftrightarrow> n = 1"
proof -
  have "bit (2 ^ 1 :: u64) n \<longleftrightarrow> n = 1"
    unfolding bit_exp_iff by auto
  then show ?thesis by simp
qed

lemma bit_spp_raw [simp]: "bit (SPPValue_raw_bits v) n \<longleftrightarrow> n = 0 \<and> v = SPP_Supervisor"
  by (cases v) (auto simp: bit_simps)

lemma bit_apply_warl_sstatus:
  assumes "n < 64"
  shows "bit (apply_warl_sstatus m) n =
           (if n = 63 then status_dirty m
            else if n = 33 then True else if n = 32 then False else bit m n)"
  using assms
  by (auto simp: apply_warl_sstatus_def Let_def bit_set_field get_ext_dirty status_dirty_def)

lemma status_dirty_cong:
  "(\<And>n. n \<in> {9, 10, 13, 14, 15, 16} \<Longrightarrow> bit m n = bit m' n) \<Longrightarrow> status_dirty m = status_dirty m'"
  by (simp add: status_dirty_def)

lemma bit_apply_warl_mstatus:
  assumes "n < 64"
  shows "bit (apply_warl_mstatus m) n =
           (if n = 63 then status_dirty m
            else if n = 35 \<or> n = 33 then True else if n = 34 \<or> n = 32 then False
            else if n = 12 then bit m 12 \<and> bit m 11 else bit m n)"
proof -
  have "n = 34 \<or> n = 35 \<or> n = 11 \<or> n = 12 \<or> (n \<notin> {34, 35, 11, 12})" by auto
  then show ?thesis
    using assms
    by (elim disjE)
       (simp_all add: apply_warl_mstatus_def Let_def bit_set_field bit_mpp_raw_get
         bit_apply_warl_sstatus conj_commute)
qed

lemma bit_apply_warl_mnstatus:
  assumes "n < 64"
  shows "bit (apply_warl_mnstatus m) n =
           (if n = 7 then False else if n = 3 then True
            else if n = 12 then bit m 12 \<and> bit m 11 else bit m n)"
proof -
  have "n = 11 \<or> n = 12 \<or> (n \<notin> {11, 12})" by auto
  then show ?thesis
    using assms
    by (elim disjE)
       (simp_all add: apply_warl_mnstatus_def Let_def bit_set_field bit_mpp_raw_get conj_commute)
qed

lemma bit_SSTATUS_FIELDS_MASK:
  assumes "n < 64"
  shows "bit SSTATUS_FIELDS_MASK n \<longleftrightarrow>
           n \<in> {63, 33, 32, 19, 18, 16, 15, 14, 13, 10, 9, 8, 6, 5, 1}"
  using assms unfolding SSTATUS_FIELDS_MASK_def
  by (simp add: bit_or_iff bit_field_mask) arith

lemma bit_MSTATUS_FIELDS_MASK:
  assumes "n < 64"
  shows "bit MSTATUS_FIELDS_MASK n \<longleftrightarrow>
           n \<in> {63, 37, 36, 35, 34, 33, 32, 22, 21, 20, 19, 18, 17, 16, 15, 14, 13, 12, 11, 10, 9,
                8, 7, 6, 5, 3, 1}"
  using assms unfolding MSTATUS_FIELDS_MASK_def
  by (simp add: bit_or_iff bit_SSTATUS_FIELDS_MASK bit_field_mask) arith

lemma SSTATUS_fields_subset: "bit SSTATUS_FIELDS_MASK n \<Longrightarrow> bit MSTATUS_FIELDS_MASK n"
  by (simp add: MSTATUS_FIELDS_MASK_def bit_or_iff)

section \<open>Legal status values\<close>

text \<open>
  What the privileged specification asks of a stored \<open>mstatus\<close>: the reserved bits are clear,
  \<open>SD\<close> summarises the three extension fields, \<open>UXL\<close> and \<open>SXL\<close> read 64 bit, and \<open>MPP\<close> is
  not the reserved encoding \<open>10\<close>.
\<close>

definition mstatus_legal :: "CSRValue \<Rightarrow> bool" where
  "mstatus_legal m \<longleftrightarrow>
     m AND MSTATUS_FIELDS_MASK = m \<and> (bit m 63 \<longleftrightarrow> status_dirty m) \<and>
     bit m 33 \<and> \<not> bit m 32 \<and> bit m 35 \<and> \<not> bit m 34 \<and> (bit m 12 \<longrightarrow> bit m 11)"

lemma and_eq_self_iff:
  "(x::u64) AND y = x \<longleftrightarrow> (\<forall>n < 64. bit x n \<longrightarrow> bit y n)"
proof
  assume a: "x AND y = x"
  show "\<forall>n < 64. bit x n \<longrightarrow> bit y n"
    by (subst a [symmetric]) (simp add: bit_and_iff)
next
  assume "\<forall>n < 64. bit x n \<longrightarrow> bit y n"
  then show "x AND y = x"
    by (intro bit_word_eqI) (auto simp: bit_and_iff)
qed

lemma apply_warl_mstatus_legal: "mstatus_legal (apply_warl_mstatus (m AND MSTATUS_FIELDS_MASK))"
proof -
  let ?m = "m AND MSTATUS_FIELDS_MASK"
  have dirty: "status_dirty (apply_warl_mstatus ?m) = status_dirty ?m"
    by (rule status_dirty_cong) (auto simp: bit_apply_warl_mstatus)
  have "apply_warl_mstatus ?m AND MSTATUS_FIELDS_MASK = apply_warl_mstatus ?m"
    unfolding and_eq_self_iff
    by (simp add: bit_apply_warl_mstatus bit_and_iff bit_MSTATUS_FIELDS_MASK)
  with dirty show ?thesis
    by (simp add: mstatus_legal_def bit_apply_warl_mstatus)
qed

lemma apply_warl_mstatus_legal_id: "mstatus_legal m \<Longrightarrow> apply_warl_mstatus m = m"
  by (rule bit_word_eqI) (auto simp: bit_apply_warl_mstatus mstatus_legal_def)

text \<open>
  Writing the shadow register \<open>sstatus\<close>: the shadowed fields are taken from the value, the
  others from the stored \<open>mstatus\<close>.
\<close>

lemma shadow_write_legal:
  assumes "mstatus_legal m"
  shows "mstatus_legal ((apply_warl_sstatus v AND SSTATUS_FIELDS_MASK) OR
                        (m AND NOT SSTATUS_FIELDS_MASK))" (is "mstatus_legal ?r")
proof -
  have b: "bit ?r n = (if bit SSTATUS_FIELDS_MASK n then bit (apply_warl_sstatus v) n else bit m n)"
    if "n < 64" for n
    using that by (auto simp: bit_simps)
  have "status_dirty ?r = status_dirty v"
    by (rule status_dirty_cong)
       (auto simp: b bit_SSTATUS_FIELDS_MASK bit_apply_warl_sstatus)
  moreover have "?r AND MSTATUS_FIELDS_MASK = ?r"
    using assms SSTATUS_fields_subset unfolding mstatus_legal_def and_eq_self_iff
    by (metis b)
  ultimately show ?thesis
    using assms
    by (simp add: mstatus_legal_def b bit_SSTATUS_FIELDS_MASK bit_apply_warl_sstatus)
qed

end
