(* ===== verification/RV_Bus.thy ===== *)
theory RV_Bus
  imports RV_CSR_Fields
begin

text \<open>
  The bus (\<^verbatim>\<open>machine_state/bus.rs\<close>), the main memory (\<^verbatim>\<open>bus/main_memory.rs\<close>) and the devices
  (\<^verbatim>\<open>bus/devices.rs\<close>). An access of an element type of \<open>n\<close> bytes is polymorphic in the word
  type; \<open>None\<close> is the result \<open>Err(OutOfBounds)\<close>. The byte order of the memory is that of the
  host, which is little-endian here.
\<close>

unbundle bit_operations_syntax

section \<open>Dynamic regions\<close>

definition dyn_read :: "storage \<Rightarrow> nat \<Rightarrow> 'a::len word" where
  "dyn_read st address = from_le_bytes (read_bytes st address (elem_size TYPE('a word)))"

definition dyn_write :: "storage \<Rightarrow> nat \<Rightarrow> 'a::len word \<Rightarrow> storage" where
  "dyn_write st address value = write_bytes_at st address (to_le_bytes value)"

definition dyn_write_all :: "storage \<Rightarrow> nat \<Rightarrow> 'a::len word list \<Rightarrow> storage" where
  "dyn_write_all st address values = write_bytes_at st address (concat (map to_le_bytes values))"

text \<open>The assertion that opens each of the three operations.\<close>

definition dyn_assert :: "nat \<Rightarrow> nat \<Rightarrow> nat \<Rightarrow> bool" where
  "dyn_assert len address n \<longleftrightarrow> address + n \<le> len"

section \<open>Main memory\<close>

record main_memory =
  mem_BYTES :: nat
  mem_data :: storage

abbreviation size_of :: "'a::len word itself \<Rightarrow> u64" where
  "size_of t \<equiv> word_of_nat (elem_size t)"

definition mem_read :: "main_memory \<Rightarrow> Address \<Rightarrow> 'a::len word option" where
  "mem_read m addr =
     (if addr + size_of TYPE('a word) > word_of_nat (mem_BYTES m) then None
      else Some (dyn_read (mem_data m) (unat addr)))"

definition mem_write :: "main_memory \<Rightarrow> Address \<Rightarrow> 'a::len word \<Rightarrow> main_memory option" where
  "mem_write m addr value =
     (if addr + size_of TYPE('a word) > word_of_nat (mem_BYTES m) then None
      else Some (m\<lparr>mem_data := dyn_write (mem_data m) (unat addr) value\<rparr>))"

definition mem_write_all :: "main_memory \<Rightarrow> Address \<Rightarrow> 'a::len word list \<Rightarrow> main_memory option" where
  "mem_write_all m addr values =
     (if addr + word_of_nat (length values * elem_size TYPE('a word)) > word_of_nat (mem_BYTES m)
      then None
      else Some (m\<lparr>mem_data := dyn_write_all (mem_data m) (unat addr) values\<rparr>))"

definition mem_reset :: "main_memory \<Rightarrow> main_memory" where
  "mem_reset m =
     m\<lparr>mem_data := fold (\<lambda>i st. dyn_write st i (0 :: u8)) [0..<mem_BYTES m] (mem_data m)\<rparr>"

section \<open>Devices\<close>

type_synonym devices = "u8 region"

definition devices_reset :: "devices \<Rightarrow> devices" where
  "devices_reset d = region_write d 0 0"

definition devices_read :: "devices \<Rightarrow> Address \<Rightarrow> 'a::len word option" where
  "devices_read d addr = None"

definition devices_write :: "devices \<Rightarrow> Address \<Rightarrow> 'a::len word \<Rightarrow> devices option" where
  "devices_write d addr value = None"

definition devices_write_all :: "devices \<Rightarrow> Address \<Rightarrow> 'a::len word list \<Rightarrow> devices option" where
  "devices_write_all d addr values = None"

section \<open>The bus\<close>

definition DEVICES_ADDRESS_SPACE_LENGTH :: u64 where
  "DEVICES_ADDRESS_SPACE_LENGTH = 2 * 1024 * 1024 * 1024"

datatype AddressSpace = Devices | MainMemory | AddressOutOfBounds

record bus =
  bus_devices :: devices
  bus_memory :: main_memory

definition locate :: "nat \<Rightarrow> Address \<Rightarrow> AddressSpace \<times> Address" where
  "locate bytes addr =
     (if addr < DEVICES_ADDRESS_SPACE_LENGTH then (Devices, addr)
      else
        (let mem_addr = saturating_sub addr DEVICES_ADDRESS_SPACE_LENGTH;
             mem_size = word_of_nat bytes
         in if mem_addr < mem_size then (MainMemory, mem_addr)
            else (AddressOutOfBounds, saturating_sub mem_addr mem_size)))"

fun space_start :: "nat \<Rightarrow> AddressSpace \<Rightarrow> Address" where
  "space_start bytes Devices = 0"
| "space_start bytes MainMemory = DEVICES_ADDRESS_SPACE_LENGTH"
| "space_start bytes AddressOutOfBounds = DEVICES_ADDRESS_SPACE_LENGTH + word_of_nat bytes"

definition start_of_main_memory :: "nat \<Rightarrow> Address" where
  "start_of_main_memory bytes = space_start bytes MainMemory"

definition bus_read :: "bus \<Rightarrow> Address \<Rightarrow> 'a::len word option" where
  "bus_read b addr =
     (let (addr_space, local_address) = locate (mem_BYTES (bus_memory b)) addr
      in case addr_space of
           Devices \<Rightarrow> devices_read (bus_devices b) local_address
         | MainMemory \<Rightarrow> mem_read (bus_memory b) local_address
         | AddressOutOfBounds \<Rightarrow> None)"

definition bus_write :: "bus \<Rightarrow> Address \<Rightarrow> 'a::len word \<Rightarrow> bus option" where
  "bus_write b addr value =
     (let (addr_space, local_address) = locate (mem_BYTES (bus_memory b)) addr
      in case addr_space of
           Devices \<Rightarrow>
             map_option (\<lambda>d. b\<lparr>bus_devices := d\<rparr>) (devices_write (bus_devices b) local_address value)
         | MainMemory \<Rightarrow>
             map_option (\<lambda>m. b\<lparr>bus_memory := m\<rparr>) (mem_write (bus_memory b) local_address value)
         | AddressOutOfBounds \<Rightarrow> None)"

definition bus_write_all :: "bus \<Rightarrow> Address \<Rightarrow> 'a::len word list \<Rightarrow> bus option" where
  "bus_write_all b addr values =
     (let end_addr = addr + saturating_sub (word_of_nat (length values * elem_size TYPE('a word))) 1;
          (addr_space, local_addr) = locate (mem_BYTES (bus_memory b)) addr;
          (end_addr_space, _) = locate (mem_BYTES (bus_memory b)) end_addr
      in if addr_space \<noteq> end_addr_space then None
         else case addr_space of
           Devices \<Rightarrow>
             map_option (\<lambda>d. b\<lparr>bus_devices := d\<rparr>)
               (devices_write_all (bus_devices b) local_addr values)
         | MainMemory \<Rightarrow>
             map_option (\<lambda>m. b\<lparr>bus_memory := m\<rparr>) (mem_write_all (bus_memory b) local_addr values)
         | AddressOutOfBounds \<Rightarrow> None)"

definition bus_reset :: "bus \<Rightarrow> bus" where
  "bus_reset b =
     b\<lparr>bus_devices := devices_reset (bus_devices b), bus_memory := mem_reset (bus_memory b)\<rparr>"

section \<open>Address decoding\<close>

text \<open>
  The size of the memory is a constant of the layout; the layouts of the program are 1 KiB,
  1 GiB and 4 GiB. The laws below ask that it stay below half of the address space.
\<close>

definition bus_wf :: "bus \<Rightarrow> bool" where
  "bus_wf b \<longleftrightarrow> mem_BYTES (bus_memory b) \<le> 2 ^ 63"

text \<open>The byte range of an access lies in the memory.\<close>

definition in_memory :: "bus \<Rightarrow> Address \<Rightarrow> nat \<Rightarrow> bool" where
  "in_memory b addr n \<longleftrightarrow>
     2 ^ 31 \<le> unat addr \<and> unat addr + n \<le> 2 ^ 31 + mem_BYTES (bus_memory b) \<and>
     unat addr < 2 ^ 31 + mem_BYTES (bus_memory b)"

definition mem_offset :: "Address \<Rightarrow> nat" where
  "mem_offset addr = unat addr - 2 ^ 31"

lemma DEVICES_eq: "DEVICES_ADDRESS_SPACE_LENGTH = 0x80000000"
  by (simp add: DEVICES_ADDRESS_SPACE_LENGTH_def)

lemma unat_DEVICES [simp]: "unat DEVICES_ADDRESS_SPACE_LENGTH = 2 ^ 31"
  by (simp add: DEVICES_eq)

lemma locate_cases:
  assumes "bytes \<le> 2 ^ 63"
  shows "locate bytes addr =
     (if unat addr < 2 ^ 31 then (Devices, addr)
      else if unat addr < 2 ^ 31 + bytes then (MainMemory, addr - DEVICES_ADDRESS_SPACE_LENGTH)
      else (AddressOutOfBounds, addr - DEVICES_ADDRESS_SPACE_LENGTH - word_of_nat bytes))"
proof -
  let ?D = DEVICES_ADDRESS_SPACE_LENGTH
  have b: "unat (word_of_nat bytes :: u64) = bytes"
    using assms by (simp add: unat_word_of_nat)
  have d: "addr < ?D \<longleftrightarrow> unat addr < 2 ^ 31"
    by (simp add: word_less_nat_alt)
  show ?thesis
  proof (cases "unat addr < 2 ^ 31")
    case True
    with d show ?thesis by (simp add: locate_def)
  next
    case False
    then have s: "saturating_sub addr ?D = addr - ?D"
      by (simp add: saturating_sub_def word_less_nat_alt)
    have u: "unat (addr - ?D) = unat addr - 2 ^ 31"
      using unat_saturating_sub [of addr ?D] s by simp
    then have "addr - ?D < word_of_nat bytes \<longleftrightarrow> unat addr < 2 ^ 31 + bytes"
      using False b by (simp add: word_less_nat_alt) arith
    with False d s show ?thesis
      by (simp add: locate_def Let_def saturating_sub_def)
  qed
qed

lemma unat_local_address:
  assumes "2 ^ 31 \<le> unat addr"
  shows "unat (addr - DEVICES_ADDRESS_SPACE_LENGTH) = mem_offset addr"
  using assms unat_saturating_sub [of addr DEVICES_ADDRESS_SPACE_LENGTH]
  by (simp add: mem_offset_def saturating_sub_def word_less_nat_alt split: if_splits)

text \<open>The bound check of the memory, below the range where the addition would wrap.\<close>

lemma mem_guard:
  assumes "bytes \<le> 2 ^ 63" "unat a < bytes" "n \<le> 2 ^ 62"
  shows "(a :: u64) + word_of_nat n > word_of_nat bytes \<longleftrightarrow> bytes < unat a + n"
proof -
  have "unat (a + word_of_nat n) = unat a + n"
    using assms by (simp add: unat_plus_if' unat_word_of_nat)
  then show ?thesis
    using assms by (simp add: word_less_nat_alt unat_word_of_nat)
qed

lemma bus_read_eq:
  assumes "bus_wf b" "LENGTH('a) \<le> 64"
  shows "(bus_read b addr :: 'a::len word option) =
     (if in_memory b addr (elem_size TYPE('a word))
      then Some (dyn_read (mem_data (bus_memory b)) (mem_offset addr)) else None)"
proof -
  have s: "elem_size TYPE('a word) \<le> 2 ^ 62"
    using assms(2) by (simp add: elem_size_def)
  show ?thesis
  proof (cases "2 ^ 31 \<le> unat addr \<and> unat addr < 2 ^ 31 + mem_BYTES (bus_memory b)")
    case True
    then have u: "unat (addr - DEVICES_ADDRESS_SPACE_LENGTH) = mem_offset addr"
      by (simp add: unat_local_address)
    have g: "addr - DEVICES_ADDRESS_SPACE_LENGTH + size_of TYPE('a word) >
               word_of_nat (mem_BYTES (bus_memory b)) \<longleftrightarrow>
             mem_BYTES (bus_memory b) < mem_offset addr + elem_size TYPE('a word)"
      using True assms(1) s u by (subst mem_guard) (auto simp: bus_wf_def mem_offset_def)
    show ?thesis
      using True assms(1) g u
      by (auto simp: bus_read_def locate_cases bus_wf_def in_memory_def mem_read_def mem_offset_def)
  next
    case False
    with assms(1) show ?thesis
      by (auto simp: bus_read_def locate_cases bus_wf_def in_memory_def devices_read_def)
  qed
qed

lemma bus_write_eq:
  assumes "bus_wf b" "LENGTH('a) \<le> 64"
  shows "bus_write b addr (v :: 'a::len word) =
     (if in_memory b addr (elem_size TYPE('a word))
      then Some (b\<lparr>bus_memory := (bus_memory b)\<lparr>mem_data :=
             dyn_write (mem_data (bus_memory b)) (mem_offset addr) v\<rparr>\<rparr>)
      else None)"
proof -
  have s: "elem_size TYPE('a word) \<le> 2 ^ 62"
    using assms(2) by (simp add: elem_size_def)
  show ?thesis
  proof (cases "2 ^ 31 \<le> unat addr \<and> unat addr < 2 ^ 31 + mem_BYTES (bus_memory b)")
    case True
    then have u: "unat (addr - DEVICES_ADDRESS_SPACE_LENGTH) = mem_offset addr"
      by (simp add: unat_local_address)
    have g: "addr - DEVICES_ADDRESS_SPACE_LENGTH + size_of TYPE('a word) >
               word_of_nat (mem_BYTES (bus_memory b)) \<longleftrightarrow>
             mem_BYTES (bus_memory b) < mem_offset addr + elem_size TYPE('a word)"
      using True assms(1) s u by (subst mem_guard) (auto simp: bus_wf_def mem_offset_def)
    show ?thesis
      using True assms(1) g u
      by (auto simp: bus_write_def locate_cases bus_wf_def in_memory_def mem_write_def
          mem_offset_def)
  next
    case False
    with assms(1) show ?thesis
      by (auto simp: bus_write_def locate_cases bus_wf_def in_memory_def devices_write_def)
  qed
qed

lemma bus_write_all_u8:
  assumes "bus_wf b" "length bs \<le> 2 ^ 62"
  shows "bus_write_all b addr (bs :: u8 list) =
     (if in_memory b addr (length bs)
      then Some (b\<lparr>bus_memory := (bus_memory b)\<lparr>mem_data :=
             write_bytes_at (mem_data (bus_memory b)) (mem_offset addr) bs\<rparr>\<rparr>)
      else None)"
proof (cases "2 ^ 31 \<le> unat addr \<and> unat addr < 2 ^ 31 + mem_BYTES (bus_memory b)")
  case True
  let ?B = "mem_BYTES (bus_memory b)"
  have bytes: "concat (map to_le_bytes bs) = bs"
    by (induction bs) (simp_all add: to_le_bytes_def)
  have u: "unat (addr - DEVICES_ADDRESS_SPACE_LENGTH) = mem_offset addr"
    using True by (simp add: unat_local_address)
  have n: "unat (saturating_sub (word_of_nat (length bs)) 1 :: u64) = length bs - 1"
    using assms(2) by (simp add: unat_saturating_sub unat_word_of_nat)
  then have e: "unat (addr + saturating_sub (word_of_nat (length bs)) 1) =
                unat addr + (length bs - 1)"
    using True assms by (subst unat_plus_if') (auto simp: bus_wf_def)
  have g: "addr - DEVICES_ADDRESS_SPACE_LENGTH + word_of_nat (length bs) > word_of_nat ?B \<longleftrightarrow>
           ?B < mem_offset addr + length bs"
    using True assms u by (subst mem_guard) (auto simp: bus_wf_def mem_offset_def)
  have i: "in_memory b addr (length bs) \<longleftrightarrow>
           unat addr + (length bs - 1) < 2 ^ 31 + ?B \<and> \<not> ?B < mem_offset addr + length bs"
    using True by (auto simp: in_memory_def mem_offset_def)
  show ?thesis
    using True assms(1) g u e i
    by (auto simp: bus_write_all_def locate_cases bus_wf_def mem_write_all_def elem_size_def
        dyn_write_all_def bytes Let_def)
next
  case False
  with assms(1) show ?thesis
    by (auto simp: bus_write_all_def locate_cases bus_wf_def in_memory_def devices_write_all_def
        Let_def split: prod.split)
qed

section \<open>Memory contents\<close>

lemma dyn_read_write_same:
  "8 dvd LENGTH('a) \<Longrightarrow> dyn_read (dyn_write st a (v :: 'a::len word)) a = v"
  using read_write_bytes_same [of st a "to_le_bytes v"]
  by (simp add: dyn_read_def dyn_write_def elem_size_def)

lemma dyn_read_write_apart:
  fixes v :: "'a::len word"
  assumes "a' + elem_size TYPE('b word) \<le> a \<or> a + elem_size TYPE('a word) \<le> a'"
  shows "(dyn_read (dyn_write st a v) a' :: 'b::len word) = dyn_read st a'"
  using assms by (simp add: dyn_read_def dyn_write_def read_write_bytes_disjoint elem_size_def)

lemma dyn_read_byte:
  "(dyn_read st a :: u8) = st a"
  by (rule bit_word_eqI) (auto simp: dyn_read_def elem_size_def read_bytes_def bit_simps)

lemma dyn_write_byte:
  fixes v :: "'a::len word"
  shows "dyn_write st a v j =
     (if a \<le> j \<and> j < a + elem_size TYPE('a word)
      then ucast (drop_bit (8 * (j - a)) v) else st j)"
  by (auto simp: dyn_write_def write_bytes_at_apply elem_size_def to_le_bytes_nth)

text \<open>Two accesses, of \<open>m\<close> and \<open>n\<close> bytes, that share no byte.\<close>

definition apart :: "Address \<Rightarrow> nat \<Rightarrow> Address \<Rightarrow> nat \<Rightarrow> bool" where
  "apart a m a' n \<longleftrightarrow> unat a + m \<le> unat a' \<or> unat a' + n \<le> unat a"

lemma bus_wf_write:
  "bus_wf b \<Longrightarrow> bus_write b a v = Some b' \<Longrightarrow> bus_wf b'"
  by (auto simp: bus_write_def bus_wf_def mem_write_def devices_write_def
      split: prod.splits AddressSpace.splits if_splits)

lemma mem_BYTES_write:
  "bus_write b a v = Some b' \<Longrightarrow> mem_BYTES (bus_memory b') = mem_BYTES (bus_memory b)"
  by (auto simp: bus_write_def mem_write_def devices_write_def
      split: prod.splits AddressSpace.splits if_splits)

lemma in_memory_write [simp]:
  "in_memory (b\<lparr>bus_memory := (bus_memory b)\<lparr>mem_data := d\<rparr>\<rparr>) a n = in_memory b a n"
  by (simp add: in_memory_def)

lemma bus_wf_data [simp]: "bus_wf (b\<lparr>bus_memory := (bus_memory b)\<lparr>mem_data := d\<rparr>\<rparr>) = bus_wf b"
  by (simp add: bus_wf_def)

lemma bus_read_write_same:
  fixes v :: "'a::len word"
  assumes "bus_wf b" "LENGTH('a) \<le> 64" "8 dvd LENGTH('a)" "bus_write b a v = Some b'"
  shows "bus_read b' a = Some v"
  using assms
  by (auto simp: bus_write_eq bus_read_eq dyn_read_write_same split: if_splits)

lemma bus_read_write_apart:
  fixes v :: "'a::len word"
  assumes "bus_wf b" "LENGTH('a) \<le> 64" "LENGTH('b) \<le> 64" "bus_write b a v = Some b'"
    and "apart a (elem_size TYPE('a word)) a' (elem_size TYPE('b word))"
  shows "(bus_read b' a' :: 'b::len word option) = bus_read b a'"
proof -
  have in_a: "in_memory b a (elem_size TYPE('a word))"
    and b': "b' = b\<lparr>bus_memory := (bus_memory b)\<lparr>mem_data :=
               dyn_write (mem_data (bus_memory b)) (mem_offset a) v\<rparr>\<rparr>"
    using assms by (auto simp: bus_write_eq split: if_splits)
  show ?thesis
  proof (cases "in_memory b a' (elem_size TYPE('b word))")
    case True
    then have "mem_offset a' + elem_size TYPE('b word) \<le> mem_offset a \<or>
               mem_offset a + elem_size TYPE('a word) \<le> mem_offset a'"
      using assms(5) in_a by (auto simp: apart_def in_memory_def mem_offset_def)
    with True assms show ?thesis
      by (simp add: b' bus_read_eq dyn_read_write_apart)
  next
    case False
    with assms show ?thesis by (simp add: b' bus_read_eq)
  qed
qed

section \<open>The memory interface\<close>

text \<open>
  What the load and store instructions of one width rely on: a write succeeds exactly where
  a read does, keeps the invariant, is read back, and is invisible at addresses apart.
\<close>

locale addressable =
  fixes rd :: "'s \<Rightarrow> Address \<Rightarrow> 'v option"
    and wr :: "'s \<Rightarrow> Address \<Rightarrow> 'v \<Rightarrow> 's option"
    and sz :: nat
    and inv :: "'s \<Rightarrow> bool"
  assumes inv_wr: "inv s \<Longrightarrow> wr s a v = Some s' \<Longrightarrow> inv s'"
    and wr_defined: "inv s \<Longrightarrow> (\<exists>s'. wr s a v = Some s') \<longleftrightarrow> (\<exists>w. rd s a = Some w)"
    and rd_wr: "inv s \<Longrightarrow> wr s a v = Some s' \<Longrightarrow> rd s' a = Some v"
    and rd_wr_apart: "inv s \<Longrightarrow> wr s a v = Some s' \<Longrightarrow> apart a sz a' sz \<Longrightarrow> rd s' a' = rd s a'"
begin

lemma wr_fails: "inv s \<Longrightarrow> wr s a v = None \<longleftrightarrow> rd s a = None"
  using wr_defined [of s a v] by (metis not_None_eq)

text \<open>The domain of the memory does not depend on what is stored.\<close>

lemma wr_again:
  assumes "inv s" "wr s a v = Some s'"
  shows "\<exists>s''. wr s' a w = Some s''"
  using assms inv_wr rd_wr wr_defined by blast

lemma rd_wr_wr:
  assumes "inv s" "wr s a v = Some s'" "wr s' a' w = Some s''" "apart a' sz a sz"
  shows "rd s'' a = Some v"
  using assms inv_wr rd_wr rd_wr_apart by metis

end

lemma addressable_bus:
  assumes "LENGTH('a) \<le> 64" "8 dvd LENGTH('a)"
  shows "addressable (bus_read :: bus \<Rightarrow> Address \<Rightarrow> 'a::len word option) bus_write
           (elem_size TYPE('a word)) bus_wf"
proof
  fix s s' :: bus and a a' :: Address and v :: "'a word"
  assume inv: "bus_wf s"
  show "(\<exists>s'. bus_write s a v = Some s') \<longleftrightarrow> (\<exists>w. (bus_read s a :: 'a word option) = Some w)"
    using inv assms by (simp add: bus_write_eq bus_read_eq)
  assume wr: "bus_write s a v = Some s'"
  show "bus_wf s'" using inv wr by (rule bus_wf_write)
  show "bus_read s' a = Some v" using inv assms wr by (rule bus_read_write_same)
  assume "apart a (elem_size TYPE('a word)) a' (elem_size TYPE('a word))"
  then show "(bus_read s' a' :: 'a word option) = bus_read s a'"
    using inv assms(1) wr by (intro bus_read_write_apart) auto
qed

interpretation bus8: addressable
  "bus_read :: bus \<Rightarrow> Address \<Rightarrow> u8 option" bus_write "elem_size TYPE(u8)" bus_wf
  by (rule addressable_bus) simp_all

interpretation bus16: addressable
  "bus_read :: bus \<Rightarrow> Address \<Rightarrow> u16 option" bus_write "elem_size TYPE(u16)" bus_wf
  by (rule addressable_bus) simp_all

interpretation bus32: addressable
  "bus_read :: bus \<Rightarrow> Address \<Rightarrow> u32 option" bus_write "elem_size TYPE(u32)" bus_wf
  by (rule addressable_bus) simp_all

interpretation bus64: addressable
  "bus_read :: bus \<Rightarrow> Address \<Rightarrow> u64 option" bus_write "elem_size TYPE(u64)" bus_wf
  by (rule addressable_bus) simp_all

section \<open>Reset\<close>

lemma mem_reset_data:
  "mem_data (mem_reset m) a = (if a < mem_BYTES m then 0 else mem_data m a)"
proof -
  have "fold (\<lambda>i st. dyn_write st i (0 :: u8)) [0..<n] st a = (if a < n then 0 else st a)" for n st
    by (induction n) (auto simp: dyn_write_byte elem_size_def)
  then show ?thesis by (simp add: mem_reset_def)
qed

section \<open>Properties\<close>

definition example_bus :: bus where
  "example_bus = \<lparr>bus_devices = \<lambda>_. 0, bus_memory = \<lparr>mem_BYTES = 64, mem_data = \<lambda>_. 0\<rparr>\<rparr>"

lemma example_bus_wf: "bus_wf example_bus"
  by (simp add: example_bus_def bus_wf_def)

lemma example_bus_data: "mem_data (bus_memory example_bus) = (\<lambda>_. 0)"
  by (simp add: example_bus_def)

lemma example_bus_in_memory:
  "in_memory example_bus a n \<longleftrightarrow> 0x80000000 \<le> unat a \<and> unat a + n \<le> 0x80000040 \<and> unat a < 0x80000040"
  by (simp add: in_memory_def example_bus_def)

text \<open>
  C24: an access of up to eight bytes succeeds exactly if it lies in the main memory, all of its
  bytes included; the addition in the guard does not wrap into an access that is accepted. An
  accepted read returns the little-endian bytes at the offset into the memory, an accepted write
  replaces those bytes.
\<close>

theorem bus_access:
  assumes "bus_wf b" "LENGTH('a) \<le> 64"
  shows "(bus_read b a :: 'a::len word option) =
      (if in_memory b a (elem_size TYPE('a word))
       then Some (from_le_bytes (read_bytes (mem_data (bus_memory b)) (mem_offset a) (elem_size TYPE('a word))))
       else None) \<and>
    bus_write b a (v :: 'a word) =
      (if in_memory b a (elem_size TYPE('a word))
       then Some (b\<lparr>bus_memory := (bus_memory b)\<lparr>mem_data :=
              write_bytes_at (mem_data (bus_memory b)) (mem_offset a) (to_le_bytes v)\<rparr>\<rparr>)
       else None)"
  using bus_read_eq [OF assms] bus_write_eq [OF assms] by (simp add: dyn_read_def dyn_write_def)

theorem bus_access_witness:
  "(bus_read example_bus 0x8000003C :: u32 option) \<noteq> None \<and>
   (bus_read example_bus 0x8000003D :: u32 option) = None \<and>
   bus_write example_bus 0xFFFFFFFFFFFFFFFC (0 :: u64) = None"
  using bus_access [OF example_bus_wf, where 'a = 32, of "0x8000003C" 0]
    bus_access [OF example_bus_wf, where 'a = 32, of "0x8000003D" 0]
    bus_access [OF example_bus_wf, where 'a = 64, of "0xFFFFFFFFFFFFFFFC" 0]
  by (simp add: example_bus_in_memory elem_size_def)

text \<open>
  C25: a value of any width that is written can be read back, and an access to other addresses,
  of any width, is not affected by the write: it gives the same value or the same failure.
\<close>

theorem bus_read_over_write:
  fixes v :: "'a::len word"
  assumes "bus_wf b" "LENGTH('a) \<le> 64" "8 dvd LENGTH('a)" "LENGTH('b) \<le> 64"
    and "bus_write b a v = Some b'"
  shows "bus_read b' a = Some v \<and>
    (apart a (elem_size TYPE('a word)) a' (elem_size TYPE('b word)) \<longrightarrow>
       (bus_read b' a' :: 'b::len word option) = bus_read b a')"
  using bus_read_write_same [OF assms(1-3,5)] bus_read_write_apart [OF assms(1,2,4,5)] by blast

theorem bus_read_over_write_witness:
  "\<exists>b'. bus_write example_bus 0x80000000 (0xDEADBEEF :: u32) = Some b' \<and>
     bus_read b' 0x80000000 = Some (0xDEADBEEF :: u32) \<and>
     (bus_read b' 0x80000004 :: u16 option) = bus_read example_bus 0x80000004"
proof -
  have "in_memory example_bus 0x80000000 (elem_size TYPE(32 word))"
    by (simp add: example_bus_in_memory elem_size_def)
  then obtain b' where b': "bus_write example_bus 0x80000000 (0xDEADBEEF :: u32) = Some b'"
    by (simp add: bus_write_eq [OF example_bus_wf])
  then show ?thesis
    using bus_read_over_write [OF example_bus_wf _ _ _ b', where 'b = 16, of "0x80000004"]
    by (simp add: apart_def elem_size_def)
qed

fun write_each :: "bus \<Rightarrow> Address \<Rightarrow> u8 list \<Rightarrow> bus option" where
  "write_each b a [] = Some b"
| "write_each b a (x # bs) = Option.bind (bus_write b a x) (\<lambda>b'. write_each b' (a + 1) bs)"

lemma write_each_eq:
  assumes "bus_wf b" "in_memory b a (length bs)"
  shows "write_each b a bs = Some (b\<lparr>bus_memory := (bus_memory b)\<lparr>mem_data :=
           write_bytes_at (mem_data (bus_memory b)) (mem_offset a) bs\<rparr>\<rparr>)"
  using assms
proof (induction bs arbitrary: b a)
  case (Cons x bs)
  have a: "2 ^ 31 \<le> unat a" "unat a + length bs < 2 ^ 31 + mem_BYTES (bus_memory b)"
      "mem_BYTES (bus_memory b) \<le> 2 ^ 63"
    using Cons.prems by (auto simp: in_memory_def bus_wf_def)
  have wr: "bus_write b a x = Some (b\<lparr>bus_memory := (bus_memory b)\<lparr>mem_data :=
      (mem_data (bus_memory b))(mem_offset a := x)\<rparr>\<rparr>)"
    using a Cons.prems(1)
    by (simp add: bus_write_eq in_memory_def dyn_write_def to_le_bytes_def elem_size_def)
  show ?case
  proof (cases bs)
    case Nil
    with wr show ?thesis by (simp add: fun_upd_def)
  next
    case (Cons y ys)
    with a have "unat a + 1 < 2 ^ 64" by simp
    then have u: "unat (a + 1) = Suc (unat a)" by (simp add: unat_word_ariths)
    have o: "mem_offset (a + 1) = Suc (mem_offset a)" using a(1) by (simp add: mem_offset_def u)
    have "in_memory b (a + 1) (length bs)" using a Cons by (simp add: in_memory_def u)
    with Cons.IH Cons.prems(1) wr o show ?thesis by (simp add: fun_upd_def)
  qed
qed simp

text \<open>
  C26: writing a list of bytes at once is writing them one by one at consecutive addresses, when
  they all lie in memory, and fails without a partial write otherwise.
\<close>

theorem bus_write_all_bytewise:
  assumes "bus_wf b" "length bs \<le> 2 ^ 62"
  shows "bus_write_all b a bs = (if in_memory b a (length bs) then write_each b a bs else None)"
  using assms by (simp add: bus_write_all_u8 write_each_eq)

theorem bus_write_all_bytewise_witness:
  "bus_write_all example_bus 0x8000003E [1, 2 :: u8] = write_each example_bus 0x8000003E [1, 2] \<and>
   bus_write_all example_bus 0x8000003E [1, 2, 3 :: u8] = None"
  using bus_write_all_bytewise [OF example_bus_wf, of "[1, 2]" "0x8000003E"]
    bus_write_all_bytewise [OF example_bus_wf, of "[1, 2, 3]" "0x8000003E"]
  by (simp add: example_bus_in_memory)

end
