(* ===== verification/RV_Program.thy ===== *)
theory RV_Program
  imports RV_Bus
begin

text \<open>
  The segments of a program (\<^verbatim>\<open>interpreter/src/program.rs\<close>), a \<open>BTreeMap\<close> from addresses to
  byte arrays, as an association list in increasing order of the addresses. The theory shows
  that writing bytes keeps the segments sorted and disjoint, that the written bytes are in the
  resulting image, and which of the bytes written before are kept.
\<close>

section \<open>Results\<close>

text \<open>A call that may panic or return an error.\<close>

datatype ('e, 'a) rust = Panic | Err 'e | Ok 'a

fun rbind :: "('e, 'a) rust \<Rightarrow> ('a \<Rightarrow> ('e, 'b) rust) \<Rightarrow> ('e, 'b) rust" where
  "rbind Panic f = Panic"
| "rbind (Err e) f = Err e"
| "rbind (Ok a) f = f a"

lemma rbind_Ok_iff [simp]: "rbind r f = Ok b \<longleftrightarrow> (\<exists>a. r = Ok a \<and> f a = Ok b)"
  by (cases r) simp_all

section \<open>Segments\<close>

type_synonym segments = "(Address \<times> u8 list) list"

text \<open>\<open>BTreeMap::insert\<close>, \<open>get\<close>, \<open>append\<close> and the last entry of \<open>range(..paddr)\<close>.\<close>

fun seg_insert :: "Address \<Rightarrow> u8 list \<Rightarrow> segments \<Rightarrow> segments" where
  "seg_insert a v [] = [(a, v)]"
| "seg_insert a v ((b, w) # segs) =
     (if a < b then (a, v) # (b, w) # segs
      else if a = b then (a, v) # segs
      else (b, w) # seg_insert a v segs)"

definition seg_get :: "segments \<Rightarrow> Address \<Rightarrow> u8 list option" where
  "seg_get segs a = map_of segs a"

definition seg_append :: "segments \<Rightarrow> segments \<Rightarrow> segments" where
  "seg_append segs new_segments = fold (\<lambda>(a, v). seg_insert a v) new_segments segs"

definition seg_before :: "segments \<Rightarrow> Address \<Rightarrow> (Address \<times> u8 list) option" where
  "seg_before segs paddr =
     (let before = filter (\<lambda>(a, _). a < paddr) segs
      in if before = [] then None else Some (last before))"

definition seg_range :: "segments \<Rightarrow> Address \<Rightarrow> Address \<Rightarrow> Address list" where
  "seg_range segs a b = map fst (filter (\<lambda>(c, _). a \<le> c \<and> c < b) segs)"

text \<open>\<open>Vec::resize\<close> with zeroes.\<close>

definition resize :: "u8 list \<Rightarrow> nat \<Rightarrow> u8 list" where
  "resize bs n = take n bs @ replicate (n - length bs) 0"

section \<open>Writing bytes\<close>

definition shrink_before :: "segments \<Rightarrow> Address \<Rightarrow> segments" where
  "shrink_before segs paddr =
     (case seg_before segs paddr of
        None \<Rightarrow> segs
      | Some (prev_paddr, prev_bytes) \<Rightarrow>
          if paddr < prev_paddr + word_of_nat (length prev_bytes)
          then seg_insert prev_paddr (resize prev_bytes (unat (paddr - prev_paddr))) segs
          else segs)"

text \<open>
  The loop over the chunks that start inside the write: the new segments, and the address and
  the bytes that remain. \<open>split_at\<close> is always called inside \<open>bytes\<close>.
\<close>

fun split_chunks :: "Address \<Rightarrow> u8 list \<Rightarrow> Address list \<Rightarrow> segments \<times> Address \<times> u8 list" where
  "split_chunks paddr bytes [] = ([], paddr, bytes)"
| "split_chunks paddr bytes (next_paddr # nexts) =
     (let nonoverlapping_len = unat (next_paddr - paddr);
          nonoverlapping = take nonoverlapping_len bytes;
          overlapping = drop nonoverlapping_len bytes;
          (new_segments, rest) = split_chunks next_paddr overlapping nexts
      in (if nonoverlapping = [] then new_segments else (paddr, nonoverlapping) # new_segments, rest))"

text \<open>\<open>Panic\<close> is the panic of \<open>range\<close> when the end of the write wraps around.\<close>

definition write_bytes :: "segments \<Rightarrow> Address \<Rightarrow> u8 list \<Rightarrow> ('e, segments) rust" where
  "write_bytes segs paddr bytes =
     (if bytes = [] then Ok segs
      else
        (let segs = shrink_before segs paddr;
             paddr_after = paddr + word_of_nat (length bytes)
         in if paddr_after < paddr then Panic
            else
              (let (new_segments, paddr, bytes) =
                     split_chunks paddr bytes (seg_range segs paddr paddr_after);
                   segs = seg_append segs new_segments
               in if bytes = [] then Ok segs
                  else case seg_get segs paddr of
                         Some chunk \<Rightarrow>
                           if length chunk \<ge> length bytes
                           then Ok (seg_insert paddr (bytes @ drop (length bytes) chunk) segs)
                           else Ok (seg_insert paddr bytes segs)
                       | None \<Rightarrow> Ok (seg_insert paddr bytes segs))))"

section \<open>The invariant of the segments\<close>

lemma unat_add_nat:
  assumes "unat a + n < 2 ^ 64"
  shows "unat ((a :: u64) + word_of_nat n) = unat a + n"
proof -
  have "unat (word_of_nat n :: u64) = n" using assms by (simp add: unat_word_of_nat)
  with assms show ?thesis by (simp add: unat_plus_if')
qed

text \<open>Increasing addresses, disjoint byte ranges, no wrap-around of the address space.\<close>

definition segs_wf :: "segments \<Rightarrow> bool" where
  "segs_wf segs \<longleftrightarrow>
     sorted_wrt (\<lambda>(a, v) (b, w). a < b \<and> unat a + length v \<le> unat b) segs \<and>
     (\<forall>(a, v) \<in> set segs. unat a + length v < 2 ^ 64)"

text \<open>The byte that the segments put at an address.\<close>

definition covers :: "nat \<Rightarrow> Address \<times> u8 list \<Rightarrow> bool" where
  "covers x s \<longleftrightarrow> (case s of (a, v) \<Rightarrow> unat a \<le> x \<and> x < unat a + length v)"

definition image_at :: "segments \<Rightarrow> nat \<Rightarrow> u8 option" where
  "image_at segs x = map_option (\<lambda>(a, v). v ! (x - unat a)) (find (covers x) segs)"

text \<open>The same on maps, which the operations update.\<close>

definition map_wf :: "(Address \<rightharpoonup> u8 list) \<Rightarrow> bool" where
  "map_wf m \<longleftrightarrow>
     (\<forall>a v. m a = Some v \<longrightarrow> unat a + length v < 2 ^ 64 \<and>
        (\<forall>b w. m b = Some w \<longrightarrow> a < b \<longrightarrow> unat a + length v \<le> unat b))"

abbreviation keys_sorted :: "segments \<Rightarrow> bool" where
  "keys_sorted segs \<equiv> sorted_wrt (<) (map fst segs)"

lemma keys_distinct: "keys_sorted segs \<Longrightarrow> distinct (map fst segs)"
  by (simp add: strict_sorted_iff)

lemma segs_wf_map: "segs_wf segs \<longleftrightarrow> keys_sorted segs \<and> map_wf (map_of segs)"
proof (cases "keys_sorted segs")
  case True
  have m: "map_of segs a = Some v \<longleftrightarrow> (a, v) \<in> set segs" for a v
    using keys_distinct [OF True] by simp
  have "sorted_wrt (\<lambda>s t. fst s < fst t \<and> unat (fst s) + length (snd s) \<le> unat (fst t)) segs \<longleftrightarrow>
        (\<forall>s \<in> set segs. \<forall>t \<in> set segs. fst s < fst t \<longrightarrow>
           unat (fst s) + length (snd s) \<le> unat (fst t))"
    using True by (induction segs) (simp, fastforce)
  moreover have "(\<forall>s \<in> set segs. P s) \<longleftrightarrow> (\<forall>a v. map_of segs a = Some v \<longrightarrow> P (a, v))" for P
    by (auto simp: m)
  ultimately show ?thesis
    using True unfolding segs_wf_def map_wf_def split_beta by (simp only: fst_conv snd_conv) blast
next
  case False
  have "sorted_wrt (\<lambda>(a, v) (b, w). a < b \<and> unat a + length v \<le> unat b) segs \<Longrightarrow> keys_sorted segs"
    unfolding sorted_wrt_map by (erule sorted_wrt_mono_rel [rotated]) auto
  with False show ?thesis by (auto simp: segs_wf_def)
qed

lemma image_at_Some:
  assumes "segs_wf segs"
  shows "image_at segs x = Some y \<longleftrightarrow>
     (\<exists>a v. map_of segs a = Some v \<and> covers x (a, v) \<and> v ! (x - unat a) = y)"
proof -
  have srt: "keys_sorted segs" and wf: "map_wf (map_of segs)"
    using assms by (simp_all add: segs_wf_map)
  have m: "map_of segs a = Some v \<longleftrightarrow> (a, v) \<in> set segs" for a v
    using keys_distinct [OF srt] by simp
  have uniq: "a = b" if "map_of segs a = Some v" "covers x (a, v)" "map_of segs b = Some w" "covers x (b, w)"
    for a b v w
    using that wf unfolding map_wf_def covers_def
    by (metis (no_types, lifting) case_prod_conv leD le_less_trans linorder_neqE)
  show ?thesis
  proof (cases "find (covers x) segs")
    case None
    then have "\<not> covers x s" if "s \<in> set segs" for s
      using that by (cases s) (simp add: find_None_iff)
    with None show ?thesis by (auto simp: image_at_def m)
  next
    case (Some s)
    obtain b w where s: "s = (b, w)" by fastforce
    with Some have bw: "map_of segs b = Some w" "covers x (b, w)"
      by (auto simp: m find_Some_iff intro: nth_mem)
    have eq: "v ! (x - unat a) = w ! (x - unat b)"
      if "map_of segs a = Some v" "covers x (a, v)" for a v
      using uniq [OF that bw] that(1) bw(1) by simp
    have "image_at segs x = Some (w ! (x - unat b))" using Some s by (simp add: image_at_def)
    then show ?thesis using bw by (auto dest: eq)
  qed
qed

lemma image_at_None:
  "image_at segs x = None \<longleftrightarrow> (\<forall>s \<in> set segs. \<not> covers x s)"
  by (auto simp: image_at_def find_None_iff)

section \<open>The map operations\<close>

lemma map_of_seg_insert:
  "keys_sorted segs \<Longrightarrow> map_of (seg_insert a v segs) = (map_of segs)(a \<mapsto> v)"
proof (induction a v segs rule: seg_insert.induct)
  case (2 a v b w segs)
  then show ?case
    by (auto simp: fun_eq_iff map_of_eq_None_iff [symmetric] image_iff)
qed simp

lemma fst_seg_insert: "fst ` set (seg_insert a v segs) = insert a (fst ` set segs)"
  by (induction a v segs rule: seg_insert.induct) auto

lemma keys_sorted_seg_insert:
  "keys_sorted segs \<Longrightarrow> keys_sorted (seg_insert a v segs)"
proof (induction a v segs rule: seg_insert.induct)
  case (2 a v b w segs)
  then show ?case
    using fst_seg_insert [of a v segs] by (auto simp: image_iff)
qed simp

lemma seg_append_sorted:
  "keys_sorted segs \<Longrightarrow> keys_sorted (seg_append segs new)"
  unfolding seg_append_def
  by (induction new arbitrary: segs) (auto simp: keys_sorted_seg_insert)

lemma map_of_seg_append:
  assumes "keys_sorted segs" "distinct (map fst new)"
  shows "map_of (seg_append segs new) = map_of segs ++ map_of new"
  using assms unfolding seg_append_def
proof (induction new arbitrary: segs)
  case (Cons s new)
  obtain a v where s: "s = (a, v)" by fastforce
  have "a \<notin> dom (map_of new)" using Cons(3) s by (auto simp: dom_map_of_conv_image_fst)
  with Cons s show ?case
    by (auto simp: keys_sorted_seg_insert map_of_seg_insert fun_eq_iff map_add_def split: option.split)
qed simp

section \<open>What a write leaves\<close>

lemma seg_before_cases:
  assumes "keys_sorted segs"
  obtains (none) "seg_before segs p = None" "\<And>b w. map_of segs b = Some w \<Longrightarrow> p \<le> b"
    | (some) a v where "seg_before segs p = Some (a, v)" "map_of segs a = Some v" "a < p"
        "\<And>b w. map_of segs b = Some w \<Longrightarrow> b < p \<Longrightarrow> b \<le> a"
proof (cases "filter (\<lambda>(a, _). a < p) segs")
  case Nil
  then have "p \<le> b" if "map_of segs b = Some w" for b w
    using map_of_SomeD [OF that] by (auto simp: filter_empty_conv)
  with Nil none show thesis by (simp add: seg_before_def)
next
  case (Cons s ss)
  let ?bs = "filter (\<lambda>(a, _). a < p) segs"
  have ne: "?bs \<noteq> []" using Cons by simp
  obtain a v where l: "last ?bs = (a, v)" by fastforce
  have av: "(a, v) \<in> set segs" "a < p"
    using last_in_set [OF ne] l by auto
  have split: "?bs = butlast ?bs @ [(a, v)]" using ne l append_butlast_last_id [OF ne] by simp
  have "sorted_wrt (<) (map fst ?bs)"
    using assms by (simp add: sorted_wrt_map sorted_wrt_filter)
  then have "sorted_wrt (<) (map fst (butlast ?bs) @ [a])"
    by (subst (asm) split) simp
  then have "\<forall>t \<in> set (butlast ?bs @ [(a, v)]). fst t \<le> a"
    by (auto simp: sorted_wrt_append less_imp_le)
  then have le: "\<forall>t \<in> set ?bs. fst t \<le> a"
    using split by metis
  have "b \<le> a" if "map_of segs b = Some w" "b < p" for b w
    using le map_of_SomeD [OF that(1)] that(2) by force
  moreover have "map_of segs a = Some v"
    using av(1) keys_distinct [OF assms] by simp
  ultimately show thesis
    using some av(2) l ne by (simp add: seg_before_def Let_def)
qed

lemma keys_sorted_shrink: "keys_sorted segs \<Longrightarrow> keys_sorted (shrink_before segs p)"
  by (auto simp: shrink_before_def keys_sorted_seg_insert split: option.split prod.split)

lemma map_of_shrink:
  assumes "segs_wf segs"
  shows "map_of (shrink_before segs p) =
     (\<lambda>a. if a < p then map_option (take (unat p - unat a)) (map_of segs a) else map_of segs a)"
proof -
  have srt: "keys_sorted segs" and wf: "map_wf (map_of segs)"
    using assms by (simp_all add: segs_wf_map)
  show ?thesis
    using srt
  proof (cases rule: seg_before_cases [where p = p])
    case none
    then show ?thesis
      by (auto simp: shrink_before_def fun_eq_iff not_le dest: leD) (metis leD map_option_is_None not_None_eq)
  next
    case (some a v)
    have end_a: "unat (a + word_of_nat (length v)) = unat a + length v"
      using some(2) wf unat_add_nat unfolding map_wf_def by blast
    have other: "map_option (take (unat p - unat b)) (map_of segs b) = map_of segs b" if "b < p" "b \<noteq> a" for b
    proof (cases "map_of segs b")
      case (Some w)
      with some(4) that have "b < a" by force
      with Some some(2) wf have "unat b + length w \<le> unat a" by (auto simp: map_wf_def)
      with some(3) have "length w \<le> unat p - unat b" by (simp add: word_less_nat_alt)
      with Some show ?thesis by simp
    qed simp
    have d: "unat (p - a) = unat p - unat a"
      using some(3) by (simp add: unat_sub less_imp_le)
    have ov: "p < a + word_of_nat (length v) \<longleftrightarrow> unat p < unat a + length v"
      by (simp add: word_less_nat_alt end_a)
    show ?thesis
    proof
      fix b
      show "map_of (shrink_before segs p) b =
          (if b < p then map_option (take (unat p - unat b)) (map_of segs b) else map_of segs b)"
        using some(1,2,3) srt other [of b]
        by (cases "b = a") (auto simp: shrink_before_def ov d resize_def map_of_seg_insert not_less)
    qed
  qed
qed

text \<open>The pieces that the loop makes of a write.\<close>

fun tiling :: "Address \<Rightarrow> u8 list \<Rightarrow> segments \<Rightarrow> bool" where
  "tiling p bs [] \<longleftrightarrow> False"
| "tiling p bs [(q, c)] \<longleftrightarrow> q = p \<and> c = bs"
| "tiling p bs ((q, c) # t # ts) \<longleftrightarrow>
     q = p \<and> c = take (length c) bs \<and> c \<noteq> [] \<and> length c < length bs \<and>
     tiling (p + word_of_nat (length c)) (drop (length c) bs) (t # ts)"

lemma split_chunks_tiling:
  assumes "split_chunks p bs ks = (new, q, c)" "sorted_wrt (<) ks" "\<forall>k \<in> set ks. p \<le> k \<and> unat k < unat p + length bs"
    and "bs \<noteq> []" "unat p + length bs < 2 ^ 64"
  shows "tiling p bs (new @ [(q, c)]) \<and> fst ` set (new @ [(q, c)]) = insert p (set ks) \<and> c \<noteq> []"
  using assms
proof (induction ks arbitrary: p bs new)
  case (Cons k ks)
  let ?n = "unat (k - p)"
  obtain new' where rec: "split_chunks k (drop ?n bs) ks = (new', q, c)"
    and new: "new = (if take ?n bs = [] then new' else (p, take ?n bs) # new')"
    using Cons.prems(1) by (auto simp: Let_def split: prod.splits)
  have n: "?n = unat k - unat p" "unat p \<le> unat k" "unat k < unat p + length bs"
    using Cons.prems(3) by (auto simp: unat_sub word_le_nat_alt)
  have IH: "tiling k (drop ?n bs) (new' @ [(q, c)]) \<and>
      fst ` set (new' @ [(q, c)]) = insert k (set ks) \<and> c \<noteq> []"
    using Cons.prems n
    by (intro Cons.IH [OF rec]) (auto simp: less_imp_le word_less_nat_alt)
  show ?case
  proof (cases "take ?n bs = []")
    case True
    then have "k = p" using Cons.prems(3,4) n by (auto simp: word_le_nat_alt intro!: antisym)
    with IH True new show ?thesis by auto
  next
    case False
    have "length (take ?n bs) = ?n" using n by simp
    then have "p + word_of_nat (length (take ?n bs)) = k" by simp
    with IH False new n show ?thesis
      by (cases "new' @ [(q, c)]") (auto simp: min_def)
  qed
qed simp

lemma tiling_next:
  assumes "tiling p bs ((q, c) # t # ts)" "unat p + length bs < 2 ^ 64"
  shows "unat (p + word_of_nat (length c)) = unat p + length c" "p < p + word_of_nat (length c)"
proof -
  show *: "unat (p + word_of_nat (length c)) = unat p + length c"
    using assms by (intro unat_add_nat) simp
  show "p < p + word_of_nat (length c)"
    unfolding word_less_nat_alt * using assms by simp
qed

lemma tiling_range:
  assumes "tiling p bs ts" "unat p + length bs < 2 ^ 64" "(q, c) \<in> set ts"
  shows "unat p \<le> unat q \<and> unat q + length c \<le> unat p + length bs"
  using assms
proof (induction p bs ts rule: tiling.induct)
  case (3 p bs q' c' t ts)
  note p = tiling_next [OF 3(2,3)]
  show ?case using 3 p by (cases "(q, c) = (q', c')") auto
qed auto

lemma tiling_bytes:
  assumes "tiling p bs ts" "unat p + length bs < 2 ^ 64" "(q, c) \<in> set ts" "i < length c"
  shows "c ! i = bs ! (unat q - unat p + i)"
  using assms
proof (induction p bs ts rule: tiling.induct)
  case (3 p bs q' c' t ts)
  note p = tiling_next [OF 3(2,3)]
  show ?case
  proof (cases "(q, c) = (q', c')")
    case True
    with 3(2,5) show ?thesis by simp (metis nth_take)
  next
    case False
    then have t: "(q, c) \<in> set (t # ts)" using 3(4) by auto
    have rest: "tiling (p + word_of_nat (length c')) (drop (length c') bs) (t # ts)"
      using 3(2) by simp
    have "unat (p + word_of_nat (length c')) \<le> unat q"
      using tiling_range [OF rest _ t] 3(2,3) p by simp
    moreover have "c ! i = drop (length c') bs ! (unat q - unat (p + word_of_nat (length c')) + i)"
      using 3(2,3,5) t p by (intro 3(1)) auto
    ultimately show ?thesis
      using 3(2) by (simp add: p(1))
  qed
qed auto

lemma tiling_sorted:
  assumes "tiling p bs ts" "unat p + length bs < 2 ^ 64"
  shows "sorted_wrt (\<lambda>s t. fst s < fst t \<and> unat (fst s) + length (snd s) \<le> unat (fst t)) ts"
  using assms
proof (induction p bs ts rule: tiling.induct)
  case (3 p bs q c t ts)
  note p = tiling_next [OF 3(2,3)]
  have rest: "tiling (p + word_of_nat (length c)) (drop (length c) bs) (t # ts)"
    using 3(2) by simp
  have "q < fst s \<and> unat q + length c \<le> unat (fst s)" if "s \<in> set (t # ts)" for s
  proof -
    have "unat p + length c \<le> unat (fst s)" "0 < length c" "q = p"
      using tiling_range [OF rest, of "fst s" "snd s"] that 3(2,3) p by simp_all
    then have "unat p < unat (fst s)" by linarith
    with \<open>q = p\<close> \<open>unat p + length c \<le> unat (fst s)\<close> show ?thesis by (simp add: word_less_nat_alt)
  qed
  moreover have "sorted_wrt (\<lambda>s t. fst s < fst t \<and> unat (fst s) + length (snd s) \<le> unat (fst t)) (t # ts)"
    using 3 p by (intro 3(1)) auto
  ultimately show ?case by auto
qed auto

lemma tiling_keys:
  assumes "tiling p bs ts" "unat p + length bs < 2 ^ 64"
  shows "keys_sorted ts"
  using tiling_sorted [OF assms] unfolding sorted_wrt_map by (rule sorted_wrt_mono_rel [rotated]) simp

lemma tiling_covers:
  assumes "tiling p bs ts" "unat p + length bs < 2 ^ 64" "unat p \<le> x" "x < unat p + length bs"
  shows "\<exists>s \<in> set ts. covers x s"
  using assms
proof (induction p bs ts rule: tiling.induct)
  case (3 p bs q c t ts)
  note p = tiling_next [OF 3(2,3)]
  show ?case
  proof (cases "x < unat p + length c")
    case True
    with 3 show ?thesis by (auto simp: covers_def)
  next
    case False
    then have "\<exists>s \<in> set (t # ts). covers x s"
      using 3 p by (intro 3(1)) auto
    then show ?thesis by auto
  qed
qed (auto simp: covers_def)

lemma tiling_last:
  assumes "tiling p bs ts" "unat p + length bs < 2 ^ 64"
  shows "unat (fst (last ts)) + length (snd (last ts)) = unat p + length bs"
  using assms
proof (induction p bs ts rule: tiling.induct)
  case (3 p bs q c t ts)
  note p = tiling_next [OF 3(2,3)]
  show ?case using 3 p by simp
qed auto

definition chunk_at :: "segments \<Rightarrow> Address \<Rightarrow> u8 list" where
  "chunk_at segs a = (case map_of segs a of Some chunk \<Rightarrow> chunk | None \<Rightarrow> [])"

text \<open>The map after a write of \<open>bs\<close> at \<open>p\<close>, in pieces \<open>new\<close> and a last one \<open>c\<close> at \<open>q\<close>.\<close>

definition written ::
  "segments \<Rightarrow> Address \<Rightarrow> u8 list \<Rightarrow> (Address \<rightharpoonup> u8 list) \<Rightarrow> segments \<Rightarrow> Address \<Rightarrow> u8 list \<Rightarrow> bool" where
  "written segs p bs m' new q c \<longleftrightarrow>
     segs_wf segs \<and> bs \<noteq> [] \<and> unat p + length bs < 2 ^ 64 \<and>
     m' = (map_of (shrink_before segs p) ++ map_of new)(q \<mapsto> c @ drop (length c) (chunk_at segs q)) \<and>
     tiling p bs (new @ [(q, c)]) \<and>
     fst ` set (new @ [(q, c)]) = insert p {k \<in> dom (map_of segs). p \<le> k \<and> unat k < unat p + length bs}"

lemma write_bytes_cases:
  assumes "segs_wf segs" "bs \<noteq> []" "unat p + length bs < 2 ^ 64"
  obtains new q c segs' where "(write_bytes segs p bs :: ('e, segments) rust) = Ok segs'" "keys_sorted segs'"
    "written segs p bs (map_of segs') new q c"
proof -
  let ?sh = "shrink_before segs p" and ?after = "p + word_of_nat (length bs)"
  have srt: "keys_sorted ?sh" using assms(1) by (simp add: segs_wf_map keys_sorted_shrink)
  have after: "unat ?after = unat p + length bs" using assms(3) by (rule unat_add_nat)
  define ks where "ks = seg_range ?sh p ?after"
  have ks: "sorted_wrt (<) ks"
    using srt by (simp add: ks_def seg_range_def sorted_wrt_map sorted_wrt_filter)
  have "set ks = {k \<in> dom (map_of ?sh). p \<le> k \<and> k < ?after}"
    by (auto simp: ks_def seg_range_def dom_map_of_conv_image_fst image_iff)
  also have "\<dots> = {k \<in> dom (map_of segs). p \<le> k \<and> unat k < unat p + length bs}"
    by (auto simp: map_of_shrink [OF assms(1)] word_less_nat_alt after split: if_splits)
  finally have set_ks: "set ks = {k \<in> dom (map_of segs). p \<le> k \<and> unat k < unat p + length bs}" .
  obtain new q c where sp: "split_chunks p bs ks = (new, q, c)" by (metis prod_cases3)
  have t: "tiling p bs (new @ [(q, c)])" "fst ` set (new @ [(q, c)]) = insert p (set ks)" "c \<noteq> []"
    using split_chunks_tiling [OF sp ks _ assms(2,3)] set_ks by auto
  have new: "distinct (map fst new)" "q \<notin> fst ` set new"
    using keys_distinct [OF tiling_keys [OF t(1) assms(3)]] by auto
  have app: "map_of (seg_append ?sh new) = map_of ?sh ++ map_of new" "keys_sorted (seg_append ?sh new)"
    using srt new by (simp_all add: map_of_seg_append seg_append_sorted)
  have q: "\<not> q < p"
    using tiling_range [OF t(1) assms(3), of q c] by (simp add: word_less_nat_alt not_less)
  have "(map_of ?sh ++ map_of new) q = map_of segs q"
    using q new(2) map_of_eq_None_iff [of new q]
    by (simp add: map_add_def map_of_shrink [OF assms(1)])
  then have "(write_bytes segs p bs :: ('e, segments) rust) =
      Ok (seg_insert q (c @ drop (length c) (chunk_at segs q)) (seg_append ?sh new))"
    using assms(2) sp t(3) after
    by (auto simp: write_bytes_def Let_def ks_def [symmetric] seg_get_def app chunk_at_def
        word_less_nat_alt split: option.split)
  then show thesis
    using app t set_ks assms
    by (intro that [of "seg_insert q (c @ drop (length c) (chunk_at segs q)) (seg_append ?sh new)" new q c])
       (simp_all add: keys_sorted_seg_insert map_of_seg_insert written_def)
qed

text \<open>A byte past a write at \<open>p\<close> that belongs to a chunk starting before \<open>p\<close>.\<close>

definition straddles :: "segments \<Rightarrow> Address \<Rightarrow> nat \<Rightarrow> bool" where
  "straddles segs p x \<longleftrightarrow> list_ex (\<lambda>(a, v). a < p \<and> x < unat a + length v) segs"

text \<open>The entries after a write: cut chunks before it, its pieces, untouched chunks after it.\<close>

lemma write_entry_cases:
  assumes wr: "written segs p bs m' new q c"
    and a: "m' a = Some v"
  obtains (before) v0 where "a < p" "map_of segs a = Some v0" "v = take (unat p - unat a) v0"
    | (piece) "(a, v) \<in> set new" "unat p \<le> unat a" "unat a + length v \<le> unat q" "a < q"
    | (last) "a = q" "v = c @ drop (length c) (chunk_at segs q)"
    | (after) "unat p + length bs \<le> unat a" "map_of segs a = Some v"
proof (cases "a = q")
  case True
  from wr have m': "m' q = Some (c @ drop (length c) (chunk_at segs q))" by (simp add: written_def)
  with a True last show thesis by simp
next
  case False
  from wr have wf: "segs_wf segs" and nw: "unat p + length bs < 2 ^ 64"
    and t: "tiling p bs (new @ [(q, c)])"
    and keys: "fst ` set (new @ [(q, c)]) = insert p {k \<in> dom (map_of segs). p \<le> k \<and> unat k < unat p + length bs}"
    and m': "m' a = (map_of (shrink_before segs p) ++ map_of new) a"
    using False by (simp_all add: written_def)
  show thesis
  proof (cases "map_of new a")
    case (Some w)
    with a m' False have "(a, v) \<in> set new" by (auto dest: map_of_SomeD)
    moreover from this have "a < q" "unat a + length v \<le> unat q" "unat p \<le> unat a"
      using tiling_sorted [OF t nw] tiling_range [OF t nw, of a v] by (auto simp: sorted_wrt_append)
    ultimately show thesis using piece by blast
  next
    case None
    then have m: "map_of (shrink_before segs p) a = Some v"
      using a m' False by (simp add: map_add_def)
    have "a \<notin> fst ` set (new @ [(q, c)])"
      using None False by (simp add: map_of_eq_None_iff)
    with keys have out: "a \<in> dom (map_of segs) \<Longrightarrow> p \<le> a \<Longrightarrow> unat p + length bs \<le> unat a"
      by auto
    show thesis
      using m out before after by (auto simp: map_of_shrink [OF wf] not_less split: if_splits)
  qed
qed

lemma map_wf_write:
  assumes wr: "written segs p bs m' new q c"
  shows "map_wf m'"
proof -
  note entry = write_entry_cases [OF wr, consumes 1, case_names before piece last after]
  from wr have wf: "segs_wf segs" and nw: "unat p + length bs < 2 ^ 64"
    and t: "tiling p bs (new @ [(q, c)])" by (simp_all add: written_def)
  have m: "map_wf (map_of segs)" using wf by (simp add: segs_wf_map)
  then have mle: "map_of segs a = Some v \<Longrightarrow> map_of segs b = Some w \<Longrightarrow> a < b \<Longrightarrow>
      unat a + length v \<le> unat b" for a b v w by (auto simp: map_wf_def)
  have q: "unat p \<le> unat q" "unat q + length c = unat p + length bs"
    using tiling_range [OF t nw, of q c] tiling_last [OF t nw] by simp_all
  have chunk: "unat q + length (chunk_at segs q) < 2 ^ 64"
      "map_of segs b = Some w \<Longrightarrow> q < b \<Longrightarrow> unat q + length (chunk_at segs q) \<le> unat b" for b w
    using m unsigned_less [of q, where 'a = nat] word_less_nat_alt [of q b]
    by (auto simp: chunk_at_def map_wf_def split: option.splits)
  have len: "unat q + length (c @ drop (length c) (chunk_at segs q)) =
      max (unat p + length bs) (unat q + length (chunk_at segs q))"
    using q(2) by (simp add: max_def)
  have new: "unat a + length v \<le> unat b" if "(a, v) \<in> set new" "(b, w) \<in> set new" "a < b" for a v b w
  proof -
    have "sorted_wrt (\<lambda>s t. fst s < fst t \<and> unat (fst s) + length (snd s) \<le> unat (fst t)) new"
      using tiling_sorted [OF t nw] by (simp add: sorted_wrt_append)
    with that show ?thesis by (induction new) fastforce+
  qed
  have bound: "unat a + length v < 2 ^ 64" if "m' a = Some v" for a v
    using that
  proof (cases rule: entry)
    case (before v0)
    with nw show ?thesis by (simp add: word_less_nat_alt)
  next
    case piece
    then show ?thesis using unsigned_less [of q, where 'a = nat] by simp
  next
    case last
    then show ?thesis using len chunk(1) nw by simp
  next
    case after
    with m show ?thesis by (simp add: map_wf_def)
  qed
  have "unat a + length v \<le> unat b" if a: "m' a = Some v" and b: "m' b = Some w" and ab: "a < b" for a b v w
    using b
  proof (cases rule: entry)
    case (before w0)
    from ab before(1) have "a < p" by order
    with a show ?thesis
      using q ab before(1) by (cases rule: entry) (auto simp: word_less_nat_alt dest!: mle [OF _ before(2) ab])
  next
    case piece
    from a show ?thesis
      using piece ab new q nw by (cases rule: entry) (auto simp: word_less_nat_alt)
  next
    case last
    from a show ?thesis
      using last ab q nw by (cases rule: entry) (auto simp: word_less_nat_alt)
  next
    case after
    from a show ?thesis
      using after(1) ab q nw chunk(2) [OF after(2)] len
      by (cases rule: entry) (auto simp: word_less_nat_alt dest!: mle [OF _ after(2) ab])
  qed
  with bound show ?thesis by (auto simp: map_wf_def)
qed

text \<open>The bytes of the resulting map.\<close>

definition img :: "(Address \<rightharpoonup> u8 list) \<Rightarrow> nat \<Rightarrow> u8 \<Rightarrow> bool" where
  "img m x y \<longleftrightarrow> (\<exists>a v. m a = Some v \<and> covers x (a, v) \<and> v ! (x - unat a) = y)"

lemma img_inside:
  assumes wr: "written segs p bs m' new q c" and "unat p \<le> x" "x < unat p + length bs"
  shows "img m' x (bs ! (x - unat p))"
proof -
  from wr have nw: "unat p + length bs < 2 ^ 64" and t: "tiling p bs (new @ [(q, c)])"
    by (simp_all add: written_def)
  obtain a v where av: "(a, v) \<in> set (new @ [(q, c)])" "covers x (a, v)"
    using tiling_covers [OF t nw assms(2,3)] by auto
  have b: "v ! (x - unat a) = bs ! (x - unat p)"
    using tiling_bytes [OF t nw av(1), of "x - unat a"] av(2) tiling_range [OF t nw av(1)]
    by (auto simp: covers_def)
  show ?thesis
  proof (cases "a = q")
    case True
    have "(q, c) = (a, v)"
      using tiling_sorted [OF t nw] av(1) True by (auto simp: sorted_wrt_append)
    then have "m' a = Some (v @ drop (length v) (chunk_at segs q))" "x - unat a < length v"
      using wr av(2) by (auto simp: written_def covers_def)
    then show ?thesis
      using b av(2) by (auto simp: img_def nth_append covers_def intro!: exI [of _ a])
  next
    case False
    then have new: "(a, v) \<in> set new" using av(1) by simp
    moreover have "distinct (map fst new)"
      using keys_distinct [OF tiling_keys [OF t nw]] by simp
    ultimately have "m' a = Some v" using False wr by (simp add: written_def map_add_def)
    with av(2) b show ?thesis by (auto simp: img_def)
  qed
qed

lemma img_below:
  assumes wr: "written segs p bs m' new q c" and x: "x < unat p"
  shows "img m' x y \<longleftrightarrow> img (map_of segs) x y"
proof
  assume "img m' x y"
  then obtain a v where a: "m' a = Some v" "covers x (a, v)" "v ! (x - unat a) = y" by (auto simp: img_def)
  from wr have "unat p \<le> unat q" using tiling_range [of p bs "new @ [(q, c)]" q c] by (simp add: written_def)
  with a x show "img (map_of segs) x y"
    by (cases rule: write_entry_cases [OF wr a(1)])
       (auto simp: img_def covers_def intro!: exI [of _ a])
next
  assume "img (map_of segs) x y"
  then obtain a v where a: "map_of segs a = Some v" "covers x (a, v)" "v ! (x - unat a) = y"
    by (auto simp: img_def)
  have ap: "a < p" using a(2) x by (simp add: covers_def word_less_nat_alt)
  from wr have wf: "segs_wf segs" and nw: "unat p + length bs < 2 ^ 64"
    and t: "tiling p bs (new @ [(q, c)])" by (simp_all add: written_def)
  have "a \<notin> fst ` set (new @ [(q, c)])"
    using tiling_range [OF t nw] ap by (force simp: word_less_nat_alt)
  then have "m' a = Some (take (unat p - unat a) v)"
    using wr a(1) ap map_of_eq_None_iff [of new a]
    by (simp add: written_def map_add_def map_of_shrink [OF wf])
  with a(2,3) x show "img m' x y" by (auto simp: img_def covers_def intro!: exI [of _ a])
qed

lemma img_above:
  assumes wr: "written segs p bs m' new q c" and x: "unat p + length bs \<le> x"
  shows "img m' x y \<longleftrightarrow> \<not> straddles segs p x \<and> img (map_of segs) x y"
proof -
  from wr have wf: "segs_wf segs" and nw: "unat p + length bs < 2 ^ 64"
    and t: "tiling p bs (new @ [(q, c)])"
    and keys: "fst ` set (new @ [(q, c)]) = insert p {k \<in> dom (map_of segs). p \<le> k \<and> unat k < unat p + length bs}"
    by (simp_all add: written_def)
  have q: "unat p \<le> unat q" "unat q + length c = unat p + length bs" "m' q = Some (c @ drop (length c) (chunk_at segs q))"
    using tiling_range [OF t nw, of q c] tiling_last [OF t nw] wr by (simp_all add: written_def)
  have m: "map_wf (map_of segs)" and d: "distinct (map fst segs)"
    using wf keys_distinct by (auto simp: segs_wf_map)
  have st: "straddles segs p x \<longleftrightarrow> (\<exists>a v. map_of segs a = Some v \<and> a < p \<and> x < unat a + length v)"
    using d by (auto simp: straddles_def list_ex_iff)
  have no_st: "\<not> straddles segs p x" if "map_of segs b = Some w" "\<not> b < p" "covers x (b, w)" for b w
    using that m unfolding st map_wf_def covers_def by fastforce
  have chunk: "map_of segs q = Some w" if "chunk_at segs q = w" "w \<noteq> []" for w
    using that by (auto simp: chunk_at_def split: option.splits)
  show ?thesis
  proof (intro iffI conjI)
    assume "img m' x y"
    then obtain a v where a: "m' a = Some v" "covers x (a, v)" "v ! (x - unat a) = y" by (auto simp: img_def)
    from a(1) obtain b w where b: "map_of segs b = Some w" "\<not> b < p" "covers x (b, w)" "w ! (x - unat b) = y"
    proof (cases rule: write_entry_cases [OF wr a(1), case_names before piece last after])
      case last
      define w where "w = chunk_at segs q"
      have "length c \<le> x - unat q" "unat q \<le> x" "x - unat q < length w"
        using a(2) last q x by (auto simp: covers_def w_def)
      moreover from this have "map_of segs q = Some w" by (intro chunk) (auto simp: w_def)
      moreover have "\<not> q < p" using q(1) by (simp add: word_less_nat_alt)
      ultimately show thesis
        using a(3) last by (intro that [of q w]) (auto simp: covers_def w_def nth_append)
    next
      case after
      with a that [of a v] nw show thesis by (simp add: word_less_nat_alt)
    qed (use a(2) q x in \<open>auto simp: covers_def word_less_nat_alt\<close>)
    then show "\<not> straddles segs p x" "img (map_of segs) x y"
      using no_st by (auto simp: img_def)
  next
    assume "\<not> straddles segs p x \<and> img (map_of segs) x y"
    then obtain a v where a: "map_of segs a = Some v" "covers x (a, v)" "v ! (x - unat a) = y" "\<not> a < p"
      by (force simp: img_def st covers_def)
    have av: "unat a \<le> x" "x < unat a + length v" using a(2) by (simp_all add: covers_def)
    show "img m' x y"
    proof (cases "a \<in> fst ` set (new @ [(q, c)])")
      case False
      then have "m' a = Some v"
        using wr a(1,4) map_of_eq_None_iff [of new a]
        by (simp add: written_def map_add_def map_of_shrink [OF wf])
      with a show ?thesis by (auto simp: img_def)
    next
      case True
      have "a = q"
      proof (rule ccontr)
        assume "a \<noteq> q"
        with True have "a < q" using tiling_sorted [OF t nw] by (auto simp: sorted_wrt_append)
        with a(4) have "q \<noteq> p" by auto
        then have "q \<in> dom (map_of segs)" using keys by auto
        with a(1) \<open>a < q\<close> m have "unat a + length v \<le> unat q" by (auto simp: map_wf_def)
        with av x q show False by simp
      qed
      then have "chunk_at segs q = v" "length c \<le> x - unat q"
        using a(1) av x q by (simp_all add: chunk_at_def)
      with \<open>a = q\<close> q(3) av a(3) show ?thesis
        by (auto simp: img_def covers_def nth_append intro!: exI [of _ q])
    qed
  qed
qed

lemma write_bytes_ok:
  assumes "segs_wf segs" "bs \<noteq> []" "unat p + length bs < 2 ^ 64"
  obtains segs' where "(write_bytes segs p bs :: ('e, segments) rust) = Ok segs'" "segs_wf segs'"
    "\<And>x. image_at segs' x =
       (if unat p \<le> x \<and> x < unat p + length bs then Some (bs ! (x - unat p))
        else if unat p + length bs \<le> x \<and> straddles segs p x then None
        else image_at segs x)"
proof -
  obtain new q c segs' where w: "(write_bytes segs p bs :: ('e, segments) rust) = Ok segs'" "keys_sorted segs'"
    and wr: "written segs p bs (map_of segs') new q c"
    using write_bytes_cases [OF assms] by metis
  have wf': "segs_wf segs'"
    using w(2) map_wf_write [OF wr] by (simp add: segs_wf_map)
  have img: "image_at segs' x = Some y \<longleftrightarrow> img (map_of segs') x y"
    "image_at segs x = Some y \<longleftrightarrow> img (map_of segs) x y" for x y
    by (simp_all add: img_def image_at_Some [OF wf'] image_at_Some [OF assms(1)])
  have eq: "u = v" if "\<And>y. u = Some y \<longleftrightarrow> v = Some (y :: u8)" for u v
    using that by (metis not_None_eq)
  have "image_at segs' x = (if straddles segs p x then None else image_at segs x)"
    if "unat p + length bs \<le> x" for x
    by (rule eq) (simp add: img img_above [OF wr that])
  moreover have "image_at segs' x = image_at segs x" if "x < unat p" for x
    by (rule eq) (simp add: img img_below [OF wr that])
  moreover have "image_at segs' x = Some (bs ! (x - unat p))" if "unat p \<le> x" "x < unat p + length bs" for x
    using img_inside [OF wr that] by (simp add: img)
  ultimately show thesis
    using w(1) wf' by (intro that [of segs']) (auto simp: not_le not_less)
qed

lemma write_bytes_wf:
  assumes "segs_wf segs" "length bs < 2 ^ 64" "write_bytes segs p bs = (Ok segs' :: ('e, segments) rust)"
  shows "segs_wf segs'"
proof (cases "bs = []")
  case True
  with assms show ?thesis by (simp add: write_bytes_def)
next
  case False
  have "unat p + length bs < 2 ^ 64"
  proof (rule ccontr)
    assume nw: "\<not> unat p + length bs < 2 ^ 64"
    have "unat (p + word_of_nat (length bs)) < unat p"
      using nw assms(2) unsigned_less [of p, where 'a = nat]
      by (simp add: unat_plus_if' unat_word_of_nat)
    with assms(3) False show False by (simp add: write_bytes_def word_less_nat_alt)
  qed
  then obtain segs'' where "write_bytes segs p bs = (Ok segs'' :: ('e, segments) rust)" "segs_wf segs''"
    using write_bytes_ok [OF assms(1) False] by blast
  with assms(3) show ?thesis by simp
qed

lemma write_bytes_fresh:
  assumes "segs_wf segs" "unat p + length bs < 2 ^ 64"
    and fresh: "\<And>x. unat p \<le> x \<Longrightarrow> x < unat p + length bs \<Longrightarrow> image_at segs x = None"
  obtains segs' where "(write_bytes segs p bs :: ('e, segments) rust) = Ok segs'" "segs_wf segs'"
    "\<And>x. image_at segs' x =
       (if unat p \<le> x \<and> x < unat p + length bs then Some (bs ! (x - unat p)) else image_at segs x)"
proof (cases "bs = []")
  case True
  with assms(1) show thesis by (intro that [of segs]) (auto simp: write_bytes_def)
next
  case False
  then have "image_at segs (unat p) = None" using fresh by simp
  then have "\<not> straddles segs p x" if "unat p \<le> x" for x
    using that by (auto simp: image_at_None straddles_def list_ex_iff covers_def word_less_nat_alt)
  then have ns: "unat p + length bs \<le> x \<Longrightarrow> \<not> straddles segs p x" for x by simp
  obtain segs' where "(write_bytes segs p bs :: ('e, segments) rust) = Ok segs'" "segs_wf segs'"
    "\<And>x. image_at segs' x =
       (if unat p \<le> x \<and> x < unat p + length bs then Some (bs ! (x - unat p))
        else if unat p + length bs \<le> x \<and> straddles segs p x then None
        else image_at segs x)"
    using write_bytes_ok [OF assms(1) False assms(2)] by blast
  with ns show thesis by (intro that [of segs']) auto
qed

section \<open>Properties\<close>

text \<open>
  C7: writing a nonempty run of bytes that stays below the end of the address space never
  panics, keeps the segments sorted and disjoint, and changes their image as follows: inside the
  write the new bytes, elsewhere the old image, except that a byte past the end of the write is
  lost when its chunk starts before the write.
\<close>

theorem write_bytes_correct:
  assumes "segs_wf segs" "bs \<noteq> []" "unat p + length bs < 2 ^ 64"
  shows "\<exists>segs'. write_bytes segs p bs = (Ok segs' :: ('e, segments) rust) \<and> segs_wf segs' \<and>
    (\<forall>x. image_at segs' x =
       (if unat p \<le> x \<and> x < unat p + length bs then Some (bs ! (x - unat p))
        else if unat p + length bs \<le> x \<and> straddles segs p x then None
        else image_at segs x))"
  using write_bytes_ok [OF assms] by metis

theorem write_bytes_correct_witness:
  "\<exists>segs'. write_bytes [(0x1000, [1, 2]), (0x1004, [3, 4])] 0x1001 [7, 8, 9, 10] = (Ok segs' :: (unit, segments) rust) \<and>
    segs_wf segs' \<and>
    (\<forall>x. image_at segs' x =
       (if unat (0x1001 :: Address) \<le> x \<and> x < unat (0x1001 :: Address) + length [7, 8, 9, 10 :: u8]
        then Some ([7, 8, 9, 10] ! (x - unat (0x1001 :: Address)))
        else if unat (0x1001 :: Address) + length [7, 8, 9, 10 :: u8] \<le> x \<and>
                straddles [(0x1000, [1, 2]), (0x1004, [3, 4])] 0x1001 x then None
        else image_at [(0x1000, [1, 2]), (0x1004, [3, 4])] x))"
  by (rule write_bytes_correct) (simp_all add: segs_wf_def)

text \<open>The bytes 3 and 4 of the chunk are lost, although the write ends before them.\<close>

theorem write_bytes_drops_tail:
  "write_bytes [(0x1000, [1, 2, 3, 4])] 0x1001 [9] = (Ok [(0x1000, [1]), (0x1001, [9])] :: (unit, segments) rust)"
  by (simp add: write_bytes_def shrink_before_def seg_before_def resize_def seg_range_def
      seg_append_def seg_get_def)

end
