(* ===== verification/RV_CSR_Enum.thy ===== *)
theory RV_CSR_Enum
  imports RV_CSR_Fields
begin

text \<open>
  Control and status registers (\<^verbatim>\<open>machine_state/csregisters.rs\<close>): the register enum with its
  addresses, privileges, access rules, the three kinds of field rules (WPRI reserved bits,
  WLRL legal values, WARL transformed values), the default values, and the register file with
  its shadow registers \<open>sstatus\<close>, \<open>sip\<close> and \<open>sie\<close>.

  The enum of the source has 239 constructors. They are grouped here by the privilege prefix
  of their name into one datatype each, in declaration order, and the numbered families
  \<open>hpmcounter3..31\<close>, \<open>mhpmcounter3..31\<close>, \<open>mhpmevent3..31\<close>, \<open>pmpcfg0, 2, .., 14\<close> and
  \<open>pmpaddr0..63\<close> are indexed constructors.
\<close>

unbundle bit_operations_syntax

section \<open>The registers\<close>

text \<open>The indices of the hardware performance counters.\<close>

datatype (plugins only: code size) hpm =
    hpm3 | hpm4 | hpm5 | hpm6 | hpm7 | hpm8 | hpm9 | hpm10 | hpm11 | hpm12 | hpm13 | hpm14 |
    hpm15 | hpm16 | hpm17 | hpm18 | hpm19 | hpm20 | hpm21 | hpm22 | hpm23 | hpm24 | hpm25 |
    hpm26 | hpm27 | hpm28 | hpm29 | hpm30 | hpm31

definition hpm_list :: "hpm list" where
  "hpm_list = [
     hpm3, hpm4, hpm5, hpm6, hpm7, hpm8, hpm9, hpm10, hpm11, hpm12, hpm13, hpm14, hpm15, hpm16,
     hpm17, hpm18, hpm19, hpm20, hpm21, hpm22, hpm23, hpm24, hpm25, hpm26, hpm27, hpm28, hpm29,
     hpm30, hpm31]"

fun hpm_number :: "hpm \<Rightarrow> nat" where
  "hpm_number hpm3 = 3" | "hpm_number hpm4 = 4" | "hpm_number hpm5 = 5"
| "hpm_number hpm6 = 6" | "hpm_number hpm7 = 7" | "hpm_number hpm8 = 8"
| "hpm_number hpm9 = 9" | "hpm_number hpm10 = 10" | "hpm_number hpm11 = 11"
| "hpm_number hpm12 = 12" | "hpm_number hpm13 = 13" | "hpm_number hpm14 = 14"
| "hpm_number hpm15 = 15" | "hpm_number hpm16 = 16" | "hpm_number hpm17 = 17"
| "hpm_number hpm18 = 18" | "hpm_number hpm19 = 19" | "hpm_number hpm20 = 20"
| "hpm_number hpm21 = 21" | "hpm_number hpm22 = 22" | "hpm_number hpm23 = 23"
| "hpm_number hpm24 = 24" | "hpm_number hpm25 = 25" | "hpm_number hpm26 = 26"
| "hpm_number hpm27 = 27" | "hpm_number hpm28 = 28" | "hpm_number hpm29 = 29"
| "hpm_number hpm30 = 30" | "hpm_number hpm31 = 31"

text \<open>Unprivileged counters and floating-point state.\<close>

datatype (plugins only: code size) UCSR =
    Fflags | Frm | Fcsr | Cycle | Time | Instret | Hpmcounter hpm

fun ucsr_addr :: "UCSR \<Rightarrow> nat" where
  "ucsr_addr Fflags = 0x001"
| "ucsr_addr Frm = 0x002"
| "ucsr_addr Fcsr = 0x003"
| "ucsr_addr Cycle = 0xC00"
| "ucsr_addr Time = 0xC01"
| "ucsr_addr Instret = 0xC02"
| "ucsr_addr (Hpmcounter h) = 0xC00 + hpm_number h"

definition UCSR_list :: "UCSR list" where
  "UCSR_list =
     [Fflags, Frm, Fcsr, Cycle, Time, Instret] @
     map Hpmcounter hpm_list"

text \<open>Supervisor registers.\<close>

datatype (plugins only: code size) SCSR =
    Sstatus | Sie | Stvec | Scounteren | Senvcfg | Sscratch | Sepc | Scause | Stval | Sip |
    Satp | Scontext

fun scsr_addr :: "SCSR \<Rightarrow> nat" where
  "scsr_addr Sstatus = 0x100"
| "scsr_addr Sie = 0x104"
| "scsr_addr Stvec = 0x105"
| "scsr_addr Scounteren = 0x106"
| "scsr_addr Senvcfg = 0x10A"
| "scsr_addr Sscratch = 0x140"
| "scsr_addr Sepc = 0x141"
| "scsr_addr Scause = 0x142"
| "scsr_addr Stval = 0x143"
| "scsr_addr Sip = 0x144"
| "scsr_addr Satp = 0x180"
| "scsr_addr Scontext = 0x5A8"

definition SCSR_list :: "SCSR list" where
  "SCSR_list =
     [
       Sstatus, Sie, Stvec, Scounteren, Senvcfg, Sscratch, Sepc, Scause, Stval, Sip, Satp,
       Scontext]"

text \<open>Hypervisor registers.\<close>

datatype (plugins only: code size) HCSR =
    Hstatus | Hedeleg | Hideleg | Hie | Hcounteren | Hgeie | Htval | Hip | Hvip | Htinst |
    Hgeip | Henvcfg | Hgatp | Hcontext | Htimedelta

fun hcsr_addr :: "HCSR \<Rightarrow> nat" where
  "hcsr_addr Hstatus = 0x600"
| "hcsr_addr Hedeleg = 0x602"
| "hcsr_addr Hideleg = 0x603"
| "hcsr_addr Hie = 0x604"
| "hcsr_addr Hcounteren = 0x606"
| "hcsr_addr Hgeie = 0x607"
| "hcsr_addr Htval = 0x643"
| "hcsr_addr Hip = 0x644"
| "hcsr_addr Hvip = 0x645"
| "hcsr_addr Htinst = 0x64A"
| "hcsr_addr Hgeip = 0xE12"
| "hcsr_addr Henvcfg = 0x60A"
| "hcsr_addr Hgatp = 0x680"
| "hcsr_addr Hcontext = 0x6A8"
| "hcsr_addr Htimedelta = 0x605"

definition HCSR_list :: "HCSR list" where
  "HCSR_list =
     [
       Hstatus, Hedeleg, Hideleg, Hie, Hcounteren, Hgeie, Htval, Hip, Hvip, Htinst, Hgeip,
       Henvcfg, Hgatp, Hcontext, Htimedelta]"

text \<open>Virtual supervisor registers.\<close>

datatype (plugins only: code size) VSCSR =
    Vsstatus | Vsie | Vstvec | Vsscratch | Vsepc | Vscause | Vstval | Vsip | Vsatp

fun vscsr_addr :: "VSCSR \<Rightarrow> nat" where
  "vscsr_addr Vsstatus = 0x200"
| "vscsr_addr Vsie = 0x204"
| "vscsr_addr Vstvec = 0x205"
| "vscsr_addr Vsscratch = 0x240"
| "vscsr_addr Vsepc = 0x241"
| "vscsr_addr Vscause = 0x242"
| "vscsr_addr Vstval = 0x243"
| "vscsr_addr Vsip = 0x244"
| "vscsr_addr Vsatp = 0x280"

definition VSCSR_list :: "VSCSR list" where
  "VSCSR_list =
     [Vsstatus, Vsie, Vstvec, Vsscratch, Vsepc, Vscause, Vstval, Vsip, Vsatp]"

text \<open>Machine registers; \<open>Pmpcfg i\<close> is \<open>pmpcfg\<close> number \<open>2 * i\<close>.\<close>

datatype (plugins only: code size) MCSR =
    Mvendorid | Marchid | Mimpid | Mhartid | Mconfigptr | Mstatus | Misa | Medeleg | Mideleg |
    Mie | Mtvec | Mcounteren | Mscratch | Mepc | Mcause | Mtval | Mip | Mtinst | Mtval2 |
    Menvcfg | Mseccfg | Pmpcfg "3 word" | Pmpaddr "6 word" | Mnscratch | Mnepc | Mncause |
    Mnstatus | Mcycle | Minstret | Mhpmcounter hpm | Mcountinhibit | Mhpmevent hpm

fun mcsr_addr :: "MCSR \<Rightarrow> nat" where
  "mcsr_addr Mvendorid = 0xF11"
| "mcsr_addr Marchid = 0xF12"
| "mcsr_addr Mimpid = 0xF13"
| "mcsr_addr Mhartid = 0xF14"
| "mcsr_addr Mconfigptr = 0xF15"
| "mcsr_addr Mstatus = 0x300"
| "mcsr_addr Misa = 0x301"
| "mcsr_addr Medeleg = 0x302"
| "mcsr_addr Mideleg = 0x303"
| "mcsr_addr Mie = 0x304"
| "mcsr_addr Mtvec = 0x305"
| "mcsr_addr Mcounteren = 0x306"
| "mcsr_addr Mscratch = 0x340"
| "mcsr_addr Mepc = 0x341"
| "mcsr_addr Mcause = 0x342"
| "mcsr_addr Mtval = 0x343"
| "mcsr_addr Mip = 0x344"
| "mcsr_addr Mtinst = 0x34A"
| "mcsr_addr Mtval2 = 0x34B"
| "mcsr_addr Menvcfg = 0x30A"
| "mcsr_addr Mseccfg = 0x747"
| "mcsr_addr (Pmpcfg i) = 0x3A0 + 2 * unat i"
| "mcsr_addr (Pmpaddr i) = 0x3B0 + unat i"
| "mcsr_addr Mnscratch = 0x740"
| "mcsr_addr Mnepc = 0x741"
| "mcsr_addr Mncause = 0x742"
| "mcsr_addr Mnstatus = 0x744"
| "mcsr_addr Mcycle = 0xB00"
| "mcsr_addr Minstret = 0xB02"
| "mcsr_addr (Mhpmcounter h) = 0xB00 + hpm_number h"
| "mcsr_addr Mcountinhibit = 0x320"
| "mcsr_addr (Mhpmevent h) = 0x320 + hpm_number h"

definition MCSR_list :: "MCSR list" where
  "MCSR_list =
     [
       Mvendorid, Marchid, Mimpid, Mhartid, Mconfigptr, Mstatus, Misa, Medeleg, Mideleg, Mie,
       Mtvec, Mcounteren, Mscratch, Mepc, Mcause, Mtval, Mip, Mtinst, Mtval2, Menvcfg, Mseccfg] @
     map (\<lambda>i. Pmpcfg (word_of_nat i)) [0..<8] @
     map (\<lambda>i. Pmpaddr (word_of_nat i)) [0..<64] @
     [Mnscratch, Mnepc, Mncause, Mnstatus, Mcycle, Minstret] @
     map Mhpmcounter hpm_list @
     [Mcountinhibit] @
     map Mhpmevent hpm_list"

text \<open>Debug and trace registers.\<close>

datatype (plugins only: code size) DCSR =
    Tselect | Tdata1 | Tdata2 | Tdata3 | Tcontrol | Mcontext | Dcsr | Dpc | Dscratch0 |
    Dscratch1

fun dcsr_addr :: "DCSR \<Rightarrow> nat" where
  "dcsr_addr Tselect = 0x7A0"
| "dcsr_addr Tdata1 = 0x7A1"
| "dcsr_addr Tdata2 = 0x7A2"
| "dcsr_addr Tdata3 = 0x7A3"
| "dcsr_addr Tcontrol = 0x7A5"
| "dcsr_addr Mcontext = 0x7A8"
| "dcsr_addr Dcsr = 0x7B0"
| "dcsr_addr Dpc = 0x7B1"
| "dcsr_addr Dscratch0 = 0x7B2"
| "dcsr_addr Dscratch1 = 0x7B3"

definition DCSR_list :: "DCSR list" where
  "DCSR_list =
     [Tselect, Tdata1, Tdata2, Tdata3, Tcontrol, Mcontext, Dcsr, Dpc, Dscratch0, Dscratch1]"

datatype CSRegister = CSR_U UCSR | CSR_S SCSR | CSR_H HCSR | CSR_VS VSCSR | CSR_M MCSR | CSR_D DCSR

text \<open>The discriminants of the enum: the 12-bit addresses of the registers.\<close>

fun csr_addr :: "CSRegister \<Rightarrow> nat" where
  "csr_addr (CSR_U r) = ucsr_addr r"
| "csr_addr (CSR_S r) = scsr_addr r"
| "csr_addr (CSR_H r) = hcsr_addr r"
| "csr_addr (CSR_VS r) = vscsr_addr r"
| "csr_addr (CSR_M r) = mcsr_addr r"
| "csr_addr (CSR_D r) = dcsr_addr r"

text \<open>\<open>CSRegister::iter()\<close>: the constructors in declaration order.\<close>

definition CSRegister_list :: "CSRegister list" where
  "CSRegister_list =
     map CSR_U UCSR_list @ map CSR_S SCSR_list @ map CSR_H HCSR_list @ map CSR_VS VSCSR_list @
     map CSR_M MCSR_list @ map CSR_D DCSR_list"

text \<open>\<open>CSRegister::try_from\<close>, the derived inverse of the discriminants.\<close>

definition csr_try_from :: "nat \<Rightarrow> CSRegister option" where
  "csr_try_from a = find (\<lambda>r. csr_addr r = a) CSRegister_list"

definition try_parse_csregister :: "u32 \<Rightarrow> CSRegister option" where
  "try_parse_csregister r = csr_try_from (unat r)"

abbreviation "csr_mstatus \<equiv> CSR_M Mstatus"
abbreviation "csr_sstatus \<equiv> CSR_S Sstatus"
abbreviation "csr_mip \<equiv> CSR_M Mip"
abbreviation "csr_sip \<equiv> CSR_S Sip"
abbreviation "csr_mie \<equiv> CSR_M Mie"
abbreviation "csr_sie \<equiv> CSR_S Sie"

section \<open>Privileges and access\<close>

definition in_ranges :: "nat \<Rightarrow> (nat \<times> nat) list \<Rightarrow> bool" where
  "in_ranges a rs \<longleftrightarrow> list_ex (\<lambda>(lo, hi). lo \<le> a \<and> a \<le> hi) rs"

text \<open>The match on the address; \<open>None\<close> is the arm that panics.\<close>

definition addr_privilege :: "nat \<Rightarrow> Privilege option" where
  "addr_privilege a =
     (if in_ranges a
         [(0x000, 0x0FF), (0x400, 0x4FF), (0x800, 0x8FF), (0xC00, 0xC7F), (0xC80, 0xCBF),
          (0xCC0, 0xCFF)]
      then Some Unprivileged
      else if in_ranges a
         [(0x100, 0x1FF), (0x500, 0x57F), (0x580, 0x5BF), (0x5C0, 0x5FF), (0x900, 0x97F),
          (0x980, 0x9BF), (0x9C0, 0x9FF), (0xD00, 0xD7F), (0xD80, 0xDBF), (0xDC0, 0xDFF)]
      then Some SupervisorPrivilege
      else if in_ranges a
         [(0x200, 0x2FF), (0x600, 0x67F), (0x680, 0x6BF), (0x6C0, 0x6FF), (0xA00, 0xA7F),
          (0xA80, 0xABF), (0xAC0, 0xAFF), (0xE00, 0xE7F), (0xE80, 0xEBF), (0xEC0, 0xEFF)]
      then Some HypervisorPrivilege
      else if in_ranges a
         [(0x300, 0x3FF), (0x700, 0x77F), (0x780, 0x79F), (0x7A0, 0x7AF), (0x7B0, 0x7BF),
          (0x7C0, 0x7FF), (0xB00, 0xB7F), (0xB80, 0xBBF), (0xBC0, 0xBFF), (0xF00, 0xF7F),
          (0xF80, 0xFBF), (0xFC0, 0xFFF)]
      then Some MachinePrivilege
      else None)"

definition csr_privilege :: "CSRegister \<Rightarrow> Privilege" where
  "csr_privilege r = the (addr_privilege (csr_addr r))"

definition is_read_only :: "CSRegister \<Rightarrow> bool" where
  "is_read_only r \<longleftrightarrow> shr (word_of_nat (csr_addr r) :: usize) 10 AND 3 = 3"

section \<open>Addresses\<close>

lemmas CSR_lists =
  UCSR_list_def SCSR_list_def HCSR_list_def VSCSR_list_def MCSR_list_def DCSR_list_def

lemma hpm_number_bounds: "3 \<le> hpm_number h \<and> hpm_number h \<le> 31"
  by (cases h) simp_all

lemma hpm_in_list [simp]: "h \<in> set hpm_list"
  by (cases h) (simp_all add: hpm_list_def)

lemma csr_addr_distinct: "distinct (map csr_addr CSRegister_list)"
  by (simp add: CSRegister_list_def CSR_lists hpm_list_def upt_rec)

lemma word_family_in_list:
  assumes "2 ^ LENGTH('a::len) = n"
  shows "C (i :: 'a word) \<in> (\<lambda>i. C (word_of_nat i)) ` {0..<n}"
proof
  show "C i = C (word_of_nat (unat i))" by simp
  show "unat i \<in> {0..<n}" using unsigned_less [of i, where 'a = nat] assms by simp
qed

lemma MCSR_in_list: "r \<in> set MCSR_list"
proof (cases r)
  case (Pmpcfg i)
  then show ?thesis
    using word_family_in_list [of 8 Pmpcfg i] by (simp add: MCSR_list_def)
next
  case (Pmpaddr i)
  then show ?thesis
    using word_family_in_list [of 64 Pmpaddr i] by (simp add: MCSR_list_def)
qed (simp_all add: MCSR_list_def)

lemma CSRegister_in_list [simp]: "r \<in> set CSRegister_list"
proof (cases r)
  case (CSR_U x)
  then show ?thesis by (cases x) (simp_all add: CSRegister_list_def UCSR_list_def)
next
  case (CSR_S x)
  then show ?thesis by (cases x) (simp_all add: CSRegister_list_def SCSR_list_def)
next
  case (CSR_H x)
  then show ?thesis by (cases x) (simp_all add: CSRegister_list_def HCSR_list_def)
next
  case (CSR_VS x)
  then show ?thesis by (cases x) (simp_all add: CSRegister_list_def VSCSR_list_def)
next
  case (CSR_M x)
  then show ?thesis using MCSR_in_list [of x] by (simp add: CSRegister_list_def)
next
  case (CSR_D x)
  then show ?thesis by (cases x) (simp_all add: CSRegister_list_def DCSR_list_def)
qed

lemma csr_addr_inj: "csr_addr r = csr_addr r' \<Longrightarrow> r = r'"
  using csr_addr_distinct by (meson CSRegister_in_list distinct_map inj_onD)

lemma csr_addr_eq_iff [simp]: "csr_addr r = csr_addr r' \<longleftrightarrow> r = r'"
  using csr_addr_inj by blast

lemma mcsr_addr_bound: "mcsr_addr r < 4096"
proof (cases r)
  case (Pmpcfg i)
  then show ?thesis using unsigned_less [of i, where 'a = nat] by simp
next
  case (Pmpaddr i)
  then show ?thesis using unsigned_less [of i, where 'a = nat] by simp
next
  case (Mhpmcounter h)
  then show ?thesis using hpm_number_bounds [of h] by simp
next
  case (Mhpmevent h)
  then show ?thesis using hpm_number_bounds [of h] by simp
qed simp_all

lemma csr_addr_bound: "csr_addr r < 4096"
proof (cases r)
  case (CSR_U x)
  then show ?thesis
  proof (cases x)
    case (Hpmcounter h)
    then show ?thesis using CSR_U hpm_number_bounds [of h] by simp
  qed simp_all
next
  case (CSR_S x)
  then show ?thesis by (cases x) simp_all
next
  case (CSR_H x)
  then show ?thesis by (cases x) simp_all
next
  case (CSR_VS x)
  then show ?thesis by (cases x) simp_all
next
  case (CSR_M x)
  then show ?thesis using mcsr_addr_bound by simp
next
  case (CSR_D x)
  then show ?thesis by (cases x) simp_all
qed

lemma csr_try_from_addr [simp]: "csr_try_from (csr_addr r) = Some r"
proof -
  obtain r' where "find (\<lambda>x. csr_addr x = csr_addr r) CSRegister_list = Some r'"
    by (cases "find (\<lambda>x. csr_addr x = csr_addr r) CSRegister_list") (auto simp: find_None_iff)
  then show ?thesis
    by (auto simp: csr_try_from_def find_Some_iff)
qed

lemma csr_try_from_Some: "csr_try_from a = Some r \<longleftrightarrow> csr_addr r = a"
proof
  assume "csr_try_from a = Some r"
  then show "csr_addr r = a"
    by (auto simp: csr_try_from_def find_Some_iff)
next
  assume "csr_addr r = a"
  then show "csr_try_from a = Some r"
    using csr_try_from_addr [of r] by simp
qed

lemma try_parse_csregister_addr: "try_parse_csregister (word_of_nat (csr_addr r)) = Some r"
  using csr_addr_bound [of r]
  by (simp add: try_parse_csregister_def unat_word_of_nat)

section \<open>The match on addresses is total\<close>

text \<open>The privilege of an address is its second hexadecimal digit modulo 4.\<close>

definition level_privilege :: "nat \<Rightarrow> Privilege" where
  "level_privilege l = [Unprivileged, SupervisorPrivilege, HypervisorPrivilege, MachinePrivilege] ! l"

lemma in_ranges_Nil [simp]: "\<not> in_ranges a []"
  by (simp add: in_ranges_def)

lemma in_ranges_adjacent:
  "lo \<le> hi \<Longrightarrow> lo' = Suc hi \<Longrightarrow> lo' \<le> hi' \<Longrightarrow>
     in_ranges a ((lo, hi) # (lo', hi') # rs) \<longleftrightarrow> in_ranges a ((lo, hi') # rs)"
  by (auto simp: in_ranges_def)

lemma in_ranges_page:
  assumes "lo mod 256 = 0" "hi = lo + 255"
  shows "in_ranges a ((lo, hi) # rs) \<longleftrightarrow> a div 256 = lo div 256 \<or> in_ranges a rs"
proof -
  from assms(1) obtain k where "lo = 256 * k" by auto
  then show ?thesis using assms(2) by (auto simp: in_ranges_def)
qed

lemma addr_privilege_level:
  assumes "a < 4096"
  shows "addr_privilege a = Some (level_privilege (a div 256 mod 4))"
proof -
  define q where "q = a div 256"
  have "q < 16"
    using assms by (simp add: q_def)
  then have "q \<in> {0, 1, 2, 3, 4, 5, 6, 7, 8, 9, 10, 11, 12, 13, 14, 15}"
    by (simp only: insert_iff empty_iff) arith
  moreover have "addr_privilege a =
     (if q \<in> {0, 4, 8, 12} then Some Unprivileged
      else if q \<in> {1, 5, 9, 13} then Some SupervisorPrivilege
      else if q \<in> {2, 6, 10, 14} then Some HypervisorPrivilege
      else if q \<in> {3, 7, 11, 15} then Some MachinePrivilege else None)"
    by (simp add: addr_privilege_def in_ranges_adjacent in_ranges_page flip: q_def)
  ultimately show ?thesis
    unfolding q_def [symmetric] by (elim insertE) (simp_all add: level_privilege_def)
qed

lemma addr_privilege_csr: "addr_privilege (csr_addr r) = Some (csr_privilege r)"
  by (simp add: csr_privilege_def addr_privilege_level csr_addr_bound)

lemma csr_privilege_level:
  "privilege_level (csr_privilege r) = csr_addr r div 256 mod 4"
proof -
  have "privilege_level (level_privilege l) = l" if "l < 4" for l
  proof -
    from that have "l = 0 \<or> l = 1 \<or> l = 2 \<or> l = 3" by auto
    then show ?thesis by (auto simp: level_privilege_def)
  qed
  then show ?thesis
    by (simp add: csr_privilege_def addr_privilege_level csr_addr_bound)
qed

lemma is_read_only_addr: "is_read_only r \<longleftrightarrow> 0xC00 \<le> csr_addr r"
proof -
  have b: "csr_addr r < 4096" by (rule csr_addr_bound)
  have u: "unat (word_of_nat (csr_addr r) :: usize) = csr_addr r"
    using b by (simp add: unat_word_of_nat)
  have "unat (shr (word_of_nat (csr_addr r) :: usize) 10 AND mask 2) = csr_addr r div 1024 mod 4"
    using u by (simp add: unat_and_mask shr_def unat_div drop_bit_eq_div)
  then have "is_read_only r \<longleftrightarrow> csr_addr r div 1024 mod 4 = 3"
    by (simp add: is_read_only_def mask_numerals word_unat_eq_iff)
  moreover have "csr_addr r div 1024 < 4"
    using b by simp
  moreover have "3 \<le> csr_addr r div 1024 \<longleftrightarrow> 0xC00 \<le> csr_addr r"
    by (simp add: less_eq_div_iff_mult_less_eq)
  ultimately show ?thesis by auto
qed

text \<open>Addresses are compared by their registers.\<close>

declare csr_addr.simps [simp del]

section \<open>Properties\<close>

text \<open>
  C38: every register parses back from its address, the match on address ranges covers every
  address of twelve bits, and agrees with the encoding of the privilege in bits 9:8; bits 11:10
  say whether the register is read-only.
\<close>

theorem csr_address_map:
  "try_parse_csregister (word_of_nat (csr_addr r)) = Some r \<and> csr_addr r < 4096 \<and>
   addr_privilege (csr_addr r) = Some (csr_privilege r) \<and>
   privilege_level (csr_privilege r) = csr_addr r div 256 mod 4 \<and>
   (is_read_only r \<longleftrightarrow> csr_addr r div 1024 = 3)"
proof -
  have "csr_addr r < 4096" by (rule csr_addr_bound)
  then have "csr_addr r div 1024 = 3 \<longleftrightarrow> 0xC00 \<le> csr_addr r" by linarith
  then show ?thesis
    using csr_addr_bound [of r]
    by (simp add: try_parse_csregister_addr addr_privilege_csr csr_privilege_level is_read_only_addr)
qed

end
