(* ===== verification/RV_Parser.thy ===== *)
theory RV_Parser
  imports RV_CSR_Enum
begin

text \<open>
  The instruction type (\<^verbatim>\<open>parser/instruction.rs\<close>) and the instruction parser (\<^verbatim>\<open>parser.rs\<close>).
  The constructors of \<open>Instr\<close> that share an argument type and a parser macro are grouped
  under one constructor with an operation code: \<open>Add(args)\<close> of the source is
  \<open>RType Add args\<close> here.
\<close>

unbundle bit_operations_syntax

section \<open>Instructions\<close>

record RTypeArgs =
  r_rd :: XRegister
  r_rs1 :: XRegister
  r_rs2 :: XRegister

record ITypeArgs =
  i_rd :: XRegister
  i_rs1 :: XRegister
  i_imm_arg :: i64

record SBTypeArgs =
  sb_rs1 :: XRegister
  sb_rs2 :: XRegister
  sb_imm :: i64

record UJTypeArgs =
  uj_rd :: XRegister
  uj_imm :: i64

record CsrArgs =
  csr_rd :: XRegister
  csr_rs1 :: XRegister
  csr_csr :: CSRegister

record CsriArgs =
  csri_rd :: XRegister
  csri_imm :: i64
  csri_csr :: CSRegister

record FenceSet =
  fence_i :: bool
  fence_o :: bool
  fence_r :: bool
  fence_w :: bool

record FenceArgs =
  fence_pred :: FenceSet
  fence_succ :: FenceSet

datatype r_op =
    Add | Sub | Xor | Or | And | Sll | Srl | Sra | Slt | Sltu
  | Addw | Subw | Sllw | Srlw | Sraw
  | Rem | Remu | Remw | Remuw

datatype i_op =
    Addi | Addiw | Xori | Ori | Andi | Slli | Srli | Srai | Slliw | Srliw | Sraiw | Slti | Sltiu

datatype load_op = Lb | Lh | Lw | Lbu | Lhu | Lwu | Ld

datatype store_op = Sb | Sh | Sw | Sd

datatype branch_op = Beq | Bne | Blt | Bge | Bltu | Bgeu

datatype csr_op = Csrrw | Csrrs | Csrrc

datatype csri_op = Csrrwi | Csrrsi | Csrrci

datatype (plugins only: code size) Instr =
    RType r_op RTypeArgs
  | IType i_op ITypeArgs
  | Load load_op ITypeArgs
  | Fence FenceArgs
  | FenceTso FenceArgs
  | Ecall
  | Ebreak
  | Store store_op SBTypeArgs
  | Branch branch_op SBTypeArgs
  | Lui UJTypeArgs
  | Auipc UJTypeArgs
  | Jal UJTypeArgs
  | Jalr ITypeArgs
  | Csr csr_op CsrArgs
  | Csri csri_op CsriArgs
  | FenceI
  | Mret
  | Sret
  | Mnret
  | Wfi
  | Unknown u32
  | UnknownCompressed u16

definition width :: "Instr \<Rightarrow> u64" where
  "width i = (case i of UnknownCompressed _ \<Rightarrow> 2 | _ \<Rightarrow> 4)"

section \<open>Fields of an encoded instruction\<close>

definition instr_bits :: "u32 \<Rightarrow> nat \<Rightarrow> nat \<Rightarrow> u32" where
  "instr_bits bytes pos n = shr bytes pos AND shr (NOT 0) (32 - n)"

definition instr_bit :: "u32 \<Rightarrow> nat \<Rightarrow> bool" where
  "instr_bit bytes pos \<longleftrightarrow> bytes AND shl 1 pos \<noteq> 0"

definition opcode :: "u32 \<Rightarrow> u32" where
  "opcode instr = instr_bits instr 0 7"

definition funct3 :: "u32 \<Rightarrow> u32" where
  "funct3 instr = instr_bits instr 12 3"

definition funct7 :: "u32 \<Rightarrow> u32" where
  "funct7 instr = instr_bits instr 25 7"

text \<open>\<open>parse_xregister\<close> panics outside 0..31, which \<open>reg_fields_parse\<close> below rules out.\<close>

definition instr_rd :: "u32 \<Rightarrow> XRegister" where
  "instr_rd instr = the (parse_xregister (instr_bits instr 7 5))"

definition rs1_bits :: "u32 \<Rightarrow> u32" where
  "rs1_bits instr = instr_bits instr 15 5"

definition instr_rs1 :: "u32 \<Rightarrow> XRegister" where
  "instr_rs1 instr = the (parse_xregister (rs1_bits instr))"

definition rs2_bits :: "u32 \<Rightarrow> u32" where
  "rs2_bits instr = instr_bits instr 20 5"

definition instr_rs2 :: "u32 \<Rightarrow> XRegister" where
  "instr_rs2 instr = the (parse_xregister (rs2_bits instr))"

definition imm_11_6 :: "u32 \<Rightarrow> u32" where
  "imm_11_6 instr = shl (instr_bits instr 26 6) 1"

definition fm :: "u32 \<Rightarrow> u32" where
  "fm instr = instr_bits instr 28 4"

definition instr_csr :: "u32 \<Rightarrow> CSRegister option" where
  "instr_csr instr = try_parse_csregister (instr_bits instr 20 12)"

definition i_imm :: "u32 \<Rightarrow> i64" where
  "i_imm instr = scast (sar (instr AND 0xFFF00000) 20)"

definition s_imm :: "u32 \<Rightarrow> i64" where
  "s_imm instr =
     (let instr_31_25 = instr AND 0xFE000000;
          instr_11_7 = instr AND 0x00000F80
      in scast (sar instr_31_25 20 OR sar instr_11_7 7))"

definition b_imm :: "u32 \<Rightarrow> i64" where
  "b_imm instr =
     (let instr_31 = instr AND 0x80000000;
          instr_7 = instr AND 0x00000080;
          instr_30_25 = instr AND 0x7E000000;
          instr_11_8 = instr AND 0x00000F00
      in scast (sar instr_31 19 OR shl instr_7 4 OR sar instr_30_25 20 OR sar instr_11_8 7))"

definition u_imm :: "u32 \<Rightarrow> i64" where
  "u_imm instr = scast (instr AND 0xFFFFF000)"

definition j_imm :: "u32 \<Rightarrow> i64" where
  "j_imm instr =
     (let instr_31 = instr AND 0x80000000;
          instr_19_12 = instr AND 0x000FF000;
          instr_20 = instr AND 0x00100000;
          instr_30_21 = instr AND 0x7FE00000
      in scast (sar instr_31 11 OR instr_19_12 OR sar instr_20 9 OR sar instr_30_21 20))"

section \<open>The parser\<close>

definition r_instr :: "r_op \<Rightarrow> u32 \<Rightarrow> Instr" where
  "r_instr v instr = RType v \<lparr>r_rd = instr_rd instr, r_rs1 = instr_rs1 instr, r_rs2 = instr_rs2 instr\<rparr>"

definition i_args :: "u32 \<Rightarrow> ITypeArgs" where
  "i_args instr = \<lparr>i_rd = instr_rd instr, i_rs1 = instr_rs1 instr, i_imm_arg = i_imm instr\<rparr>"

definition s_instr :: "store_op \<Rightarrow> u32 \<Rightarrow> Instr" where
  "s_instr v instr = Store v \<lparr>sb_rs1 = instr_rs1 instr, sb_rs2 = instr_rs2 instr, sb_imm = s_imm instr\<rparr>"

definition b_instr :: "branch_op \<Rightarrow> u32 \<Rightarrow> Instr" where
  "b_instr v instr = Branch v \<lparr>sb_rs1 = instr_rs1 instr, sb_rs2 = instr_rs2 instr, sb_imm = b_imm instr\<rparr>"

definition u_args :: "u32 \<Rightarrow> UJTypeArgs" where
  "u_args instr = \<lparr>uj_rd = instr_rd instr, uj_imm = u_imm instr\<rparr>"

definition j_args :: "u32 \<Rightarrow> UJTypeArgs" where
  "j_args instr = \<lparr>uj_rd = instr_rd instr, uj_imm = j_imm instr\<rparr>"

definition fence_args :: "u32 \<Rightarrow> FenceArgs" where
  "fence_args instr =
     \<lparr>fence_pred = \<lparr>fence_i = instr_bit instr 27, fence_o = instr_bit instr 26,
                    fence_r = instr_bit instr 25, fence_w = instr_bit instr 24\<rparr>,
      fence_succ = \<lparr>fence_i = instr_bit instr 23, fence_o = instr_bit instr 22,
                    fence_r = instr_bit instr 21, fence_w = instr_bit instr 20\<rparr>\<rparr>"

definition csr_instr :: "csr_op \<Rightarrow> u32 \<Rightarrow> Instr" where
  "csr_instr v instr =
     (case instr_csr instr of
        Some csr \<Rightarrow> Csr v \<lparr>csr_rd = instr_rd instr, csr_rs1 = instr_rs1 instr, csr_csr = csr\<rparr>
      | None \<Rightarrow> Unknown instr)"

definition csri_instr :: "csri_op \<Rightarrow> u32 \<Rightarrow> Instr" where
  "csri_instr v instr =
     (case instr_csr instr of
        Some csr \<Rightarrow>
          Csri v \<lparr>csri_rd = instr_rd instr, csri_imm = ucast (instr_bits instr 15 5), csri_csr = csr\<rparr>
      | None \<Rightarrow> Unknown instr)"

definition OP_ARITH :: u32 where "OP_ARITH = 0x33"
definition OP_ARITH_W :: u32 where "OP_ARITH_W = 0x3B"
definition OP_ARITH_I :: u32 where "OP_ARITH_I = 0x13"
definition OP_LOAD :: u32 where "OP_LOAD = 0x03"
definition OP_ARITH_IW :: u32 where "OP_ARITH_IW = 0x1B"
definition OP_SYNCH :: u32 where "OP_SYNCH = 0x0F"
definition OP_SYS :: u32 where "OP_SYS = 0x73"
definition OP_STORE :: u32 where "OP_STORE = 0x23"
definition OP_BRANCH :: u32 where "OP_BRANCH = 0x63"
definition OP_LUI :: u32 where "OP_LUI = 0x37"
definition OP_AUIPC :: u32 where "OP_AUIPC = 0x17"
definition OP_JAL :: u32 where "OP_JAL = 0x6F"
definition OP_JALR :: u32 where "OP_JALR = 0x67"

abbreviation F7_0 :: u32 where "F7_0 \<equiv> 0"
abbreviation F7_1 :: u32 where "F7_1 \<equiv> 1"
abbreviation F7_8 :: u32 where "F7_8 \<equiv> 0x08"
abbreviation F7_20 :: u32 where "F7_20 \<equiv> 0x20"
abbreviation F7_24 :: u32 where "F7_24 \<equiv> 0x18"
abbreviation F7_56 :: u32 where "F7_56 \<equiv> 0x38"

text \<open>The arms of the outer match, one definition for each opcode.\<close>

definition parse_arith :: "u32 \<Rightarrow> Instr" where
  "parse_arith instr =
     (let f3 = funct3 instr; f7 = funct7 instr in
      if f3 = 0 then
        (if f7 = F7_0 then r_instr Add instr
         else if f7 = F7_20 then r_instr Sub instr else Unknown instr)
      else if f3 = 4 then (if f7 = F7_0 then r_instr Xor instr else Unknown instr)
      else if f3 = 6 then
        (if f7 = F7_0 then r_instr Or instr
         else if f7 = F7_1 then r_instr Rem instr else Unknown instr)
      else if f3 = 7 then
        (if f7 = F7_0 then r_instr And instr
         else if f7 = F7_1 then r_instr Remu instr else Unknown instr)
      else if f3 = 1 then (if f7 = F7_0 then r_instr Sll instr else Unknown instr)
      else if f3 = 5 then
        (if f7 = F7_0 then r_instr Srl instr
         else if f7 = F7_20 then r_instr Sra instr else Unknown instr)
      else if f3 = 2 then (if f7 = F7_0 then r_instr Slt instr else Unknown instr)
      else if f3 = 3 then (if f7 = F7_0 then r_instr Sltu instr else Unknown instr)
      else Unknown instr)"

definition parse_arith_w :: "u32 \<Rightarrow> Instr" where
  "parse_arith_w instr =
     (let f3 = funct3 instr; f7 = funct7 instr in
      if f3 = 0 then
        (if f7 = F7_0 then r_instr Addw instr
         else if f7 = F7_20 then r_instr Subw instr else Unknown instr)
      else if f3 = 1 then r_instr Sllw instr
      else if f3 = 5 then
        (if f7 = F7_0 then r_instr Srlw instr
         else if f7 = F7_20 then r_instr Sraw instr else Unknown instr)
      else if f3 = 6 then (if f7 = F7_1 then r_instr Remw instr else Unknown instr)
      else if f3 = 7 then (if f7 = F7_1 then r_instr Remuw instr else Unknown instr)
      else Unknown instr)"

definition parse_arith_i :: "u32 \<Rightarrow> Instr" where
  "parse_arith_i instr =
     (let f3 = funct3 instr in
      if f3 = 0 then IType Addi (i_args instr)
      else if f3 = 4 then IType Xori (i_args instr)
      else if f3 = 6 then IType Ori (i_args instr)
      else if f3 = 7 then IType Andi (i_args instr)
      else if f3 = 1 then
        (if imm_11_6 instr = F7_0 then IType Slli (i_args instr) else Unknown instr)
      else if f3 = 5 then
        (if imm_11_6 instr = F7_0 then IType Srli (i_args instr)
         else if imm_11_6 instr = F7_20 then IType Srai (i_args instr) else Unknown instr)
      else if f3 = 2 then IType Slti (i_args instr)
      else if f3 = 3 then IType Sltiu (i_args instr)
      else Unknown instr)"

definition parse_load :: "u32 \<Rightarrow> Instr" where
  "parse_load instr =
     (let f3 = funct3 instr in
      if f3 = 0 then Load Lb (i_args instr)
      else if f3 = 1 then Load Lh (i_args instr)
      else if f3 = 2 then Load Lw (i_args instr)
      else if f3 = 3 then Load Ld (i_args instr)
      else if f3 = 4 then Load Lbu (i_args instr)
      else if f3 = 5 then Load Lhu (i_args instr)
      else if f3 = 6 then Load Lwu (i_args instr)
      else Unknown instr)"

definition parse_arith_iw :: "u32 \<Rightarrow> Instr" where
  "parse_arith_iw instr =
     (let f3 = funct3 instr in
      if f3 = 0 then IType Addiw (i_args instr)
      else if f3 = 1 then
        (if imm_11_6 instr = F7_0 then IType Slliw (i_args instr) else Unknown instr)
      else if f3 = 5 then
        (if imm_11_6 instr = F7_0 then IType Srliw (i_args instr)
         else if imm_11_6 instr = F7_20 then IType Sraiw (i_args instr) else Unknown instr)
      else Unknown instr)"

definition parse_synch :: "u32 \<Rightarrow> Instr" where
  "parse_synch instr =
     (let f3 = funct3 instr in
      if f3 = 0 then
        (if fm instr = 0 then Fence (fence_args instr)
         else if fm instr = 8 then FenceTso (fence_args instr) else Unknown instr)
      else if f3 = 1 then FenceI
      else Unknown instr)"

definition parse_sys :: "u32 \<Rightarrow> Instr" where
  "parse_sys instr =
     (let f3 = funct3 instr in
      if f3 = 0 then
        (if rs1_bits instr = 0 then
           (if rs2_bits instr = 0 \<and> funct7 instr = F7_0 then Ecall
            else if rs2_bits instr = 1 \<and> funct7 instr = F7_0 then Ebreak
            else if rs2_bits instr = 2 \<and> funct7 instr = F7_8 then Sret
            else if rs2_bits instr = 2 \<and> funct7 instr = F7_24 then Mret
            else if rs2_bits instr = 2 \<and> funct7 instr = F7_56 then Mnret
            else if rs2_bits instr = 5 \<and> funct7 instr = F7_8 then Wfi
            else Unknown instr)
         else Unknown instr)
      else if f3 = 1 then csr_instr Csrrw instr
      else if f3 = 2 then csr_instr Csrrs instr
      else if f3 = 3 then csr_instr Csrrc instr
      else if f3 = 5 then csri_instr Csrrwi instr
      else if f3 = 6 then csri_instr Csrrsi instr
      else if f3 = 7 then csri_instr Csrrci instr
      else Unknown instr)"

definition parse_store :: "u32 \<Rightarrow> Instr" where
  "parse_store instr =
     (let f3 = funct3 instr in
      if f3 = 0 then s_instr Sb instr
      else if f3 = 1 then s_instr Sh instr
      else if f3 = 2 then s_instr Sw instr
      else if f3 = 3 then s_instr Sd instr
      else Unknown instr)"

definition parse_branch :: "u32 \<Rightarrow> Instr" where
  "parse_branch instr =
     (let f3 = funct3 instr in
      if f3 = 0 then b_instr Beq instr
      else if f3 = 1 then b_instr Bne instr
      else if f3 = 4 then b_instr Blt instr
      else if f3 = 5 then b_instr Bge instr
      else if f3 = 6 then b_instr Bltu instr
      else if f3 = 7 then b_instr Bgeu instr
      else Unknown instr)"

definition parse_uncompressed_instruction :: "u32 \<Rightarrow> Instr" where
  "parse_uncompressed_instruction instr =
     (let op = opcode instr in
      if op = OP_ARITH then parse_arith instr
      else if op = OP_ARITH_W then parse_arith_w instr
      else if op = OP_ARITH_I then parse_arith_i instr
      else if op = OP_LOAD then parse_load instr
      else if op = OP_ARITH_IW then parse_arith_iw instr
      else if op = OP_SYNCH then parse_synch instr
      else if op = OP_SYS then parse_sys instr
      else if op = OP_STORE then parse_store instr
      else if op = OP_BRANCH then parse_branch instr
      else if op = OP_LUI then Lui (u_args instr)
      else if op = OP_AUIPC then Auipc (u_args instr)
      else if op = OP_JAL then Jal (j_args instr)
      else if op = OP_JALR then
        (if funct3 instr = 0 then Jalr (i_args instr) else Unknown instr)
      else Unknown instr)"

definition parse_compressed_instruction :: "u16 \<Rightarrow> Instr" where
  "parse_compressed_instruction bytes = UnknownCompressed bytes"

text \<open>The closure \<open>more\<close> has no effect on the state; its result is the argument \<open>more_bytes\<close>.\<close>

definition parse :: "u16 \<Rightarrow> 'e + u16 \<Rightarrow> 'e + Instr" where
  "parse bytes more_bytes =
     (if bytes AND 3 \<noteq> 3 then Inr (parse_compressed_instruction bytes)
      else case more_bytes of
             Inl e \<Rightarrow> Inl e
           | Inr upper \<Rightarrow>
               (let combined = shl (ucast upper) 16 OR ucast bytes
                in Inr (parse_uncompressed_instruction combined)))"

text \<open>The iterators, as functions of the remaining elements.\<close>

fun u16_iter_from_u8_iter :: "u8 list \<Rightarrow> u16 list" where
  "u16_iter_from_u8_iter (lower # upper # bytes) =
     from_le_bytes [lower, upper] # u16_iter_from_u8_iter bytes"
| "u16_iter_from_u8_iter _ = []"

fun instr_iter_from_u16_iter :: "u16 list \<Rightarrow> Instr list" where
  "instr_iter_from_u16_iter [] = []"
| "instr_iter_from_u16_iter (h # hs) =
     (if h AND 3 \<noteq> 3
      then (case parse h (Inl ()) of
              Inl _ \<Rightarrow> [] | Inr instr \<Rightarrow> instr # instr_iter_from_u16_iter hs)
      else case hs of
             [] \<Rightarrow> []
           | h' # hs' \<Rightarrow>
               (case parse h (Inr h' :: unit + u16) of
                  Inl _ \<Rightarrow> [] | Inr instr \<Rightarrow> instr # instr_iter_from_u16_iter hs'))"

definition parse_block :: "u8 list \<Rightarrow> Instr list" where
  "parse_block bytes = instr_iter_from_u16_iter (u16_iter_from_u8_iter bytes)"

text \<open>\<open>None\<close> is the panic of a slice range outside the contents.\<close>

definition parse_segment :: "u8 list \<Rightarrow> nat \<Rightarrow> nat \<Rightarrow> Instr list option" where
  "parse_segment contents lo hi =
     (if lo \<le> hi \<and> hi \<le> length contents
      then Some (parse_block (take (hi - lo) (drop lo contents))) else None)"

section \<open>Register fields and blocks\<close>

lemma reg_fields_parse: "\<exists>r. parse_xregister (instr_bits w p 5) = Some r"
proof (rule parse_xregister_total)
  have "shr (NOT 0 :: u32) 27 = 31" by (simp add: shr_def drop_bit_eq_div)
  then show "instr_bits w p 5 AND 31 = instr_bits w p 5" by (simp add: instr_bits_def and.assoc)
qed

text \<open>The bytes that a list of instructions takes up.\<close>

definition code_size :: "Instr list \<Rightarrow> nat" where
  "code_size is = sum_list (map (\<lambda>i. unat (width i)) is)"

lemma code_size_simps [simp]:
  "code_size [] = 0" "code_size (i # is) = unat (width i) + code_size is"
  by (simp_all add: code_size_def)

lemma not_compressed_parts:
  "parse_arith w \<noteq> UnknownCompressed h" "parse_arith_w w \<noteq> UnknownCompressed h"
  "parse_arith_i w \<noteq> UnknownCompressed h" "parse_load w \<noteq> UnknownCompressed h"
  "parse_arith_iw w \<noteq> UnknownCompressed h" "parse_synch w \<noteq> UnknownCompressed h"
  "parse_sys w \<noteq> UnknownCompressed h" "parse_store w \<noteq> UnknownCompressed h"
  "parse_branch w \<noteq> UnknownCompressed h"
  unfolding parse_arith_def parse_arith_w_def parse_arith_i_def parse_load_def parse_arith_iw_def
    parse_synch_def parse_sys_def parse_store_def parse_branch_def r_instr_def s_instr_def
    b_instr_def csr_instr_def csri_instr_def Let_def
  by (simp_all split: option.split)

lemma not_compressed: "parse_uncompressed_instruction w \<noteq> UnknownCompressed h"
  unfolding parse_uncompressed_instruction_def Let_def by (simp add: not_compressed_parts)

lemma width_parse:
  "width (parse_compressed_instruction h) = 2" "width (parse_uncompressed_instruction w) = 4"
  using not_compressed [of w]
  by (auto simp: width_def parse_compressed_instruction_def split: Instr.split)

lemma parse_block_step:
  "parse_block bs = [] \<and> length bs < 4 \<or>
   (\<exists>i. parse_block bs = i # parse_block (drop (unat (width i)) bs) \<and>
        0 < unat (width i) \<and> unat (width i) \<le> length bs)"
proof (cases bs rule: u16_iter_from_u8_iter.cases)
  case (1 l u bs')
  show ?thesis
  proof (cases bs' rule: u16_iter_from_u8_iter.cases)
    case (1 l' u' bs'')
    with \<open>bs = _\<close> show ?thesis
      by (simp add: parse_block_def parse_def Let_def width_parse)
  qed (use \<open>bs = _\<close> in \<open>simp_all add: parse_block_def parse_def width_parse\<close>)
qed (simp_all add: parse_block_def)

section \<open>Properties\<close>

text \<open>
  C37: parsing a block of code loses and invents no instruction boundary: parsing again from the
  offset of an instruction, which is the sum of the widths before it, gives the rest of the
  instructions, and the instructions cover the block up to an incomplete one at its end.
\<close>

theorem parse_block_offsets:
  "drop n (parse_block bs) = parse_block (drop (code_size (take n (parse_block bs))) bs) \<and>
   code_size (parse_block bs) \<le> length bs \<and> length bs < code_size (parse_block bs) + 4"
proof (induction "length bs" arbitrary: bs n rule: less_induct)
  case less
  show ?case
  proof (cases "parse_block bs = []")
    case True
    with parse_block_step [of bs] show ?thesis by auto
  next
    case False
    then obtain i where i: "parse_block bs = i # parse_block (drop (unat (width i)) bs)"
        "0 < unat (width i)" "unat (width i) \<le> length bs"
      using parse_block_step [of bs] by blast
    let ?ds = "drop (unat (width i)) bs"
    have "length ?ds < length bs" using i by simp
    from less [OF this, of "n - 1"] show ?thesis
      by (cases n) (use i in \<open>auto simp: add.commute\<close>)
  qed
qed

end
