(* ===== verification/RV_Loader.thy ===== *)
theory RV_Loader
  imports RV_Program RV_Parser
begin

text \<open>
  The ELF loader (\<^verbatim>\<open>kernel_loader/src/lib.rs\<close>) and the programs it builds
  (\<^verbatim>\<open>interpreter/src/program.rs\<close>). The parser of ELF files is the crate \<open>goblin\<close>, a parameter.
  The theory shows that loading keeps the invariant of the segments, and that loading headers
  with disjoint targets yields the bytes of the file followed by zeroes.
\<close>

section \<open>The ELF loader\<close>

record LoadResult =
  entry :: u64
  last_written :: u64

text \<open>What the loader reads of the ELF file, as \<open>goblin\<close> parses it.\<close>

record ProgramHeader =
  p_type :: u32
  p_offset :: u64
  p_vaddr :: u64
  p_paddr :: u64
  p_filesz :: u64
  p_memsz :: u64

record Reloc =
  r_offset :: u64
  r_addend :: "i64 option"
  r_type :: u32

record Elf =
  elf_entry :: u64
  e_type :: u16
  e_entry :: u64
  program_headers :: "ProgramHeader list"
  dynrelas :: "Reloc list"

record 'g goblin =
  g_parse :: "u8 list \<Rightarrow> 'g + Elf"
  g_file_range :: "ProgramHeader \<Rightarrow> nat \<times> nat"

definition PT_LOAD :: u32 where "PT_LOAD = 1"
definition ET_EXEC :: u16 where "ET_EXEC = 2"
definition ET_DYN :: u16 where "ET_DYN = 3"
definition R_RISCV_RELATIVE :: u32 where "R_RISCV_RELATIVE = 3"

datatype 'g load_error = WriteError u64 | GoblinError 'g

text \<open>Indexing a slice by a range panics outside the slice.\<close>

definition slice :: "u8 list \<Rightarrow> nat \<times> nat \<Rightarrow> ('e, u8 list) rust" where
  "slice bs r = (case r of (a, b) \<Rightarrow> if a \<le> b \<and> b \<le> length bs then Ok (take (b - a) (drop a bs)) else Panic)"

type_synonym ('e, 'm) memory_writer = "'m \<Rightarrow> u64 \<Rightarrow> u8 list \<Rightarrow> ('e, 'm) rust"

text \<open>A vector of more than \<open>isize::MAX\<close> bytes panics with a capacity overflow.\<close>

definition set_zero :: "('e, 'm) memory_writer \<Rightarrow> 'm \<Rightarrow> u64 \<Rightarrow> u64 \<Rightarrow> ('e, 'm) rust" where
  "set_zero wr mem paddr len =
     (if len \<le> 0x7FFFFFFFFFFFFFFF then wr mem paddr (replicate (unat len) 0) else Panic)"

text \<open>The body of the loop over the loadable segments, with the target address \<open>base\<close>.\<close>

definition load_segment ::
  "('g load_error, 'm) memory_writer \<Rightarrow> 'g goblin \<Rightarrow> u8 list \<Rightarrow> u64 \<Rightarrow> 'm \<Rightarrow> ProgramHeader \<Rightarrow>
     ('g load_error, 'm) rust" where
  "load_segment wr g contents base mem segment =
     rbind (slice contents (g_file_range g segment)) (\<lambda>bytes.
     rbind (wr mem base bytes) (\<lambda>mem.
       if p_memsz segment > p_filesz segment
       then set_zero wr mem (base + p_filesz segment) (p_memsz segment - p_filesz segment)
       else Ok mem))"

fun load_segments ::
  "('g load_error, 'm) memory_writer \<Rightarrow> 'g goblin \<Rightarrow> u8 list \<Rightarrow> (ProgramHeader \<Rightarrow> u64) \<Rightarrow>
     ProgramHeader list \<Rightarrow> 'm \<Rightarrow> u64 \<Rightarrow> ('g load_error, 'm \<times> u64) rust" where
  "load_segments wr g contents base [] mem lw = Ok (mem, lw)"
| "load_segments wr g contents base (seg # segs) mem lw =
     rbind (load_segment wr g contents (base seg) mem seg) (\<lambda>mem.
       load_segments wr g contents base segs mem (base seg + p_memsz seg))"

definition loadable :: "Elf \<Rightarrow> ProgramHeader list" where
  "loadable elf = filter (\<lambda>h. p_type h = PT_LOAD) (program_headers elf)"

definition load_elf_nonreloc ::
  "('g load_error, 'm) memory_writer \<Rightarrow> 'g goblin \<Rightarrow> 'm \<Rightarrow> Elf \<Rightarrow> u8 list \<Rightarrow>
     ('g load_error, LoadResult \<times> 'm) rust" where
  "load_elf_nonreloc wr g mem elf contents =
     rbind (load_segments wr g contents p_paddr (loadable elf) mem 0) (\<lambda>(mem, lw).
       Ok (\<lparr>entry = elf_entry elf, last_written = lw\<rparr>, mem))"

definition mem_size :: "ProgramHeader list \<Rightarrow> u64" where
  "mem_size phs =
     (let phs = filter (\<lambda>h. p_type h = PT_LOAD) phs
      in if phs = [] then 0
         else Max (set (map (\<lambda>h. p_vaddr h + p_memsz h) phs)) - Min (set (map p_vaddr phs)))"

fun relocate ::
  "('g load_error, 'm) memory_writer \<Rightarrow> u64 \<Rightarrow> Reloc list \<Rightarrow> 'm \<Rightarrow> ('g load_error, 'm) rust" where
  "relocate wr start [] mem = Ok mem"
| "relocate wr start (r # rs) mem =
     (if r_type r = R_RISCV_RELATIVE then
        (let relocated = to_le_bytes (start + (case r_addend r of Some a \<Rightarrow> a | None \<Rightarrow> 0))
         in rbind (wr mem (start + r_offset r) relocated) (relocate wr start rs))
      else Panic)"

definition load_elf_reloc ::
  "('g load_error, 'm) memory_writer \<Rightarrow> 'g goblin \<Rightarrow> 'm \<Rightarrow> u64 \<Rightarrow> Elf \<Rightarrow> u8 list \<Rightarrow>
     ('g load_error, LoadResult \<times> 'm) rust" where
  "load_elf_reloc wr g mem start elf contents =
     rbind (load_segments wr g contents (\<lambda>h. start + p_vaddr h) (loadable elf) mem start)
       (\<lambda>(mem, lw).
     rbind (relocate wr start (dynrelas elf) mem) (\<lambda>mem.
       Ok (\<lparr>entry = e_entry elf + start, last_written = lw\<rparr>, mem)))"

definition load_elf ::
  "('g load_error, 'm) memory_writer \<Rightarrow> 'g goblin \<Rightarrow> 'm \<Rightarrow> u64 \<Rightarrow> u8 list \<Rightarrow>
     ('g load_error, LoadResult \<times> 'm) rust" where
  "load_elf wr g mem start contents =
     (case g_parse g contents of
        Inl e \<Rightarrow> Err (GoblinError e)
      | Inr elf \<Rightarrow>
          if e_type elf = ET_EXEC then load_elf_nonreloc wr g mem elf contents
          else if e_type elf = ET_DYN then load_elf_reloc wr g mem start elf contents
          else Panic)"

section \<open>Programs\<close>

record program =
  entrypoint :: Address
  prog_segments :: segments

definition from_elf :: "nat \<Rightarrow> 'g goblin \<Rightarrow> u8 list \<Rightarrow> ('g load_error, program) rust" where
  "from_elf bytes g elf =
     rbind (load_elf write_bytes g [] (start_of_main_memory bytes) elf) (\<lambda>(result, segs).
       Ok \<lparr>entrypoint = entry result, prog_segments = segs\<rparr>)"

definition from_raw :: "nat \<Rightarrow> u8 list \<Rightarrow> program" where
  "from_raw bytes code =
     (let entrypoint = start_of_main_memory bytes
      in \<lparr>entrypoint = entrypoint, prog_segments = [(entrypoint, code)]\<rparr>)"

text \<open>The addresses and instructions that \<open>parsed\<close> prints; printing itself is not modelled.\<close>

fun instr_addresses :: "u64 \<Rightarrow> Instr list \<Rightarrow> (u64 \<times> Instr) list" where
  "instr_addresses address [] = []"
| "instr_addresses address (i # is) = (address, i) # instr_addresses (address + width i) is"

definition parsed :: "program \<Rightarrow> u64 \<rightharpoonup> Instr" where
  "parsed p =
     fold (\<lambda>(a, bs) m. fold (\<lambda>(addr, i) m. m(addr \<mapsto> i)) (instr_addresses a (parse_block bs)) m)
       (prog_segments p) Map.empty"

section \<open>Loading keeps the invariant\<close>

text \<open>What the loader asks of a memory: writes keep its invariant.\<close>

locale loader_memory =
  fixes wr :: "('g load_error, 'm) memory_writer"
    and inv :: "'m \<Rightarrow> bool"
  assumes wr_inv: "inv mem \<Longrightarrow> length bs < 2 ^ 64 \<Longrightarrow> wr mem a bs = Ok mem' \<Longrightarrow> inv mem'"
begin

lemma load_segment_inv:
  assumes "inv mem" "length contents < 2 ^ 64" "load_segment wr g contents base mem h = Ok mem'"
  shows "inv mem'"
proof -
  have "unat w < 2 ^ 64" for w :: u64 using unsigned_less [of w, where 'a = nat] by simp
  with assms show ?thesis
    by (auto simp: load_segment_def slice_def set_zero_def split: if_splits prod.splits
        elim!: wr_inv [rotated -1])
qed

lemma load_segments_inv:
  "inv mem \<Longrightarrow> length contents < 2 ^ 64 \<Longrightarrow>
   load_segments wr g contents base hs mem lw = Ok (mem', lw') \<Longrightarrow> inv mem'"
  by (induction hs arbitrary: mem lw) (auto dest: load_segment_inv)

lemma relocate_inv:
  "inv mem \<Longrightarrow> relocate wr start rs mem = Ok mem' \<Longrightarrow> inv mem'"
  by (induction rs arbitrary: mem) (auto split: if_splits dest!: wr_inv [rotated 2])

lemma load_elf_inv:
  assumes "inv mem" "length contents < 2 ^ 64" "load_elf wr g mem start contents = Ok (r, mem')"
  shows "inv mem'"
  using assms
  by (auto simp: load_elf_def load_elf_nonreloc_def load_elf_reloc_def split: sum.splits if_splits
      dest: load_segments_inv relocate_inv)

end

interpretation program_memory: loader_memory write_bytes segs_wf
  by unfold_locales (rule write_bytes_wf)

lemma from_elf_wf:
  assumes "length elf < 2 ^ 64" "from_elf bytes g elf = Ok p"
  shows "segs_wf (prog_segments p)"
proof -
  have "segs_wf []" by (simp add: segs_wf_def)
  with assms show ?thesis
    by (auto simp: from_elf_def dest: program_memory.load_elf_inv)
qed

section \<open>Loading puts the file into the image\<close>

text \<open>The documented meaning of \<open>ProgramHeader::file_range\<close>, where the range is one of \<open>usize\<close>.\<close>

definition goblin_spec :: "'g goblin \<Rightarrow> bool" where
  "goblin_spec g \<longleftrightarrow>
     (\<forall>h. unat (p_offset h) + unat (p_filesz h) < 2 ^ 64 \<longrightarrow>
        g_file_range g h = (unat (p_offset h), unat (p_offset h) + unat (p_filesz h)))"

text \<open>
  A header whose file range is in the file, whose target does not wrap around and whose padding is a
  vector that can exist.
\<close>

definition header_ok :: "u8 list \<Rightarrow> u64 \<Rightarrow> ProgramHeader \<Rightarrow> bool" where
  "header_ok contents base h \<longleftrightarrow>
     unat (p_offset h) + unat (p_filesz h) \<le> length contents \<and>
     unat (p_offset h) + unat (p_filesz h) < 2 ^ 64 \<and>
     p_filesz h \<le> p_memsz h \<and> p_memsz h - p_filesz h \<le> 0x7FFFFFFFFFFFFFFF \<and>
     unat base + unat (p_memsz h) < 2 ^ 64"

definition in_target :: "u64 \<Rightarrow> ProgramHeader \<Rightarrow> nat \<Rightarrow> bool" where
  "in_target base h x \<longleftrightarrow> unat base \<le> x \<and> x < unat base + unat (p_memsz h)"

definition target_byte :: "u8 list \<Rightarrow> u64 \<Rightarrow> ProgramHeader \<Rightarrow> nat \<Rightarrow> u8" where
  "target_byte contents base h x =
     (if x - unat base < unat (p_filesz h) then contents ! (unat (p_offset h) + (x - unat base)) else 0)"

lemma load_segment_image:
  assumes wf: "segs_wf mem" and g: "goblin_spec g" and h: "header_ok contents base h"
    and fresh: "\<And>x. in_target base h x \<Longrightarrow> image_at mem x = None"
  obtains mem' where "load_segment write_bytes g contents base mem h = Ok mem'" "segs_wf mem'"
    "\<And>x. image_at mem' x =
       (if in_target base h x then Some (target_byte contents base h x) else image_at mem x)"
proof -
  let ?n = "unat (p_filesz h)" and ?o = "unat (p_offset h)" and ?m = "unat (p_memsz h)"
  define bytes where "bytes = take ?n (drop ?o contents)"
  have len: "length bytes = ?n" "?n \<le> ?m" "unat base + ?m < 2 ^ 64" "?o + ?n \<le> length contents"
    "?o + ?n < 2 ^ 64" "p_memsz h - p_filesz h \<le> 0x7FFFFFFFFFFFFFFF"
    using h by (auto simp: bytes_def header_ok_def word_le_nat_alt)
  have sl: "slice contents (g_file_range g h) = (Ok bytes :: ('a load_error, u8 list) rust)"
    using g len by (simp add: goblin_spec_def slice_def bytes_def)
  obtain m1 where m1: "write_bytes mem base bytes = (Ok m1 :: ('a load_error, segments) rust)" "segs_wf m1"
    "\<And>x. image_at m1 x = (if unat base \<le> x \<and> x < unat base + length bytes
        then Some (bytes ! (x - unat base)) else image_at mem x)"
    using write_bytes_fresh [OF wf, of base bytes] fresh len by (auto simp: in_target_def)
  have byte: "bytes ! (x - unat base) = target_byte contents base h x"
    if "unat base \<le> x" "x < unat base + ?n" for x
    using that len by (auto simp: bytes_def target_byte_def)
  show thesis
  proof (cases "p_filesz h < p_memsz h")
    case False
    then have "?n = ?m" using len(2) by (simp add: word_less_nat_alt)
    with False sl m1 byte len show thesis
      by (intro that [of m1]) (auto simp: load_segment_def in_target_def)
  next
    case True
    let ?b = "base + p_filesz h"
    define zs where "zs = replicate (unat (p_memsz h - p_filesz h)) (0 :: u8)"
    have z: "length zs = ?m - ?n" "unat ?b = unat base + ?n"
      using True len by (simp_all add: zs_def unat_sub less_imp_le unat_plus_if')
    have nw: "unat ?b + length zs < 2 ^ 64" using len z by simp
    have fr: "image_at m1 x = None" if "unat ?b \<le> x" "x < unat ?b + length zs" for x
      using that len fresh m1(3) z by (simp add: in_target_def)
    obtain m2 where m2: "write_bytes m1 ?b zs = (Ok m2 :: ('a load_error, segments) rust)" "segs_wf m2"
      "\<And>x. image_at m2 x = (if unat ?b \<le> x \<and> x < unat ?b + length zs
          then Some (zs ! (x - unat ?b)) else image_at m1 x)"
      using write_bytes_fresh [OF m1(2) nw fr] by blast
    have "image_at m2 x =
       (if in_target base h x then Some (target_byte contents base h x) else image_at mem x)" for x
    proof (cases "unat ?b \<le> x \<and> x < unat ?b + length zs")
      case True
      then have "x - unat ?b < length zs" by linarith
      then have "zs ! (x - unat ?b) = 0" by (simp add: zs_def)
      with True m2(3) z len show ?thesis by (auto simp: in_target_def target_byte_def)
    next
      case False
      then have "image_at m2 x = image_at m1 x" using m2(3) by auto
      with False m1(3) z len byte show ?thesis by (auto simp: in_target_def)
    qed
    then show thesis
      using True sl m1(1) m2(1,2) len(6)
      by (intro that [of m2]) (auto simp: load_segment_def set_zero_def zs_def)
  qed
qed

text \<open>Headers with pairwise disjoint targets.\<close>

fun headers_ok :: "u8 list \<Rightarrow> (ProgramHeader \<Rightarrow> u64) \<Rightarrow> ProgramHeader list \<Rightarrow> bool" where
  "headers_ok contents base [] \<longleftrightarrow> True"
| "headers_ok contents base (h # hs) \<longleftrightarrow>
     header_ok contents (base h) h \<and>
     list_all (\<lambda>h'. unat (base h) + unat (p_memsz h) \<le> unat (base h') \<or>
                    unat (base h') + unat (p_memsz h') \<le> unat (base h)) hs \<and>
     headers_ok contents base hs"

definition file_image :: "u8 list \<Rightarrow> (ProgramHeader \<Rightarrow> u64) \<Rightarrow> ProgramHeader list \<Rightarrow> nat \<Rightarrow> u8 option" where
  "file_image contents base hs x =
     map_option (\<lambda>h. target_byte contents (base h) h x) (find (\<lambda>h. in_target (base h) h x) hs)"

lemma load_segments_image:
  assumes "segs_wf mem" "goblin_spec g" "headers_ok contents base hs"
    and "\<And>x h. h \<in> set hs \<Longrightarrow> in_target (base h) h x \<Longrightarrow> image_at mem x = None"
  shows "\<exists>mem' lw'. load_segments write_bytes g contents base hs mem lw = Ok (mem', lw') \<and>
     segs_wf mem' \<and>
     (\<forall>x. image_at mem' x =
        (case file_image contents base hs x of Some b \<Rightarrow> Some b | None \<Rightarrow> image_at mem x))"
  using assms
proof (induction hs arbitrary: mem lw)
  case (Cons h hs)
  obtain m1 where m1: "load_segment write_bytes g contents (base h) mem h = Ok m1" "segs_wf m1"
    "\<And>x. image_at m1 x =
       (if in_target (base h) h x then Some (target_byte contents (base h) h x) else image_at mem x)"
    using load_segment_image [OF Cons.prems(1,2), of contents "base h" h] Cons.prems(3,4) by auto
  have fresh: "image_at m1 x = None" if "h' \<in> set hs" "in_target (base h') h' x" for x h'
    using that Cons.prems(3,4) m1(3) by (auto simp: list_all_iff in_target_def)
  obtain m2 lw2 where m2:
    "load_segments write_bytes g contents base hs m1 (base h + p_memsz h) = Ok (m2, lw2)" "segs_wf m2"
    "\<forall>x. image_at m2 x =
        (case file_image contents base hs x of Some b \<Rightarrow> Some b | None \<Rightarrow> image_at m1 x)"
    using Cons.IH [OF m1(2) Cons.prems(2)] Cons.prems(3) fresh by (meson headers_ok.simps(2))
  have "file_image contents base hs x = None" if "in_target (base h) h x" for x
    using that Cons.prems(3)
    by (auto simp: file_image_def find_None_iff list_all_iff in_target_def)
  with m1 m2 show ?case
    by (auto simp: file_image_def split: option.split)
qed (simp add: file_image_def)

section \<open>Properties\<close>

lemma from_elf_loads:
  assumes "goblin_spec g" "g_parse g contents = Inr elf" "e_type elf = ET_EXEC"
    and "headers_ok contents p_paddr (loadable elf)"
  shows "\<exists>p. from_elf bytes g contents = Ok p \<and> entrypoint p = elf_entry elf \<and>
     segs_wf (prog_segments p) \<and>
     (\<forall>x. image_at (prog_segments p) x = file_image contents p_paddr (loadable elf) x)"
proof -
  have "segs_wf []" "\<And>x. image_at [] x = None" by (simp_all add: segs_wf_def image_at_def)
  with load_segments_image [OF _ assms(1,4), of "[]" 0] obtain mem lw where
    "load_segments write_bytes g contents p_paddr (loadable elf) [] 0 = Ok (mem, lw)" "segs_wf mem"
    "\<forall>x. image_at mem x = file_image contents p_paddr (loadable elf) x"
    by (auto simp: option.case_eq_if split: option.splits)
  with assms(2,3) show ?thesis
    by (auto simp: from_elf_def load_elf_def load_elf_nonreloc_def)
qed

text \<open>
  C8: loading an executable whose loadable headers lie in the file and have disjoint targets, none
  with more than \<open>isize::MAX\<close> bytes of padding, succeeds. The program starts at the entry point of the file, its segments are sorted and
  disjoint, and their image is exactly that of the headers: the bytes of the file, then zeroes.
\<close>

theorem from_elf_image:
  assumes "goblin_spec g" "g_parse g contents = Inr elf" "e_type elf = ET_EXEC"
    and "headers_ok contents p_paddr (loadable elf)"
  shows "\<exists>p. from_elf bytes g contents = Ok p \<and> entrypoint p = elf_entry elf \<and>
     segs_wf (prog_segments p) \<and>
     (\<forall>x. image_at (prog_segments p) x = file_image contents p_paddr (loadable elf) x)"
  using assms by (rule from_elf_loads)

definition sample_elf :: Elf where
  "sample_elf =
     \<lparr>elf_entry = 0x80000000, e_type = ET_EXEC, e_entry = 0x80000000,
      program_headers = [\<lparr>p_type = PT_LOAD, p_offset = 1, p_vaddr = 0, p_paddr = 0x80000000,
                          p_filesz = 2, p_memsz = 4\<rparr>], dynrelas = []\<rparr>"

definition sample_goblin :: "unit goblin" where
  "sample_goblin =
     \<lparr>g_parse = \<lambda>_. Inr sample_elf,
      g_file_range = \<lambda>h. (unat (p_offset h), unat (p_offset h) + unat (p_filesz h))\<rparr>"

theorem from_elf_image_witness:
  "\<exists>p. from_elf 1024 sample_goblin [0, 5, 6] = Ok p \<and> entrypoint p = elf_entry sample_elf \<and>
     segs_wf (prog_segments p) \<and>
     (\<forall>x. image_at (prog_segments p) x = file_image [0, 5, 6] p_paddr (loadable sample_elf) x)"
  by (rule from_elf_image)
     (simp_all add: goblin_spec_def sample_goblin_def sample_elf_def loadable_def header_ok_def)

text \<open>
  Whatever the file contains, relocations included, a program that is built from it has
  sorted and disjoint segments that do not wrap around.
\<close>

lemma from_elf_segments:
  assumes "length elf < 2 ^ 64" "from_elf bytes g elf = Ok p"
  shows "segs_wf (prog_segments p)"
  using assms by (rule from_elf_wf)

end
