(* ===== verification/RV_CSRegisters.thy ===== *)
theory RV_CSRegisters
  imports RV_CSR_Enum
begin

text \<open>
  The rules and the file of the control and status registers
  (\<^verbatim>\<open>machine_state/csregisters.rs\<close>): WPRI masks, WLRL values, WARL transformations, default
  values, access checks, and the 4096-element register file with the shadow registers
  \<open>sstatus\<close>, \<open>sip\<close> and \<open>sie\<close>. The invariant \<open>csr_wf\<close> says that every register holds a
  value its own rules accept unchanged; resetting establishes it and every operation keeps it.
\<close>

unbundle bit_operations_syntax

section \<open>Reserved bits (WPRI)\<close>

abbreviation MXLEN :: nat where "MXLEN \<equiv> 64"
abbreviation SXLEN :: nat where "SXLEN \<equiv> MXLEN"

definition MXL_ENCODING :: CSRValue where
  "MXL_ENCODING = 2"

definition WPRI_MASK_EMPTY :: CSRValue where
  "WPRI_MASK_EMPTY = - 1"

definition WPRI_MASK_MSTATUS :: CSRValue where
  "WPRI_MASK_MSTATUS =
     NOT (shl (ones 1) 0 OR shl (ones 1) 2 OR shl (ones 1) 4 OR shl (ones 9) 23 OR shl (ones 25) 38)"

definition WPRI_MASK_MENVCFG :: CSRValue where
  "WPRI_MASK_MENVCFG = NOT (shl (ones 3) 1 OR shl (ones 54) 8)"

definition WPRI_MASK_MSECCFG :: CSRValue where
  "WPRI_MASK_MSECCFG = NOT (shl (ones 5) 3 OR shl (ones (MXLEN - 10)) 10)"

definition WPRI_MASK_SSTATUS :: CSRValue where
  "WPRI_MASK_SSTATUS =
     NOT (shl (ones 1) 0 OR shl (ones 3) 2 OR shl (ones 1) 7 OR shl (ones 2) 11 OR
          shl (ones 1) 17 OR shl (ones 12) 20 OR shl (ones 29) 34)"

definition WPRI_MASK_SENVCFG :: CSRValue where
  "WPRI_MASK_SENVCFG = NOT (shl (ones 3) 1 OR shl (ones (SXLEN - 8)) 8)"

definition WPRI_MASK_MNCAUSE :: CSRValue where
  "WPRI_MASK_MNCAUSE = NOT (shl (ones 1) (MXLEN - 1))"

definition WPRI_MASK_MNSTATUS :: CSRValue where
  "WPRI_MASK_MNSTATUS =
     NOT (shl (ones 3) 0 OR shl (ones 3) 4 OR shl (ones 3) 8 OR shl (ones (MXLEN - 13)) 13)"

definition wpri_mask :: "CSRegister \<Rightarrow> CSRValue" where
  "wpri_mask reg =
     (if reg = CSR_M Mstatus then WPRI_MASK_MSTATUS
      else if reg = CSR_M Menvcfg then WPRI_MASK_MENVCFG
      else if reg = CSR_M Mseccfg then WPRI_MASK_MSECCFG
      else if reg = CSR_S Sstatus then WPRI_MASK_SSTATUS
      else if reg = CSR_S Senvcfg then WPRI_MASK_SENVCFG
      else if reg = CSR_M Mncause then WPRI_MASK_MNCAUSE
      else if reg = CSR_M Mnstatus then WPRI_MASK_MNSTATUS
      else WPRI_MASK_EMPTY)"

definition clear_wpri_fields :: "CSRegister \<Rightarrow> CSRValue \<Rightarrow> CSRValue" where
  "clear_wpri_fields reg new_value = new_value AND wpri_mask reg"

section \<open>Legal values (WLRL)\<close>

definition INTERRUPT_BIT :: CSRValue where
  "INTERRUPT_BIT = shl 1 63"

definition WLRL_MCAUSE_VALUES :: "CSRValue list" where
  "WLRL_MCAUSE_VALUES =
     [INTERRUPT_BIT OR 1, INTERRUPT_BIT OR 3, INTERRUPT_BIT OR 5, INTERRUPT_BIT OR 7,
      INTERRUPT_BIT OR 9, INTERRUPT_BIT OR 11,
      0, 1, 2, 3, 4, 5, 6, 7, 8, 9, 11, 12, 13, 15]"

definition WLRL_SCAUSE_VALUES :: "CSRValue list" where
  "WLRL_SCAUSE_VALUES =
     [INTERRUPT_BIT OR 1, INTERRUPT_BIT OR 5, INTERRUPT_BIT OR 9,
      0, 1, 2, 3, 4, 5, 6, 7, 8, 9, 12, 13, 15]"

definition legal_values :: "CSRegister \<Rightarrow> CSRValue list" where
  "legal_values reg =
     (if reg = CSR_M Mcause then WLRL_MCAUSE_VALUES
      else if reg = CSR_S Scause then WLRL_SCAUSE_VALUES
      else [])"

definition is_legal :: "CSRegister \<Rightarrow> CSRValue \<Rightarrow> bool" where
  "is_legal reg new_value \<longleftrightarrow>
     (let legal = legal_values reg in legal = [] \<or> List.member legal new_value)"

section \<open>Transformed values (WARL)\<close>

definition WARL_MISA_VALUE :: CSRValue where
  "WARL_MISA_VALUE =
     shl MXL_ENCODING 62 OR shl 1 0 OR shl 1 2 OR shl 1 3 OR shl 1 5 OR shl 1 5 OR shl 1 8 OR
     shl 1 12 OR shl 1 18 OR shl 1 20"

definition WARL_MASK_MEDELEG :: CSRValue where
  "WARL_MASK_MEDELEG =
     NOT (shl (ones 1) 10 OR shl (ones 1) 11 OR shl (ones 1) 14 OR shl (ones (MXLEN - 16)) 16)"

definition WARL_MASK_MIDELEG :: CSRValue where
  "WARL_MASK_MIDELEG =
     NOT (shl (ones 1) 0 OR shl (ones 1) 2 OR shl (ones 1) 4 OR shl (ones 1) 6 OR shl (ones 1) 8 OR
          shl (ones 1) 10 OR shl (ones 4) 12 OR shl (ones (MXLEN - 16)) 16)"

definition WARL_MASK_XTVEC :: CSRValue where
  "WARL_MASK_XTVEC = NOT (shl (ones 1) 1)"

definition WARL_MASK_MIP_MIE :: CSRValue where
  "WARL_MASK_MIP_MIE = MACHINE_BIT_MASK OR SUPERVISOR_BIT_MASK"

definition WARL_MASK_SIP_SIE :: CSRValue where
  "WARL_MASK_SIP_SIE = SUPERVISOR_BIT_MASK"

definition WARL_MASK_XEPC :: CSRValue where
  "WARL_MASK_XEPC = NOT 1"

fun satp_warl :: "CSRValue \<Rightarrow> TranslationAlgorithm option \<Rightarrow> CSRValue option" where
  "satp_warl new_value None = None"
| "satp_warl new_value (Some (Sv _)) = Some new_value"
| "satp_warl new_value (Some Bare) = Some satp_DEFAULT_VALUE"

definition transform_warl_fields :: "CSRegister \<Rightarrow> CSRValue \<Rightarrow> CSRValue option" where
  "transform_warl_fields reg new_value =
     (if reg = CSR_M Misa then Some WARL_MISA_VALUE
      else if reg = CSR_M Medeleg then Some (new_value AND WARL_MASK_MEDELEG)
      else if reg = CSR_M Mideleg then Some (new_value AND WARL_MASK_MIDELEG)
      else if reg = CSR_M Mtvec \<or> reg = CSR_S Stvec then Some (new_value AND WARL_MASK_XTVEC)
      else if reg = CSR_M Mip \<or> reg = CSR_M Mie then Some (new_value AND WARL_MASK_MIP_MIE)
      else if reg = CSR_S Sip \<or> reg = CSR_S Sie then Some (new_value AND WARL_MASK_SIP_SIE)
      else if reg = CSR_M Mepc \<or> reg = CSR_S Sepc \<or> reg = CSR_M Mnepc
        then Some (new_value AND WARL_MASK_XEPC)
      else if reg = CSR_S Satp then satp_warl new_value (get_MODE new_value)
      else if reg = CSR_M Mstatus then Some (apply_warl_mstatus new_value)
      else if reg = CSR_S Sstatus then Some (apply_warl_sstatus new_value)
      else if reg = CSR_M Mnstatus then Some (apply_warl_mnstatus new_value)
      else Some new_value)"

definition make_value_writable :: "CSRegister \<Rightarrow> CSRValue \<Rightarrow> CSRValue option" where
  "make_value_writable reg value =
     (let value = clear_wpri_fields reg value in
      case transform_warl_fields reg value of
        None \<Rightarrow> None
      | Some value \<Rightarrow> if is_legal reg value then Some value else None)"

section \<open>Default values\<close>

definition default_mstatus :: CSRValue where
  "default_mstatus =
     (let mstatus = 0;
          mstatus = set_SIE mstatus False;
          mstatus = set_MIE mstatus False;
          mstatus = set_SPIE mstatus False;
          mstatus = set_MPIE mstatus False;
          mstatus = set_SPP mstatus SPP_Supervisor;
          mstatus = set_MPP mstatus MPP_Supervisor;
          mstatus = set_UBE mstatus False;
          mstatus = set_SBE mstatus False;
          mstatus = set_MBE mstatus False;
          mstatus = set_VS mstatus ExtInitial;
          mstatus = set_FS mstatus ExtInitial;
          mstatus = set_XS mstatus ExtInitial;
          mstatus = set_SD mstatus False;
          mstatus = set_UXL mstatus MXL64;
          mstatus = set_SXL mstatus MXL64;
          mstatus = set_MPRV mstatus False;
          mstatus = set_SUM mstatus True;
          mstatus = set_MXR mstatus False;
          mstatus = set_TVM mstatus False;
          mstatus = set_TW mstatus False
      in set_TSR mstatus False)"

definition default_ucsr :: "UCSR \<Rightarrow> u64" where
  "default_ucsr r =
     (case r of
        Cycle \<Rightarrow> 0 | Time \<Rightarrow> 0 | Instret \<Rightarrow> 0 | Hpmcounter _ \<Rightarrow> 0
      | Fflags \<Rightarrow> 0 | Frm \<Rightarrow> 0 | Fcsr \<Rightarrow> 0 AND shl 0 5)"

definition default_scsr :: "SCSR \<Rightarrow> u64" where
  "default_scsr r =
     (case r of
        Scounteren \<Rightarrow> ones 32 | Sscratch \<Rightarrow> 0
      | Sstatus \<Rightarrow> sstatus_from_mstatus default_mstatus
      | Stvec \<Rightarrow> 0 | Sie \<Rightarrow> 0 | Satp \<Rightarrow> satp_DEFAULT_VALUE
      | Scause \<Rightarrow> 0 | Sepc \<Rightarrow> 0 | Stval \<Rightarrow> 0 | Sip \<Rightarrow> 0 | Senvcfg \<Rightarrow> 0 | Scontext \<Rightarrow> 0)"

definition default_mcsr :: "MCSR \<Rightarrow> u64" where
  "default_mcsr r =
     (case r of
        Mnscratch \<Rightarrow> 0 | Mnepc \<Rightarrow> 0
      | Mnstatus \<Rightarrow> apply_warl_mnstatus 0
      | Mncause \<Rightarrow> shl (ones 1) 31
      | Mcycle \<Rightarrow> 0 | Minstret \<Rightarrow> 0 | Mhpmcounter _ \<Rightarrow> 0 | Mhpmevent _ \<Rightarrow> 0
      | Mcountinhibit \<Rightarrow> 0 | Mcounteren \<Rightarrow> ones 32
      | Pmpcfg _ \<Rightarrow> 0 | Pmpaddr _ \<Rightarrow> 0
      | Mhartid \<Rightarrow> 0 | Mvendorid \<Rightarrow> 0 | Marchid \<Rightarrow> 0 | Mimpid \<Rightarrow> 0
      | Misa \<Rightarrow> WARL_MISA_VALUE | Mscratch \<Rightarrow> 0
      | Mstatus \<Rightarrow> default_mstatus
      | Mtvec \<Rightarrow> 0 | Mie \<Rightarrow> 0 | Mcause \<Rightarrow> 0 | Mepc \<Rightarrow> 0 | Mtval \<Rightarrow> 0 | Mtval2 \<Rightarrow> 0 | Mip \<Rightarrow> 0
      | Mtinst \<Rightarrow> 0 | Menvcfg \<Rightarrow> 0 | Mconfigptr \<Rightarrow> 0
      | Medeleg \<Rightarrow> ones MXLEN | Mideleg \<Rightarrow> ones MXLEN
      | Mseccfg \<Rightarrow> 0)"

text \<open>The debug, hypervisor and virtual supervisor extensions are unsupported; all start at 0.\<close>

fun default_value :: "CSRegister \<Rightarrow> u64" where
  "default_value (CSR_U r) = default_ucsr r"
| "default_value (CSR_S r) = default_scsr r"
| "default_value (CSR_H r) = 0"
| "default_value (CSR_VS r) = 0"
| "default_value (CSR_M r) = default_mcsr r"
| "default_value (CSR_D r) = 0"

section \<open>Access checks\<close>

definition check_privilege :: "CSRegister \<Rightarrow> Mode \<Rightarrow> RException + unit" where
  "check_privilege reg mode =
     (if privilege_level (mode_privilege mode) < privilege_level (csr_privilege reg)
      then Inl IllegalInstruction else Inr ())"

definition check_write :: "CSRegister \<Rightarrow> RException + unit" where
  "check_write reg = (if is_read_only reg then Inl IllegalInstruction else Inr ())"

section \<open>The register file\<close>

type_synonym csregisters = "CSRValue region"

definition transform_write :: "csregisters \<Rightarrow> CSRegister \<Rightarrow> CSRValue \<Rightarrow> CSRegister \<times> CSRValue" where
  "transform_write cs reg value =
     (if reg = CSR_S Sstatus then
        let mstatus = region_read cs (csr_addr (CSR_M Mstatus));
            sstatus_only = sstatus_from_mstatus value;
            mstatus_only = mstatus AND NOT SSTATUS_FIELDS_MASK
        in (CSR_M Mstatus, sstatus_only OR mstatus_only)
      else if reg = CSR_S Sip then
        let mip = region_read cs (csr_addr (CSR_M Mip));
            sip_only = value AND WARL_MASK_SIP_SIE;
            mip_only = mip AND NOT WARL_MASK_SIP_SIE
        in (CSR_M Mip, sip_only OR mip_only)
      else if reg = CSR_S Sie then
        let mie = region_read cs (csr_addr (CSR_M Mie));
            sie_only = value AND WARL_MASK_SIP_SIE;
            mie_only = mie AND NOT WARL_MASK_SIP_SIE
        in (CSR_M Mie, sie_only OR mie_only)
      else (reg, value))"

text \<open>The register that holds the ground truth of a possibly shadowed register.\<close>

definition shadow_source :: "CSRegister \<Rightarrow> CSRegister" where
  "shadow_source reg =
     (if reg = CSR_S Sstatus then CSR_M Mstatus
      else if reg = CSR_S Sip then CSR_M Mip
      else if reg = CSR_S Sie then CSR_M Mie
      else reg)"

definition transform_read :: "csregisters \<Rightarrow> CSRegister \<Rightarrow> CSRValue option \<Rightarrow> CSRValue" where
  "transform_read cs reg source_reg_value =
     (let source_reg_value =
            (case source_reg_value of
               Some v \<Rightarrow> v
             | None \<Rightarrow> region_read cs (csr_addr (shadow_source reg)))
      in if reg = CSR_S Sstatus then sstatus_from_mstatus source_reg_value
         else if reg = CSR_S Sip then source_reg_value AND WARL_MASK_SIP_SIE
         else if reg = CSR_S Sie then source_reg_value AND WARL_MASK_SIP_SIE
         else source_reg_value)"

definition csr_write :: "csregisters \<Rightarrow> CSRegister \<Rightarrow> CSRValue \<Rightarrow> csregisters" where
  "csr_write cs reg value =
     (case make_value_writable reg value of
        Some value \<Rightarrow>
          (let (reg, value) = transform_write cs reg value
           in region_write cs (csr_addr reg) value)
      | None \<Rightarrow> cs)"

definition csr_read :: "csregisters \<Rightarrow> CSRegister \<Rightarrow> CSRValue" where
  "csr_read cs reg = transform_read cs reg None"

definition csr_replace :: "csregisters \<Rightarrow> CSRegister \<Rightarrow> CSRValue \<Rightarrow> CSRValue \<times> csregisters" where
  "csr_replace cs reg value =
     (case make_value_writable reg value of
        Some value \<Rightarrow>
          (let (upd_reg, value) = transform_write cs reg value;
               (old_value, cs') = region_replace cs (csr_addr upd_reg) value
           in (transform_read cs' reg (Some old_value), cs'))
      | None \<Rightarrow> (csr_read cs reg, cs))"

definition csr_set_bits :: "csregisters \<Rightarrow> CSRegister \<Rightarrow> CSRValue \<Rightarrow> CSRValue \<times> csregisters" where
  "csr_set_bits cs reg bits =
     (let old_value = csr_read cs reg;
          new_value = old_value OR bits
      in (old_value, csr_write cs reg new_value))"

definition csr_clear_bits :: "csregisters \<Rightarrow> CSRegister \<Rightarrow> CSRValue \<Rightarrow> CSRValue \<times> csregisters" where
  "csr_clear_bits cs reg bits =
     (let old_value = csr_read cs reg;
          new_value = old_value AND NOT bits
      in (old_value, csr_write cs reg new_value))"

definition possible_interrupts :: "csregisters \<Rightarrow> Mode \<Rightarrow> CSRValue" where
  "possible_interrupts cs current_mode =
     (let mstatus = csr_read cs (CSR_M Mstatus);
          ie_machine = (if get_MIE mstatus then csr_read cs (CSR_M Mie) else 0);
          ie_supervisor = (if get_SIE mstatus then csr_read cs (CSR_S Sie) else 0)
      in case current_mode of
           User \<Rightarrow> SUPERVISOR_BIT_MASK OR MACHINE_BIT_MASK
         | Supervisor \<Rightarrow> ie_supervisor OR MACHINE_BIT_MASK
         | Machine \<Rightarrow> ie_machine)"

definition get_trap_mode :: "twiddle \<Rightarrow> csregisters \<Rightarrow> trap_source \<Rightarrow> Mode \<Rightarrow> TrapMode" where
  "get_trap_mode tw cs trap_source current_mode =
     (if mode_le current_mode Supervisor then
        (let deleg = (case trap_kind trap_source of
                        KindInterrupt \<Rightarrow> CSR_M Mideleg
                      | KindException \<Rightarrow> CSR_M Medeleg);
             deleg_val = csr_read cs deleg
         in if tw_bit tw deleg_val (unat (exception_code trap_source))
            then TrapSupervisor else TrapMachine)
      else TrapMachine)"

definition get_trap_handler :: "csregisters \<Rightarrow> trap_source \<Rightarrow> TrapMode \<Rightarrow> Address" where
  "get_trap_handler cs trap_source trap_mode =
     (let xtvec = csr_read cs
                    (case trap_mode of TrapSupervisor \<Rightarrow> CSR_S Stvec | TrapMachine \<Rightarrow> CSR_M Mtvec)
      in trap_handler_address trap_source xtvec)"

definition csregisters_reset :: "csregisters \<Rightarrow> csregisters" where
  "csregisters_reset cs =
     fold (\<lambda>reg cs. csr_write cs reg (default_value reg)) CSRegister_list
       (fold (\<lambda>i r. region_write r i 0) [0..<4096] cs)"

section \<open>The masks\<close>

lemmas mask_defs = ones_def shl_def shr_def field_mask_def mask_eq_exp_minus_1

lemma WPRI_MASK_MSTATUS_eq: "WPRI_MASK_MSTATUS = MSTATUS_FIELDS_MASK"
  by (simp add: WPRI_MASK_MSTATUS_def MSTATUS_FIELDS_MASK_def SSTATUS_FIELDS_MASK_def mask_defs)

lemma WPRI_MASK_SSTATUS_eq: "WPRI_MASK_SSTATUS = SSTATUS_FIELDS_MASK"
  by (simp add: WPRI_MASK_SSTATUS_def SSTATUS_FIELDS_MASK_def mask_defs)

lemma WPRI_MASK_MNSTATUS_eq: "WPRI_MASK_MNSTATUS = 0x1888"
  by (simp add: WPRI_MASK_MNSTATUS_def mask_defs)

lemma default_mstatus_eq: "default_mstatus = 0xA0004AB00"
  by (simp add: default_mstatus_def set_field_def mask_defs bool_raw_bits_def)

section \<open>Writable values\<close>

text \<open>A value a register accepts unchanged.\<close>

definition csr_accepts :: "CSRegister \<Rightarrow> CSRValue \<Rightarrow> bool" where
  "csr_accepts reg v \<longleftrightarrow> make_value_writable reg v = Some v"

lemmas writable_defs =
  make_value_writable_def clear_wpri_fields_def wpri_mask_def transform_warl_fields_def
  is_legal_def legal_values_def WPRI_MASK_EMPTY_def Let_def

lemma csr_accepts_mstatus: "csr_accepts (CSR_M Mstatus) v \<longleftrightarrow> mstatus_legal v"
proof -
  have w: "make_value_writable (CSR_M Mstatus) v =
             Some (apply_warl_mstatus (v AND MSTATUS_FIELDS_MASK))"
    by (simp add: writable_defs WPRI_MASK_MSTATUS_eq)
  show ?thesis
  proof
    assume "csr_accepts (CSR_M Mstatus) v"
    with w have "v = apply_warl_mstatus (v AND MSTATUS_FIELDS_MASK)"
      by (simp add: csr_accepts_def)
    then show "mstatus_legal v"
      using apply_warl_mstatus_legal [of v] by simp
  next
    assume "mstatus_legal v"
    with w show "csr_accepts (CSR_M Mstatus) v"
      using apply_warl_mstatus_legal_id [of v] by (simp add: csr_accepts_def mstatus_legal_def)
  qed
qed

lemma sstatus_writable:
  "make_value_writable (CSR_S Sstatus) v = Some (apply_warl_sstatus (v AND SSTATUS_FIELDS_MASK))"
  by (simp add: writable_defs WPRI_MASK_SSTATUS_eq)

lemma mnstatus_writable:
  "make_value_writable (CSR_M Mnstatus) v = Some (apply_warl_mnstatus (v AND WPRI_MASK_MNSTATUS))"
  by (simp add: writable_defs)

lemma satp_mode_default [simp]: "get_MODE satp_DEFAULT_VALUE = Some Bare"
  by (simp add: satp_DEFAULT_VALUE_def get_field_def TranslationAlgorithm_new_def mask_defs)

lemma satp_writable:
  "make_value_writable (CSR_S Satp) v = satp_warl v (get_MODE v)"
  by (simp add: writable_defs split: option.split)

lemma apply_warl_sstatus_idem:
  "apply_warl_sstatus (apply_warl_sstatus (v AND SSTATUS_FIELDS_MASK) AND SSTATUS_FIELDS_MASK) =
   apply_warl_sstatus (v AND SSTATUS_FIELDS_MASK)" (is "apply_warl_sstatus (?w AND _) = _")
proof -
  have "?w AND SSTATUS_FIELDS_MASK = ?w"
    unfolding and_eq_self_iff
    by (simp add: bit_apply_warl_sstatus bit_and_iff bit_SSTATUS_FIELDS_MASK)
  moreover have "status_dirty ?w = status_dirty (v AND SSTATUS_FIELDS_MASK)"
    by (rule status_dirty_cong) (auto simp: bit_apply_warl_sstatus)
  ultimately show ?thesis
    by (intro bit_word_eqI) (simp add: bit_apply_warl_sstatus)
qed

lemma apply_warl_mnstatus_idem:
  "apply_warl_mnstatus (apply_warl_mnstatus (v AND WPRI_MASK_MNSTATUS) AND WPRI_MASK_MNSTATUS) =
   apply_warl_mnstatus (v AND WPRI_MASK_MNSTATUS)" (is "apply_warl_mnstatus (?w AND _) = _")
proof -
  have m: "bit WPRI_MASK_MNSTATUS n \<longleftrightarrow> n \<in> {3, 7, 11, 12}" if "n < 64" for n
    using that unfolding WPRI_MASK_MNSTATUS_def
    by (simp add: bit_simps shl_def) arith
  have "?w AND WPRI_MASK_MNSTATUS = ?w"
    unfolding and_eq_self_iff
    by (simp add: bit_apply_warl_mnstatus bit_and_iff m)
  then show ?thesis
    by (intro bit_word_eqI) (auto simp: bit_apply_warl_mnstatus)
qed

text \<open>The rules are idempotent: a value that a write would store is accepted unchanged.\<close>

lemma make_value_writable_accepts:
  assumes "make_value_writable reg v = Some w"
  shows "csr_accepts reg w"
proof -
  consider "reg = CSR_M Mstatus" | "reg = CSR_S Sstatus" | "reg = CSR_M Mnstatus"
    | "reg = CSR_S Satp"
    | "reg \<notin> {CSR_M Mstatus, CSR_S Sstatus, CSR_M Mnstatus, CSR_S Satp}" by blast
  then show ?thesis
  proof cases
    case 1
    with assms have "w = apply_warl_mstatus (v AND MSTATUS_FIELDS_MASK)"
      by (simp add: writable_defs WPRI_MASK_MSTATUS_eq)
    with 1 show ?thesis by (simp add: csr_accepts_mstatus apply_warl_mstatus_legal)
  next
    case 2
    with assms show ?thesis
      by (auto simp: csr_accepts_def sstatus_writable apply_warl_sstatus_idem)
  next
    case 3
    with assms show ?thesis
      by (auto simp: csr_accepts_def mnstatus_writable apply_warl_mnstatus_idem)
  next
    case 4
    with assms show ?thesis
      by (cases "(v, get_MODE v)" rule: satp_warl.cases) (auto simp: csr_accepts_def satp_writable)
  next
    case 5
    with assms show ?thesis
      by (auto simp: csr_accepts_def writable_defs and.assoc split: if_splits)
  qed
qed

section \<open>Shadow registers\<close>

text \<open>The view of the source register that reading \<open>reg\<close> gives.\<close>

definition shadow_view :: "CSRegister \<Rightarrow> CSRValue \<Rightarrow> CSRValue" where
  "shadow_view reg v =
     (if reg = CSR_S Sstatus then v AND SSTATUS_FIELDS_MASK
      else if reg = CSR_S Sip \<or> reg = CSR_S Sie then v AND WARL_MASK_SIP_SIE else v)"

definition is_shadow :: "CSRegister \<Rightarrow> bool" where
  "is_shadow reg \<longleftrightarrow> reg \<in> {CSR_S Sstatus, CSR_S Sip, CSR_S Sie}"

lemma csr_read_view: "csr_read cs reg = shadow_view reg (cs (csr_addr (shadow_source reg)))"
  by (simp add: csr_read_def transform_read_def shadow_view_def sstatus_from_mstatus_def
      region_read_def)

lemma shadow_source_id [simp]: "\<not> is_shadow reg \<Longrightarrow> shadow_source reg = reg"
  by (auto simp: shadow_source_def is_shadow_def)

lemma shadow_view_id [simp]: "\<not> is_shadow reg \<Longrightarrow> shadow_view reg v = v"
  by (auto simp: shadow_view_def is_shadow_def)

lemma shadow_source_eq:
  "shadow_source reg = reg' \<Longrightarrow> reg \<noteq> reg' \<Longrightarrow>
     is_shadow reg \<and> reg' \<in> {CSR_M Mstatus, CSR_M Mip, CSR_M Mie}"
  by (auto simp: shadow_source_def is_shadow_def split: if_splits)

lemma shadow_source_not_shadow [simp]: "\<not> is_shadow (shadow_source reg)"
  by (auto simp: shadow_source_def is_shadow_def)

text \<open>The value that a write of the legal value \<open>w\<close> stores in the source register.\<close>

definition shadow_store :: "CSRegister \<Rightarrow> CSRValue \<Rightarrow> CSRValue \<Rightarrow> CSRValue" where
  "shadow_store reg old w =
     (if reg = CSR_S Sstatus
      then (w AND SSTATUS_FIELDS_MASK) OR (old AND NOT SSTATUS_FIELDS_MASK)
      else if reg = CSR_S Sip \<or> reg = CSR_S Sie
      then (w AND WARL_MASK_SIP_SIE) OR (old AND NOT WARL_MASK_SIP_SIE)
      else w)"

lemma transform_write_store:
  "transform_write cs reg w =
     (shadow_source reg, shadow_store reg (cs (csr_addr (shadow_source reg))) w)"
  by (simp add: transform_write_def shadow_source_def shadow_store_def sstatus_from_mstatus_def
      region_read_def Let_def)

lemma shadow_store_id [simp]: "\<not> is_shadow reg \<Longrightarrow> shadow_store reg old w = w"
  by (auto simp: shadow_store_def is_shadow_def)

lemma csr_write_store:
  "csr_write cs reg v =
     (case make_value_writable reg v of
        None \<Rightarrow> cs
      | Some w \<Rightarrow> cs(csr_addr (shadow_source reg) :=
                       shadow_store reg (cs (csr_addr (shadow_source reg))) w))"
  by (simp add: csr_write_def transform_write_store region_write_def split: option.split)

lemma csr_write_other:
  "a \<noteq> csr_addr (shadow_source reg) \<Longrightarrow> csr_write cs reg v a = cs a"
  by (simp add: csr_write_store split: option.split)

lemma csr_read_write_other:
  "shadow_source r' \<noteq> shadow_source r \<Longrightarrow> csr_read (csr_write cs r v) r' = csr_read cs r'"
  by (simp add: csr_read_view csr_write_other)

lemma sip_sie_legal_parts:
  "csr_accepts (CSR_S Sip) v \<longleftrightarrow> v AND WARL_MASK_SIP_SIE = v"
  "csr_accepts (CSR_S Sie) v \<longleftrightarrow> v AND WARL_MASK_SIP_SIE = v"
  "csr_accepts (CSR_M Mip) v \<longleftrightarrow> v AND WARL_MASK_MIP_MIE = v"
  "csr_accepts (CSR_M Mie) v \<longleftrightarrow> v AND WARL_MASK_MIP_MIE = v"
  by (simp_all add: csr_accepts_def writable_defs)

lemma sip_sie_subset: "bit WARL_MASK_SIP_SIE n \<Longrightarrow> bit WARL_MASK_MIP_MIE n"
  by (simp add: WARL_MASK_SIP_SIE_def WARL_MASK_MIP_MIE_def bit_or_iff)

lemma mask_fix_merge:
  fixes w old m k :: u64
  assumes "\<And>n. bit m n \<Longrightarrow> bit k n" "old AND k = old"
  shows "((w AND m) OR (old AND NOT m)) AND k = (w AND m) OR (old AND NOT m)"
  using assms unfolding and_eq_self_iff by (auto simp: bit_simps)

text \<open>What a write stores is a legal value of the source register \dots\<close>

lemma shadow_store_accepts:
  assumes "make_value_writable reg v = Some w" "csr_accepts (shadow_source reg) old"
  shows "csr_accepts (shadow_source reg) (shadow_store reg old w)"
proof -
  consider "reg = CSR_S Sstatus" | "reg = CSR_S Sip" | "reg = CSR_S Sie" | "\<not> is_shadow reg"
    by (auto simp: is_shadow_def)
  then show ?thesis
  proof cases
    case 1
    with assms show ?thesis
      by (auto simp: shadow_source_def shadow_store_def csr_accepts_mstatus sstatus_writable
          shadow_write_legal)
  next
    case 2
    with assms show ?thesis
      by (auto simp: shadow_source_def shadow_store_def sip_sie_legal_parts
          intro!: mask_fix_merge sip_sie_subset)
  next
    case 3
    with assms show ?thesis
      by (auto simp: shadow_source_def shadow_store_def sip_sie_legal_parts
          intro!: mask_fix_merge sip_sie_subset)
  next
    case 4
    with assms make_value_writable_accepts show ?thesis by simp
  qed
qed

lemma sstatus_view_legal:
  assumes "mstatus_legal v"
  shows "csr_accepts (CSR_S Sstatus) (v AND SSTATUS_FIELDS_MASK)"
proof -
  have "status_dirty (v AND SSTATUS_FIELDS_MASK) = status_dirty v"
    by (rule status_dirty_cong) (auto simp: bit_and_iff bit_SSTATUS_FIELDS_MASK)
  then have "apply_warl_sstatus (v AND SSTATUS_FIELDS_MASK) = v AND SSTATUS_FIELDS_MASK"
    using assms
    by (intro bit_word_eqI)
       (auto simp: bit_apply_warl_sstatus bit_and_iff bit_SSTATUS_FIELDS_MASK mstatus_legal_def)
  then show ?thesis
    by (simp add: csr_accepts_def sstatus_writable and.assoc)
qed

text \<open>\dots and its views are legal values of the shadow registers.\<close>

lemma shadow_view_accepts:
  assumes "csr_accepts (shadow_source reg) v"
  shows "csr_accepts reg (shadow_view reg v)"
proof -
  consider "reg = CSR_S Sstatus" | "reg = CSR_S Sip \<or> reg = CSR_S Sie" | "\<not> is_shadow reg"
    by (auto simp: is_shadow_def)
  then show ?thesis
  proof cases
    case 1
    with assms show ?thesis
      by (simp add: shadow_source_def shadow_view_def csr_accepts_mstatus sstatus_view_legal)
  next
    case 2
    then show ?thesis by (auto simp: shadow_view_def sip_sie_legal_parts and.assoc)
  next
    case 3
    with assms show ?thesis by simp
  qed
qed

lemma shadow_view_store:
  "shadow_view reg (shadow_store reg old w) = shadow_view reg w"
  by (rule bit_word_eqI) (auto simp: shadow_view_def shadow_store_def bit_simps)

lemma shadow_store_view: "shadow_store reg old (shadow_view reg old) = old"
  by (rule bit_word_eqI) (auto simp: shadow_view_def shadow_store_def bit_simps)

section \<open>The invariant\<close>

definition csr_wf :: "csregisters \<Rightarrow> bool" where
  "csr_wf cs \<longleftrightarrow> list_all (\<lambda>r. csr_accepts r (csr_read cs r)) CSRegister_list"

lemma csr_wf_iff: "csr_wf cs \<longleftrightarrow> (\<forall>r. csr_accepts r (csr_read cs r))"
  by (auto simp: csr_wf_def list_all_iff)

lemma csr_wf_slots:
  "csr_wf cs \<longleftrightarrow> (\<forall>r. \<not> is_shadow r \<longrightarrow> csr_accepts r (cs (csr_addr r)))"
proof
  assume "csr_wf cs"
  then show "\<forall>r. \<not> is_shadow r \<longrightarrow> csr_accepts r (cs (csr_addr r))"
    by (metis csr_wf_iff csr_read_view shadow_source_id shadow_view_id)
next
  assume "\<forall>r. \<not> is_shadow r \<longrightarrow> csr_accepts r (cs (csr_addr r))"
  then show "csr_wf cs"
    by (simp add: csr_wf_iff csr_read_view shadow_view_accepts)
qed

lemma csr_wf_write: "csr_wf cs \<Longrightarrow> csr_wf (csr_write cs reg v)"
  by (auto simp: csr_wf_slots csr_write_store shadow_store_accepts split: option.split)

lemma csr_write_read_back:
  assumes "csr_wf cs"
  shows "csr_write cs reg (csr_read cs reg) = cs"
proof -
  have "make_value_writable reg (csr_read cs reg) = Some (csr_read cs reg)"
    using assms by (simp add: csr_wf_iff csr_accepts_def)
  then show ?thesis
    by (simp add: csr_write_store csr_read_view shadow_store_view)
qed

lemma csr_read_write_same:
  "make_value_writable reg v = Some w \<Longrightarrow>
     csr_read (csr_write cs reg v) reg = shadow_view reg w"
  by (simp add: csr_write_store csr_read_view shadow_view_store)

lemma csr_read_write:
  "\<not> is_shadow r \<Longrightarrow> \<not> is_shadow r' \<Longrightarrow>
     csr_read (csr_write cs r v) r' =
       (if r' = r then case make_value_writable r v of None \<Rightarrow> csr_read cs r | Some w \<Rightarrow> w
        else csr_read cs r')"
  by (simp add: csr_write_store csr_read_view split: option.split)

text \<open>\<open>replace\<close> is a read followed by a write.\<close>

lemma csr_replace_eq: "csr_replace cs reg v = (csr_read cs reg, csr_write cs reg v)"
  by (simp add: csr_replace_def csr_write_store csr_read_view transform_write_store
      region_replace_def transform_read_def shadow_view_def sstatus_from_mstatus_def
      split: option.split)

section \<open>Reset\<close>

lemma default_writable: "\<exists>w. make_value_writable reg (default_value reg) = Some w"
proof -
  consider "reg = CSR_S Satp" | "reg = CSR_M Mcause" | "reg = CSR_S Scause"
    | "reg \<notin> {CSR_S Satp, CSR_M Mcause, CSR_S Scause}" by blast
  then show ?thesis
  proof cases
    case 1
    then show ?thesis by (simp add: satp_writable default_scsr_def)
  next
    case 2
    then show ?thesis
      by (simp add: writable_defs default_mcsr_def WLRL_MCAUSE_VALUES_def)
  next
    case 3
    then show ?thesis
      by (simp add: writable_defs default_scsr_def WLRL_SCAUSE_VALUES_def)
  next
    case 4
    then show ?thesis by (simp add: writable_defs)
  qed
qed

lemma fold_csr_write_other:
  "a \<notin> (csr_addr \<circ> shadow_source) ` set rs \<Longrightarrow>
     fold (\<lambda>reg cs. csr_write cs reg (f reg)) rs cs a = cs a"
  by (induction rs arbitrary: cs) (auto simp: csr_write_other)

text \<open>No register is overwritten by a shadow register after its own reset.\<close>

lemma reset_order:
  assumes "\<not> is_shadow reg"
  shows "\<exists>ys zs. CSRegister_list = ys @ reg # zs \<and> reg \<notin> shadow_source ` set zs"
proof (cases "\<exists>x. reg = CSR_M x")
  case True
  then have "reg \<in> set (map CSR_M MCSR_list @ map CSR_D DCSR_list)"
    using MCSR_in_list by auto
  then obtain ys zs where s: "map CSR_M MCSR_list @ map CSR_D DCSR_list = ys @ reg # zs"
    and z: "reg \<notin> set zs"
    by (meson split_list_last)
  have "set zs \<subseteq> set (map CSR_M MCSR_list @ map CSR_D DCSR_list)"
    unfolding s by auto
  then have "reg \<notin> shadow_source ` set zs"
    using z by (auto simp: is_shadow_def shadow_source_def split: if_splits)
  moreover have "CSRegister_list =
      (map CSR_U UCSR_list @ map CSR_S SCSR_list @ map CSR_H HCSR_list @ map CSR_VS VSCSR_list @
       ys) @ reg # zs"
    using s by (simp add: CSRegister_list_def)
  ultimately show ?thesis by blast
next
  case False
  obtain ys zs where "CSRegister_list = ys @ reg # zs" "reg \<notin> set zs"
    using split_list_last [OF CSRegister_in_list] by blast
  moreover from this False have "reg \<notin> shadow_source ` set zs"
    by (auto simp: shadow_source_def split: if_splits)
  ultimately show ?thesis by blast
qed

lemma csr_write_slot:
  "\<not> is_shadow reg \<Longrightarrow> make_value_writable reg v = Some w \<Longrightarrow> csr_write cs reg v (csr_addr reg) = w"
  by (simp add: csr_write_store)

lemma reset_slot:
  assumes "\<not> is_shadow reg"
  shows "make_value_writable reg (default_value reg) =
           Some (csregisters_reset cs (csr_addr reg))"
proof -
  obtain ys zs where l: "CSRegister_list = ys @ reg # zs" and z: "reg \<notin> shadow_source ` set zs"
    using reset_order [OF assms] by blast
  obtain w where w: "make_value_writable reg (default_value reg) = Some w"
    using default_writable by blast
  have "csr_addr reg \<notin> (csr_addr \<circ> shadow_source) ` set zs"
    using z by auto
  then show ?thesis
    using w assms by (simp add: csregisters_reset_def l fold_csr_write_other csr_write_slot)
qed

lemma csr_wf_reset: "csr_wf (csregisters_reset cs)"
  using reset_slot make_value_writable_accepts by (auto simp: csr_wf_slots)

lemma default_mstatus_legal: "mstatus_legal default_mstatus"
  by (simp add: mstatus_legal_def status_dirty_def default_mstatus_eq MSTATUS_FIELDS_MASK_def
      SSTATUS_FIELDS_MASK_def mask_defs)

lemma default_made_writable:
  assumes "\<not> is_shadow reg"
  shows "make_value_writable reg (default_value reg) =
     Some (if reg = CSR_M Medeleg then 0xB3FF
           else if reg = CSR_M Mideleg then 0xAAA
           else default_value reg)"
proof (cases reg)
  case (CSR_S x)
  then show ?thesis
    using assms
    by (cases x) (simp_all add: is_shadow_def writable_defs default_scsr_def WLRL_SCAUSE_VALUES_def)
next
  case (CSR_M x)
  then show ?thesis
  proof (cases "x = Mstatus")
    case True
    with CSR_M csr_accepts_mstatus default_mstatus_legal show ?thesis
      by (simp add: csr_accepts_def default_mcsr_def)
  next
    case False
    with CSR_M show ?thesis
      by (cases x)
         (simp_all add: writable_defs default_mcsr_def WLRL_MCAUSE_VALUES_def mask_defs
           WARL_MASK_MEDELEG_def WARL_MASK_MIDELEG_def WPRI_MASK_MNCAUSE_def
           WPRI_MASK_MNSTATUS_def apply_warl_mnstatus_def set_field_def get_field_def
           bool_raw_bits_def MPPValue_new_def)
  qed
qed (simp_all add: writable_defs)

lemma csr_read_reset:
  "csr_read (csregisters_reset cs) reg =
     (if reg = CSR_M Medeleg then 0xB3FF
      else if reg = CSR_M Mideleg then 0xAAA
      else default_value reg)"
proof (cases "is_shadow reg")
  case True
  moreover have "shadow_source reg \<noteq> CSR_M Medeleg \<and> shadow_source reg \<noteq> CSR_M Mideleg"
    using True by (auto simp: is_shadow_def shadow_source_def)
  ultimately show ?thesis
    using reset_slot [of "shadow_source reg" cs] default_made_writable [of "shadow_source reg"]
    by (auto simp: csr_read_view is_shadow_def shadow_source_def shadow_view_def default_scsr_def
        default_mcsr_def sstatus_from_mstatus_def)
next
  case False
  then show ?thesis
    using reset_slot [of reg cs] default_made_writable [of reg] by (simp add: csr_read_view)
qed

section \<open>Properties\<close>

text \<open>
  C21: every write operation of the register file keeps each register at a value that its own
  rules accept, and a reset establishes this whatever the contents were.
\<close>

theorem csr_file_invariant:
  assumes "csr_wf cs"
  shows "csr_wf (csr_write cs r v) \<and> csr_wf (snd (csr_replace cs r v)) \<and>
    csr_wf (snd (csr_set_bits cs r v)) \<and> csr_wf (snd (csr_clear_bits cs r v)) \<and>
    csr_wf (csregisters_reset cs')"
  using assms csr_wf_reset csr_wf_write
  by (simp add: csr_replace_eq csr_set_bits_def csr_clear_bits_def Let_def)

theorem csr_file_invariant_witness:
  "csr_wf (csr_write (csregisters_reset (\<lambda>_. 7)) (CSR_M Mstatus) (- 1)) \<and>
   csr_wf (snd (csr_replace (csregisters_reset (\<lambda>_. 7)) (CSR_M Mstatus) (- 1))) \<and>
   csr_wf (snd (csr_set_bits (csregisters_reset (\<lambda>_. 7)) (CSR_M Mstatus) (- 1))) \<and>
   csr_wf (snd (csr_clear_bits (csregisters_reset (\<lambda>_. 7)) (CSR_M Mstatus) (- 1))) \<and>
   csr_wf (csregisters_reset (\<lambda>_. 7))"
  by (rule csr_file_invariant) (rule csr_wf_reset)

text \<open>
  The rules for reserved bits and legal values are idempotent: a value that they have
  produced is accepted unchanged.
\<close>

lemma csr_rules_idempotent:
  assumes "make_value_writable r v = Some w"
  shows "make_value_writable r w = Some w"
  using make_value_writable_accepts [OF assms] by (simp add: csr_accepts_def)

text \<open>
  Writing back what was read changes no register, whichever register and whether it is
  stored or a view of another one.
\<close>

lemma csr_write_back:
  assumes "csr_wf cs"
  shows "csr_write cs r (csr_read cs r) = cs"
  using assms by (rule csr_write_read_back)

text \<open>
  The combined operations return the old value and write the new one: replacing writes the
  given value, setting and clearing bits write the union with, and the difference from, the
  given bits.
\<close>

lemma csr_read_modify_write:
  "csr_replace cs r v = (csr_read cs r, csr_write cs r v) \<and>
   csr_set_bits cs r v = (csr_read cs r, csr_write cs r (csr_read cs r OR v)) \<and>
   csr_clear_bits cs r v = (csr_read cs r, csr_write cs r (csr_read cs r AND NOT v))"
  by (simp add: csr_replace_eq csr_set_bits_def csr_clear_bits_def Let_def)

text \<open>
  After a reset every register reads as its default value; the two delegation registers,
  whose default sets every bit, read as the mask of the traps that can be delegated.
\<close>

lemma csr_reset_values:
  "csr_read (csregisters_reset cs) r =
     (if r = CSR_M Medeleg then 0xB3FF else if r = CSR_M Mideleg then 0xAAA else default_value r)"
  by (rule csr_read_reset)

end
