(* ===== verification/RV_Hart.thy ===== *)
theory RV_Hart
  imports RV_CSRegisters
begin

text \<open>
  The hart state (\<^verbatim>\<open>machine_state/hart_state.rs\<close>): reset and trap entry. The theory shows
  that trap entry keeps the CSR invariant, what it records in the trap registers and in
  \<open>mstatus\<close>, and that it changes nothing else.
\<close>

unbundle bit_operations_syntax

section \<open>State and operations\<close>

record hart_state =
  h_xregs :: xregisters
  h_fregs :: fregisters
  h_csrs :: csregisters
  h_mode :: Mode
  h_pc :: Address

definition hart_reset :: "hart_state \<Rightarrow> Address \<Rightarrow> hart_state" where
  "hart_reset h pc =
     h\<lparr>h_xregs := xregs_reset (h_xregs h),
       h_fregs := fregs_reset (h_fregs h),
       h_csrs := csregisters_reset (h_csrs h),
       h_mode := Machine,
       h_pc := pc\<rparr>"

text \<open>\<open>None\<close> is the arm that panics: a trap into supervisor mode from machine mode.\<close>

fun spp_of_mode :: "Mode \<Rightarrow> SPPValue option" where
  "spp_of_mode User = Some SPP_User"
| "spp_of_mode Supervisor = Some SPP_Supervisor"
| "spp_of_mode Machine = None"

fun mpp_of_mode :: "Mode \<Rightarrow> MPPValue" where
  "mpp_of_mode User = MPP_User"
| "mpp_of_mode Supervisor = MPP_Supervisor"
| "mpp_of_mode Machine = MPP_Machine"

fun xtvec_reg :: "TrapMode \<Rightarrow> CSRegister" where
  "xtvec_reg TrapSupervisor = CSR_S Stvec" | "xtvec_reg TrapMachine = CSR_M Mtvec"

fun xepc_reg :: "TrapMode \<Rightarrow> CSRegister" where
  "xepc_reg TrapSupervisor = CSR_S Sepc" | "xepc_reg TrapMachine = CSR_M Mepc"

fun xcause_reg :: "TrapMode \<Rightarrow> CSRegister" where
  "xcause_reg TrapSupervisor = CSR_S Scause" | "xcause_reg TrapMachine = CSR_M Mcause"

fun xtval_reg :: "TrapMode \<Rightarrow> CSRegister" where
  "xtval_reg TrapSupervisor = CSR_S Stval" | "xtval_reg TrapMachine = CSR_M Mtval"

fun trap_mstatus :: "TrapMode \<Rightarrow> Mode \<Rightarrow> CSRValue \<Rightarrow> CSRValue" where
  "trap_mstatus TrapSupervisor current_mode mstatus =
     (let interrupts_enabled = get_SIE mstatus;
          mstatus = set_SPIE mstatus interrupts_enabled;
          mstatus = set_SIE mstatus False
      in set_SPP mstatus (the (spp_of_mode current_mode)))"
| "trap_mstatus TrapMachine current_mode mstatus =
     (let interrupts_enabled = get_MIE mstatus;
          mstatus = set_MPIE mstatus interrupts_enabled;
          mstatus = set_MIE mstatus False
      in set_MPP mstatus (mpp_of_mode current_mode))"

definition take_trap_from_mode ::
  "twiddle \<Rightarrow> hart_state \<Rightarrow> trap_source \<Rightarrow> Mode \<Rightarrow> Address \<Rightarrow> Address \<times> hart_state" where
  "take_trap_from_mode tw h trap_source current_mode return_pc =
     (let trap_mode = get_trap_mode tw (h_csrs h) trap_source current_mode;
          cs = csr_write (h_csrs h) (xepc_reg trap_mode) return_pc;
          cs = csr_write cs (xcause_reg trap_mode) (xcause trap_source);
          cs = csr_write cs (xtval_reg trap_mode) (xtval trap_source);
          mstatus = trap_mstatus trap_mode current_mode (csr_read cs (CSR_M Mstatus));
          cs = csr_write cs (CSR_M Mstatus) mstatus
      in (trap_handler_address trap_source (csr_read cs (xtvec_reg trap_mode)),
          h\<lparr>h_csrs := cs, h_mode := as_mode trap_mode\<rparr>))"

definition take_trap :: "twiddle \<Rightarrow> hart_state \<Rightarrow> trap_source \<Rightarrow> Address \<Rightarrow> Address \<times> hart_state" where
  "take_trap tw h trap_source return_pc =
     take_trap_from_mode tw h trap_source (h_mode h) return_pc"

section \<open>Changes of the control bits of mstatus\<close>

text \<open>
  The bits that traps and trap returns change: \<open>SIE\<close>, \<open>MIE\<close>, \<open>SPIE\<close>, \<open>MPIE\<close>, \<open>SPP\<close>, \<open>MPP\<close>,
  \<open>MPRV\<close>. A legal status stays legal when only these change and \<open>MPP\<close> stays off the
  reserved encoding.
\<close>

definition mstatus_control :: "nat set" where
  "mstatus_control = {1, 3, 5, 7, 8, 11, 12, 17}"

lemma mstatus_legal_control:
  assumes "mstatus_legal m"
    and "\<And>n. n < 64 \<Longrightarrow> n \<notin> mstatus_control \<Longrightarrow> bit m' n = bit m n"
    and "bit m' 12 \<Longrightarrow> bit m' 11"
  shows "mstatus_legal m'"
proof -
  have "status_dirty m' = status_dirty m"
    by (rule status_dirty_cong) (auto intro!: assms(2) simp: mstatus_control_def)
  moreover have "bit m' 63 = bit m 63" "bit m' 35 = bit m 35" "bit m' 34 = bit m 34"
    "bit m' 33 = bit m 33" "bit m' 32 = bit m 32"
    by (auto intro!: assms(2) simp: mstatus_control_def)
  moreover have "bit MSTATUS_FIELDS_MASK n" if "n < 64" "bit m' n" for n
  proof (cases "n \<in> mstatus_control")
    case True
    with that show ?thesis by (auto simp: bit_MSTATUS_FIELDS_MASK mstatus_control_def)
  next
    case False
    with that assms show ?thesis
      by (auto simp: mstatus_legal_def and_eq_self_iff)
  qed
  ultimately show ?thesis
    using assms(1,3) by (auto simp: mstatus_legal_def and_eq_self_iff)
qed

lemma bit_mpp_of_mode:
  "bit (MPPValue_raw_bits (mpp_of_mode mode)) 0 \<longleftrightarrow> mode \<noteq> User"
  "bit (MPPValue_raw_bits (mpp_of_mode mode)) (Suc 0) \<longleftrightarrow> mode = Machine"
  by (cases mode; simp)+

lemma bit_trap_mstatus:
  assumes "n < 64"
  shows "bit (trap_mstatus TrapSupervisor mode m) n =
           (if n = 8 then the (spp_of_mode mode) = SPP_Supervisor
            else if n = 5 then bit m 1 else if n = 1 then False else bit m n)"
    and "bit (trap_mstatus TrapMachine mode m) n =
           (if n = 11 then mode \<noteq> User else if n = 12 then mode = Machine
            else if n = 7 then bit m 3 else if n = 3 then False else bit m n)"
  using assms
  by (simp_all add: Let_def bit_set_field_1 bit_set_field_2 get_bool_bit bit_mpp_of_mode)

lemma trap_mstatus_legal: "mstatus_legal m \<Longrightarrow> mstatus_legal (trap_mstatus tm mode m)"
  by (cases tm; rule mstatus_legal_control [of m])
     (simp_all add: bit_trap_mstatus mstatus_control_def mstatus_legal_def
       del: trap_mstatus.simps)

text \<open>Writing a legal status stores it.\<close>

lemma mstatus_write_legal:
  assumes "mstatus_legal m"
  shows "csr_write cs (CSR_M Mstatus) m = cs(csr_addr (CSR_M Mstatus) := m)"
proof -
  have "make_value_writable (CSR_M Mstatus) m = Some m"
    using assms csr_accepts_mstatus by (simp add: csr_accepts_def)
  then show ?thesis by (simp add: csr_write_store is_shadow_def)
qed

lemma csr_wf_mstatus: "csr_wf cs \<Longrightarrow> mstatus_legal (csr_read cs (CSR_M Mstatus))"
  by (simp add: csr_wf_iff flip: csr_accepts_mstatus)

section \<open>Trap entry\<close>

lemma get_trap_mode_spp:
  "get_trap_mode tw cs src mode = TrapSupervisor \<Longrightarrow> \<exists>v. spp_of_mode mode = Some v"
  by (cases mode) (simp_all add: get_trap_mode_def)

lemma csr_wf_take_trap: "csr_wf (h_csrs h) \<Longrightarrow> csr_wf (h_csrs (snd (take_trap tw h src rpc)))"
  by (simp add: take_trap_def take_trap_from_mode_def Let_def csr_wf_write)

lemma take_trap_frame:
  "h_xregs (snd (take_trap tw h src rpc)) = h_xregs h"
  "h_fregs (snd (take_trap tw h src rpc)) = h_fregs h"
  "h_pc (snd (take_trap tw h src rpc)) = h_pc h"
  "h_mode (snd (take_trap tw h src rpc)) = as_mode (get_trap_mode tw (h_csrs h) src (h_mode h))"
  by (simp_all add: take_trap_def take_trap_from_mode_def Let_def)

lemma trap_regs_not_shadow [simp]:
  "\<not> is_shadow (xepc_reg tm)" "\<not> is_shadow (xcause_reg tm)" "\<not> is_shadow (xtval_reg tm)"
  "\<not> is_shadow (xtvec_reg tm)"
  "\<not> is_shadow (CSR_M m)"
  by (cases tm; simp add: is_shadow_def)+

lemma xepc_writable: "make_value_writable (xepc_reg tm) v = Some (v AND NOT 1)"
  by (cases tm) (simp_all add: writable_defs WARL_MASK_XEPC_def)

lemma xtval_writable: "make_value_writable (xtval_reg tm) v = Some v"
  by (cases tm) (simp_all add: writable_defs)

text \<open>
  The causes that trap entry can record: every cause in machine mode, and in supervisor mode
  every cause that is not a machine-level interrupt or environment call.
\<close>

definition cause_recorded :: "TrapMode \<Rightarrow> trap_source \<Rightarrow> bool" where
  "cause_recorded tm src \<longleftrightarrow>
     tm = TrapMachine \<or>
     src \<notin> {TrapException ExcEnvCallFromMMode, TrapInterrupt MachineSoftware,
             TrapInterrupt MachineTimer, TrapInterrupt MachineExternal}"

lemma xcause_writable:
  "make_value_writable (xcause_reg tm) (xcause src) =
     (if cause_recorded tm src then Some (xcause src) else None)"
proof (cases src)
  case (TrapException e)
  then show ?thesis
    by (cases tm; cases e)
       (simp_all add: writable_defs cause_recorded_def WLRL_MCAUSE_VALUES_def
         WLRL_SCAUSE_VALUES_def INTERRUPT_BIT_def shl_def)
next
  case (TrapInterrupt i)
  then show ?thesis
    by (cases tm; cases i)
       (simp_all add: writable_defs cause_recorded_def WLRL_MCAUSE_VALUES_def
         WLRL_SCAUSE_VALUES_def INTERRUPT_BIT_def shl_def)
qed

lemma trap_regs_distinct [simp]:
  "xepc_reg tm \<noteq> xcause_reg tm" "xepc_reg tm \<noteq> xtval_reg tm" "xcause_reg tm \<noteq> xtval_reg tm"
  "CSR_M Mstatus \<noteq> xepc_reg tm" "CSR_M Mstatus \<noteq> xcause_reg tm" "CSR_M Mstatus \<noteq> xtval_reg tm"
  by (cases tm; simp)+

text \<open>The CSRs after trap entry, register by register.\<close>

lemma mstatus_writable_legal:
  "mstatus_legal m \<Longrightarrow> make_value_writable (CSR_M Mstatus) m = Some m"
  using csr_accepts_mstatus by (simp add: csr_accepts_def)

lemma take_trap_csrs:
  assumes wf: "csr_wf (h_csrs h)" and ns: "\<not> is_shadow r"
    and tm: "get_trap_mode tw (h_csrs h) src (h_mode h) = tm"
  shows "csr_read (h_csrs (snd (take_trap tw h src rpc))) r =
     (if r = CSR_M Mstatus then trap_mstatus tm (h_mode h) (csr_read (h_csrs h) r)
      else if r = xepc_reg tm then rpc AND NOT 1
      else if r = xcause_reg tm \<and> cause_recorded tm src then xcause src
      else if r = xtval_reg tm then xtval src
      else csr_read (h_csrs h) r)"
proof -
  have legal: "mstatus_legal (trap_mstatus tm (h_mode h) (csr_read (h_csrs h) (CSR_M Mstatus)))"
    by (rule trap_mstatus_legal) (rule csr_wf_mstatus [OF wf])
  show ?thesis
    using ns
    by (simp add: take_trap_def take_trap_from_mode_def Let_def tm csr_read_write xepc_writable
        xcause_writable xtval_writable mstatus_writable_legal [OF legal] del: trap_mstatus.simps)
qed

lemma take_trap_address:
  assumes "csr_wf (h_csrs h)"
  shows "fst (take_trap tw h src rpc) =
     trap_handler_address src
       (csr_read (h_csrs h) (xtvec_reg (get_trap_mode tw (h_csrs h) src (h_mode h))))"
proof -
  let ?tm = "get_trap_mode tw (h_csrs h) src (h_mode h)"
  have "fst (take_trap tw h src rpc) =
          trap_handler_address src (csr_read (h_csrs (snd (take_trap tw h src rpc))) (xtvec_reg ?tm))"
    by (simp add: take_trap_def take_trap_from_mode_def Let_def)
  also have "csr_read (h_csrs (snd (take_trap tw h src rpc))) (xtvec_reg ?tm) =
             csr_read (h_csrs h) (xtvec_reg ?tm)"
    by (cases ?tm) (simp_all add: take_trap_csrs [OF assms _ refl] is_shadow_def)
  finally show ?thesis .
qed

section \<open>Properties\<close>

lemma get_trap_mode_delegated:
  assumes "twiddle_spec tw"
  shows "get_trap_mode tw cs src mode =
    (if mode \<noteq> Machine \<and>
        bit (csr_read cs (case src of TrapException _ \<Rightarrow> CSR_M Medeleg | TrapInterrupt _ \<Rightarrow> CSR_M Mideleg))
          (unat (exception_code src))
     then TrapSupervisor else TrapMachine)"
  by (cases mode; cases src) (simp_all add: get_trap_mode_def Let_def tw_bit_code [OF assms] del: exception_code.simps)

text \<open>
  C19: a trap is taken in supervisor mode exactly when the hart is not in machine mode and the bit
  of its code is set in \<open>medeleg\<close>, for an exception, or in \<open>mideleg\<close>, for an interrupt; otherwise in
  machine mode. Trap entry returns the base of that mode's \<open>tvec\<close>, plus four times the code for an
  interrupt when \<open>tvec\<close> is in vectored mode. In \<open>mstatus\<close> it moves the mode's interrupt enable bit to
  the previous-enable bit and clears it, stores the interrupted mode in \<open>SPP\<close> or \<open>MPP\<close>, and keeps
  every other bit. It records the return address, the cause and the trap value in the registers of
  the mode and changes no other register. The cause is recorded unless it is not a legal value of
  the cause register.
\<close>

theorem trap_entry:
  assumes "twiddle_spec tw" "csr_wf (h_csrs h)" "take_trap tw h src rpc = (addr, h')"
    and to_s: "to_s \<longleftrightarrow> h_mode h \<noteq> Machine \<and>
      (case src of
         TrapException e \<Rightarrow> bit (csr_read (h_csrs h) (CSR_M Medeleg)) (unat (exception_code_exn e))
       | TrapInterrupt i \<Rightarrow> bit (csr_read (h_csrs h) (CSR_M Mideleg)) (unat (exception_code_const i)))"
    and tv: "tv = csr_read (h_csrs h) (if to_s then CSR_S Stvec else CSR_M Mtvec)"
    and st: "st = csr_read (h_csrs h) (CSR_M Mstatus)" "st' = csr_read (h_csrs h') (CSR_M Mstatus)"
  shows "addr = (tv AND NOT 3) +
      (case src of
         TrapException e \<Rightarrow> 0
       | TrapInterrupt i \<Rightarrow> if tv AND 3 = 1 then 4 * exception_code_const i else 0) \<and>
    h_mode h' = (if to_s then Supervisor else Machine) \<and>
    h_xregs h' = h_xregs h \<and> h_fregs h' = h_fregs h \<and> h_pc h' = h_pc h \<and> csr_wf (h_csrs h') \<and>
    (\<forall>n < 64. bit st' n =
      (if to_s
       then (if n = 1 then False else if n = 5 then bit st 1
             else if n = 8 then h_mode h = Supervisor else bit st n)
       else (if n = 3 then False else if n = 7 then bit st 3
             else if n = 11 then h_mode h \<noteq> User else if n = 12 then h_mode h = Machine
             else bit st n))) \<and>
    (\<forall>r. \<not> is_shadow r \<and> r \<noteq> CSR_M Mstatus \<longrightarrow> csr_read (h_csrs h') r =
      (if r = (if to_s then CSR_S Sepc else CSR_M Mepc) then rpc AND NOT 1
       else if r = (if to_s then CSR_S Scause else CSR_M Mcause) \<and>
               cause_recorded (if to_s then TrapSupervisor else TrapMachine) src then xcause src
       else if r = (if to_s then CSR_S Stval else CSR_M Mtval) then xtval src
       else csr_read (h_csrs h) r))"
proof -
  let ?tm = "if to_s then TrapSupervisor else TrapMachine"
  have h': "h' = snd (take_trap tw h src rpc)" "addr = fst (take_trap tw h src rpc)"
    using assms(3) by simp_all
  have tm: "get_trap_mode tw (h_csrs h) src (h_mode h) = ?tm"
    using to_s by (cases src) (simp_all add: get_trap_mode_delegated [OF assms(1)])
  note csrs = take_trap_csrs [OF assms(2) _ tm, where rpc = rpc]
  have addr: "addr = trap_handler_address src tv"
    using tv by (simp add: h' take_trap_address [OF assms(2)] tm)
  have st': "st' = trap_mstatus ?tm (h_mode h) st"
    using st by (simp add: h' csrs del: trap_mstatus.simps)
  have spp: "to_s \<Longrightarrow> the (spp_of_mode (h_mode h)) = SPP_Supervisor \<longleftrightarrow> h_mode h = Supervisor"
    using to_s by (cases "h_mode h") simp_all
  have bits: "bit st' n = (if to_s
       then (if n = 1 then False else if n = 5 then bit st 1
             else if n = 8 then h_mode h = Supervisor else bit st n)
       else (if n = 3 then False else if n = 7 then bit st 3
             else if n = 11 then h_mode h \<noteq> User else if n = 12 then h_mode h = Machine
             else bit st n))" if "n < 64" for n
    using that spp by (cases to_s) (simp_all add: st' bit_trap_mstatus del: trap_mstatus.simps)
  have regs: "csr_read (h_csrs h') r =
      (if r = (if to_s then CSR_S Sepc else CSR_M Mepc) then rpc AND NOT 1
       else if r = (if to_s then CSR_S Scause else CSR_M Mcause) \<and> cause_recorded ?tm src then xcause src
       else if r = (if to_s then CSR_S Stval else CSR_M Mtval) then xtval src
       else csr_read (h_csrs h) r)" if "\<not> is_shadow r" "r \<noteq> CSR_M Mstatus" for r
    using csrs [OF that(1)] that(2) by (cases to_s) (simp_all add: h' del: trap_mstatus.simps xcause.simps xtval.simps)
  have "h_mode h' = (if to_s then Supervisor else Machine)"
    by (simp add: h' take_trap_frame tm)
  moreover have "addr = (tv AND NOT 3) +
      (case src of
         TrapException e \<Rightarrow> 0
       | TrapInterrupt i \<Rightarrow> if tv AND 3 = 1 then 4 * exception_code_const i else 0)"
    by (cases src) (simp_all add: addr Let_def)
  moreover have "h_xregs h' = h_xregs h \<and> h_fregs h' = h_fregs h \<and> h_pc h' = h_pc h \<and> csr_wf (h_csrs h')"
    by (simp add: h' take_trap_frame csr_wf_take_trap [OF assms(2)])
  ultimately show ?thesis
    using bits regs by blast
qed

definition example_hart :: hart_state where
  "example_hart =
     hart_reset \<lparr>h_xregs = \<lambda>_. 0, h_fregs = \<lambda>_. 0, h_csrs = \<lambda>_. 0, h_mode = User, h_pc = 0\<rparr> 0x80000000"

lemma example_hart_wf: "csr_wf (h_csrs (example_hart\<lparr>h_mode := mode\<rparr>))"
  by (simp add: example_hart_def hart_reset_def csr_wf_reset)

theorem trap_entry_witness:
  "csr_read (h_csrs (snd (take_trap twiddle_words (example_hart\<lparr>h_mode := User\<rparr>)
     (TrapException Breakpoint) 0x80000010))) (CSR_S Sepc) = 0x80000010 \<and>
   h_mode (snd (take_trap twiddle_words (example_hart\<lparr>h_mode := User\<rparr>)
     (TrapException Breakpoint) 0x80000010)) = Supervisor"
proof -
  let ?h = "example_hart\<lparr>h_mode := User\<rparr>"
  have "bit (csr_read (h_csrs ?h) (CSR_M Medeleg)) 3"
    by (simp add: example_hart_def hart_reset_def csr_read_reset)
  then show ?thesis
    using trap_entry [OF _ example_hart_wf surjective_pairing refl refl refl refl,
        of twiddle_words User "TrapException Breakpoint" "0x80000010"]
    by (simp add: is_shadow_def)
qed

end
