(* ===== verification/RV_ALU.thy ===== *)
theory RV_ALU
  imports RV_Parser "HOL-Library.Signed_Division"
begin

text \<open>
  The instructions on integer registers: \<^verbatim>\<open>interpreter/rv32i.rs\<close>, \<^verbatim>\<open>rv64i.rs\<close>, \<^verbatim>\<open>rv32m.rs\<close> and
  \<^verbatim>\<open>rv64m.rs\<close>. A handler takes the register file and its operands in the order of the source
  and returns the new register file. Signed values share the representation of unsigned ones;
  a comparison \<open>as i64\<close> reads them by \<open>sint\<close>. The second half of the theory compares the
  handlers with the result that the ISA manual defines for each operation.
\<close>

unbundle bit_operations_syntax

section \<open>Integer registers: rv32i\<close>

definition run_addi :: "xregisters \<Rightarrow> i64 \<Rightarrow> XRegister \<Rightarrow> XRegister \<Rightarrow> xregisters" where
  "run_addi xs imm rs1 rd =
     (let rval = xregs_read xs rs1; result = rval + imm in xregs_write xs rd result)"

definition run_add :: "xregisters \<Rightarrow> XRegister \<Rightarrow> XRegister \<Rightarrow> XRegister \<Rightarrow> xregisters" where
  "run_add xs rs1 rs2 rd =
     (let lhs = xregs_read xs rs1; rhs = xregs_read xs rs2; result = lhs + rhs
      in xregs_write xs rd result)"

definition run_sub :: "xregisters \<Rightarrow> XRegister \<Rightarrow> XRegister \<Rightarrow> XRegister \<Rightarrow> xregisters" where
  "run_sub xs rs1 rs2 rd =
     (let lhs = xregs_read xs rs1; rhs = xregs_read xs rs2; result = lhs - rhs
      in xregs_write xs rd result)"

definition run_lui :: "xregisters \<Rightarrow> i64 \<Rightarrow> XRegister \<Rightarrow> xregisters" where
  "run_lui xs imm rd = xregs_write xs rd imm"

definition run_andi :: "xregisters \<Rightarrow> i64 \<Rightarrow> XRegister \<Rightarrow> XRegister \<Rightarrow> xregisters" where
  "run_andi xs imm rs1 rd = (let result = xregs_read xs rs1 AND imm in xregs_write xs rd result)"

definition run_ori :: "xregisters \<Rightarrow> i64 \<Rightarrow> XRegister \<Rightarrow> XRegister \<Rightarrow> xregisters" where
  "run_ori xs imm rs1 rd = (let result = xregs_read xs rs1 OR imm in xregs_write xs rd result)"

definition run_xori :: "xregisters \<Rightarrow> i64 \<Rightarrow> XRegister \<Rightarrow> XRegister \<Rightarrow> xregisters" where
  "run_xori xs imm rs1 rd = (let result = xregs_read xs rs1 XOR imm in xregs_write xs rd result)"

definition run_and :: "xregisters \<Rightarrow> XRegister \<Rightarrow> XRegister \<Rightarrow> XRegister \<Rightarrow> xregisters" where
  "run_and xs rs1 rs2 rd =
     (let result = xregs_read xs rs1 AND xregs_read xs rs2 in xregs_write xs rd result)"

definition run_or :: "xregisters \<Rightarrow> XRegister \<Rightarrow> XRegister \<Rightarrow> XRegister \<Rightarrow> xregisters" where
  "run_or xs rs1 rs2 rd =
     (let result = xregs_read xs rs1 OR xregs_read xs rs2 in xregs_write xs rd result)"

definition run_xor :: "xregisters \<Rightarrow> XRegister \<Rightarrow> XRegister \<Rightarrow> XRegister \<Rightarrow> xregisters" where
  "run_xor xs rs1 rs2 rd =
     (let result = xregs_read xs rs1 XOR xregs_read xs rs2 in xregs_write xs rd result)"

definition run_slti :: "xregisters \<Rightarrow> i64 \<Rightarrow> XRegister \<Rightarrow> XRegister \<Rightarrow> xregisters" where
  "run_slti xs imm rs1 rd =
     (let result = (if sint (xregs_read xs rs1) < sint imm then 1 else 0) in xregs_write xs rd result)"

definition run_sltiu :: "xregisters \<Rightarrow> i64 \<Rightarrow> XRegister \<Rightarrow> XRegister \<Rightarrow> xregisters" where
  "run_sltiu xs imm rs1 rd =
     (let result = (if xregs_read xs rs1 < imm then 1 else 0) in xregs_write xs rd result)"

definition run_slt :: "xregisters \<Rightarrow> XRegister \<Rightarrow> XRegister \<Rightarrow> XRegister \<Rightarrow> xregisters" where
  "run_slt xs rs1 rs2 rd =
     (let result = (if sint (xregs_read xs rs1) < sint (xregs_read xs rs2) then 1 else 0)
      in xregs_write xs rd result)"

definition run_sltu :: "xregisters \<Rightarrow> XRegister \<Rightarrow> XRegister \<Rightarrow> XRegister \<Rightarrow> xregisters" where
  "run_sltu xs rs1 rs2 rd =
     (let result = (if xregs_read xs rs1 < xregs_read xs rs2 then 1 else 0)
      in xregs_write xs rd result)"

section \<open>Integer registers: rv64i\<close>

definition run_addiw :: "xregisters \<Rightarrow> i64 \<Rightarrow> XRegister \<Rightarrow> XRegister \<Rightarrow> xregisters" where
  "run_addiw xs imm rs1 rd =
     (let rval = xregs_read xs rs1; result = rval + imm; result = as_i32_as_u64 result
      in xregs_write xs rd result)"

definition run_addw :: "xregisters \<Rightarrow> XRegister \<Rightarrow> XRegister \<Rightarrow> XRegister \<Rightarrow> xregisters" where
  "run_addw xs rs1 rs2 rd =
     (let lhs = xregs_read xs rs1; rhs = xregs_read xs rs2; result = as_i32_as_u64 (lhs + rhs)
      in xregs_write xs rd result)"

definition run_subw :: "xregisters \<Rightarrow> XRegister \<Rightarrow> XRegister \<Rightarrow> XRegister \<Rightarrow> xregisters" where
  "run_subw xs rs1 rs2 rd =
     (let lhs = xregs_read xs rs1; rhs = xregs_read xs rs2; result = as_i32_as_u64 (lhs - rhs)
      in xregs_write xs rd result)"

definition run_slli :: "xregisters \<Rightarrow> i64 \<Rightarrow> XRegister \<Rightarrow> XRegister \<Rightarrow> xregisters" where
  "run_slli xs imm rs1 rd = xregs_write xs rd (shl (xregs_read xs rs1) (unat imm))"

definition run_srli :: "xregisters \<Rightarrow> i64 \<Rightarrow> XRegister \<Rightarrow> XRegister \<Rightarrow> xregisters" where
  "run_srli xs imm rs1 rd = xregs_write xs rd (shr (xregs_read xs rs1) (unat imm))"

definition run_srai :: "xregisters \<Rightarrow> i64 \<Rightarrow> XRegister \<Rightarrow> XRegister \<Rightarrow> xregisters" where
  "run_srai xs imm rs1 rd =
     (let sh_amt = imm AND 0x3F; result = sar (xregs_read xs rs1) (unat sh_amt)
      in xregs_write xs rd result)"

definition run_slliw :: "xregisters \<Rightarrow> i64 \<Rightarrow> XRegister \<Rightarrow> XRegister \<Rightarrow> xregisters" where
  "run_slliw xs imm rs1 rd =
     (let result = shl (xregs_read xs rs1) (unat imm) in xregs_write xs rd (as_i32_as_u64 result))"

text \<open>A value \<open>as u32\<close> or \<open>as i32\<close> is its low half; \<open>i32 as u64\<close> sign-extends.\<close>

definition run_srliw :: "xregisters \<Rightarrow> i64 \<Rightarrow> XRegister \<Rightarrow> XRegister \<Rightarrow> xregisters" where
  "run_srliw xs imm rs1 rd =
     (let result = shr (ucast (xregs_read xs rs1) :: u32) (unat imm)
      in xregs_write xs rd (scast result))"

definition run_sraiw :: "xregisters \<Rightarrow> i64 \<Rightarrow> XRegister \<Rightarrow> XRegister \<Rightarrow> xregisters" where
  "run_sraiw xs imm rs1 rd =
     (let sh_amt = imm AND 0x1F; result = sar (ucast (xregs_read xs rs1) :: i32) (unat sh_amt)
      in xregs_write xs rd (scast result))"

definition run_sll :: "xregisters \<Rightarrow> XRegister \<Rightarrow> XRegister \<Rightarrow> XRegister \<Rightarrow> xregisters" where
  "run_sll xs rs1 rs2 rd =
     (let sh_amt = xregs_read xs rs2 AND 0x3F; result = shl (xregs_read xs rs1) (unat sh_amt)
      in xregs_write xs rd result)"

definition run_srl :: "xregisters \<Rightarrow> XRegister \<Rightarrow> XRegister \<Rightarrow> XRegister \<Rightarrow> xregisters" where
  "run_srl xs rs1 rs2 rd =
     (let sh_amt = xregs_read xs rs2 AND 0x3F; result = shr (xregs_read xs rs1) (unat sh_amt)
      in xregs_write xs rd result)"

definition run_sra :: "xregisters \<Rightarrow> XRegister \<Rightarrow> XRegister \<Rightarrow> XRegister \<Rightarrow> xregisters" where
  "run_sra xs rs1 rs2 rd =
     (let sh_amt = xregs_read xs rs2 AND 0x3F; result = sar (xregs_read xs rs1) (unat sh_amt)
      in xregs_write xs rd result)"

definition run_sllw :: "xregisters \<Rightarrow> XRegister \<Rightarrow> XRegister \<Rightarrow> XRegister \<Rightarrow> xregisters" where
  "run_sllw xs rs1 rs2 rd =
     (let sh_amt = xregs_read xs rs2 AND 0x1F; result = shl (xregs_read xs rs1) (unat sh_amt)
      in xregs_write xs rd (as_i32_as_u64 result))"

definition run_srlw :: "xregisters \<Rightarrow> XRegister \<Rightarrow> XRegister \<Rightarrow> XRegister \<Rightarrow> xregisters" where
  "run_srlw xs rs1 rs2 rd =
     (let sh_amt = xregs_read xs rs2 AND 0x1F;
          result = shr (ucast (xregs_read xs rs1) :: u32) (unat sh_amt)
      in xregs_write xs rd (scast result))"

definition run_sraw :: "xregisters \<Rightarrow> XRegister \<Rightarrow> XRegister \<Rightarrow> XRegister \<Rightarrow> xregisters" where
  "run_sraw xs rs1 rs2 rd =
     (let sh_amt = xregs_read xs rs2 AND 0x1F;
          result = sar (ucast (xregs_read xs rs1) :: i32) (unat sh_amt)
      in xregs_write xs rd (scast result))"

section \<open>Integer registers: rv32m and rv64m\<close>

text \<open>The operator \<open>%\<close> on signed integers: the remainder of the division rounding to zero.\<close>

definition signed_rem :: "'a::len word \<Rightarrow> 'a word \<Rightarrow> 'a word" where
  "signed_rem a b = word_of_int (sint a smod sint b)"

definition run_rem :: "xregisters \<Rightarrow> XRegister \<Rightarrow> XRegister \<Rightarrow> XRegister \<Rightarrow> xregisters" where
  "run_rem xs rs1 rs2 rd =
     (let rval1 = xregs_read xs rs1;
          rval2 = xregs_read xs rs2;
          result = (if rval2 = 0 then rval1
                    else if rval2 = - 1 \<and> rval1 = 0x8000000000000000 then 0
                    else signed_rem rval1 rval2)
      in xregs_write xs rd result)"

definition run_remu :: "xregisters \<Rightarrow> XRegister \<Rightarrow> XRegister \<Rightarrow> XRegister \<Rightarrow> xregisters" where
  "run_remu xs rs1 rs2 rd =
     (let rval1 = xregs_read xs rs1;
          rval2 = xregs_read xs rs2;
          result = (if rval2 = 0 then rval1 else rval1 mod rval2)
      in xregs_write xs rd result)"

definition run_remw :: "xregisters \<Rightarrow> XRegister \<Rightarrow> XRegister \<Rightarrow> XRegister \<Rightarrow> xregisters" where
  "run_remw xs rs1 rs2 rd =
     (let rval1 = (ucast (xregs_read xs rs1) :: i32);
          rval2 = (ucast (xregs_read xs rs2) :: i32);
          result = (if rval2 = 0 then rval1
                    else if rval2 = - 1 \<and> rval1 = 0x80000000 then 0
                    else signed_rem rval1 rval2)
      in xregs_write xs rd (scast result))"

definition run_remuw :: "xregisters \<Rightarrow> XRegister \<Rightarrow> XRegister \<Rightarrow> XRegister \<Rightarrow> xregisters" where
  "run_remuw xs rs1 rs2 rd =
     (let rval1 = (ucast (xregs_read xs rs1) :: u32);
          rval2 = (ucast (xregs_read xs rs2) :: u32);
          result = (if rval2 = 0 then rval1 else rval1 mod rval2)
      in xregs_write xs rd (scast result))"

section \<open>Dispatch\<close>

text \<open>The arms of \<open>run_instr\<close> that call the handlers above.\<close>

fun run_r_type :: "r_op \<Rightarrow> xregisters \<Rightarrow> XRegister \<Rightarrow> XRegister \<Rightarrow> XRegister \<Rightarrow> xregisters" where
  "run_r_type Add = run_add"
| "run_r_type Sub = run_sub"
| "run_r_type Xor = run_xor"
| "run_r_type Or = run_or"
| "run_r_type And = run_and"
| "run_r_type Sll = run_sll"
| "run_r_type Srl = run_srl"
| "run_r_type Sra = run_sra"
| "run_r_type Slt = run_slt"
| "run_r_type Sltu = run_sltu"
| "run_r_type Addw = run_addw"
| "run_r_type Subw = run_subw"
| "run_r_type Sllw = run_sllw"
| "run_r_type Srlw = run_srlw"
| "run_r_type Sraw = run_sraw"
| "run_r_type Rem = run_rem"
| "run_r_type Remu = run_remu"
| "run_r_type Remw = run_remw"
| "run_r_type Remuw = run_remuw"

fun run_i_type :: "i_op \<Rightarrow> xregisters \<Rightarrow> i64 \<Rightarrow> XRegister \<Rightarrow> XRegister \<Rightarrow> xregisters" where
  "run_i_type Addi = run_addi"
| "run_i_type Addiw = run_addiw"
| "run_i_type Xori = run_xori"
| "run_i_type Ori = run_ori"
| "run_i_type Andi = run_andi"
| "run_i_type Slli = run_slli"
| "run_i_type Srli = run_srli"
| "run_i_type Srai = run_srai"
| "run_i_type Slliw = run_slliw"
| "run_i_type Srliw = run_srliw"
| "run_i_type Sraiw = run_sraiw"
| "run_i_type Slti = run_slti"
| "run_i_type Sltiu = run_sltiu"

lemmas alu_defs =
  run_addi_def run_add_def run_sub_def run_lui_def run_andi_def run_ori_def run_xori_def
  run_and_def run_or_def run_xor_def run_slti_def run_sltiu_def run_slt_def run_sltu_def
  run_addiw_def run_addw_def run_subw_def run_slli_def run_srli_def run_srai_def run_slliw_def
  run_srliw_def run_sraiw_def run_sll_def run_srl_def run_sra_def run_sllw_def run_srlw_def
  run_sraw_def run_rem_def run_remu_def run_remw_def run_remuw_def

section \<open>The results of the ISA manual\<close>

text \<open>
  Division rounds to zero and the remainder has the sign of the dividend; the \<open>W\<close> operations
  compute on 32-bit words and sign-extend; an arithmetic right shift is a division by a power
  of two that rounds down.
\<close>

definition rem_spec :: "'a::len word \<Rightarrow> 'a word \<Rightarrow> 'a word" where
  "rem_spec a b = (if b = 0 then a else word_of_int (sint a - sint b * (sint a sdiv sint b)))"

definition remu_spec :: "'a::len word \<Rightarrow> 'a word \<Rightarrow> 'a word" where
  "remu_spec a b = (if b = 0 then a else word_of_nat (unat a mod unat b))"

definition sra_spec :: "'a::len word \<Rightarrow> nat \<Rightarrow> 'a word" where
  "sra_spec a n = word_of_int (sint a div 2 ^ n)"

definition on_w :: "(u32 \<Rightarrow> u32 \<Rightarrow> u32) \<Rightarrow> u64 \<Rightarrow> u64 \<Rightarrow> u64" where
  "on_w f a b = scast (f (ucast a) (ucast b))"

fun r_result :: "r_op \<Rightarrow> u64 \<Rightarrow> u64 \<Rightarrow> u64" where
  "r_result Add a b = a + b"
| "r_result Sub a b = a - b"
| "r_result Xor a b = a XOR b"
| "r_result Or a b = a OR b"
| "r_result And a b = a AND b"
| "r_result Sll a b = push_bit (unat b mod 64) a"
| "r_result Srl a b = drop_bit (unat b mod 64) a"
| "r_result Sra a b = sra_spec a (unat b mod 64)"
| "r_result Slt a b = of_bool (sint a < sint b)"
| "r_result Sltu a b = of_bool (unat a < unat b)"
| "r_result Addw a b = on_w (+) a b"
| "r_result Subw a b = on_w (-) a b"
| "r_result Sllw a b = on_w (\<lambda>x y. push_bit (unat y mod 32) x) a b"
| "r_result Srlw a b = on_w (\<lambda>x y. drop_bit (unat y mod 32) x) a b"
| "r_result Sraw a b = on_w (\<lambda>x y. sra_spec x (unat y mod 32)) a b"
| "r_result Rem a b = rem_spec a b"
| "r_result Remu a b = remu_spec a b"
| "r_result Remw a b = on_w rem_spec a b"
| "r_result Remuw a b = on_w remu_spec a b"

fun i_result :: "i_op \<Rightarrow> u64 \<Rightarrow> i64 \<Rightarrow> u64" where
  "i_result Addi a imm = r_result Add a imm"
| "i_result Addiw a imm = r_result Addw a imm"
| "i_result Xori a imm = r_result Xor a imm"
| "i_result Ori a imm = r_result Or a imm"
| "i_result Andi a imm = r_result And a imm"
| "i_result Slli a imm = r_result Sll a imm"
| "i_result Srli a imm = r_result Srl a imm"
| "i_result Srai a imm = r_result Sra a imm"
| "i_result Slliw a imm = r_result Sllw a imm"
| "i_result Srliw a imm = r_result Srlw a imm"
| "i_result Sraiw a imm = r_result Sraw a imm"
| "i_result Slti a imm = r_result Slt a imm"
| "i_result Sltiu a imm = r_result Sltu a imm"

section \<open>Arithmetic on the low halves\<close>

lemma ucast_word_of_int: "(ucast (word_of_int k :: u64) :: u32) = word_of_int k"
  by transfer simp

lemma ucast_add_w: "(ucast (a + b :: u64) :: u32) = ucast a + ucast b"
proof -
  have "a + b = word_of_int (uint a + uint b)" by simp
  then have "(ucast (a + b) :: u32) = word_of_int (uint a + uint b)"
    by (simp only: ucast_word_of_int)
  then show ?thesis by simp
qed

lemma ucast_sub_w: "(ucast (a - b :: u64) :: u32) = ucast a - ucast b"
proof -
  have "a - b = word_of_int (uint a - uint b)" by simp
  then have "(ucast (a - b) :: u32) = word_of_int (uint a - uint b)"
    by (simp only: ucast_word_of_int)
  then show ?thesis by simp
qed

lemma ucast_push_w: "(ucast (push_bit n a :: u64) :: u32) = push_bit n (ucast a)"
  by (rule bit_word_eqI) (auto simp: bit_simps)

lemma sar_spec: "sar (x :: 'a::len word) n = sra_spec x (n mod LENGTH('a))"
proof -
  have "sar x n = word_of_int (sint (sar x n))" by simp
  also have "\<dots> = sra_spec x (n mod LENGTH('a))"
    by (simp only: sar_def sra_spec_def sint_signed_drop_bit_eq drop_bit_eq_div)
  finally show ?thesis .
qed

lemma signed_rem_spec: "signed_rem a b = word_of_int (sint a - sint b * (sint a sdiv sint b))"
  by (simp only: signed_rem_def minus_mult_sdiv_eq_smod)

lemma remu_spec_eq: "(if b = 0 then a else a mod b) = remu_spec a b"
  by (simp add: remu_spec_def word_unat_eq_iff unat_mod unat_word_of_nat
      order_le_less_trans [OF mod_less_eq_dividend])

lemma rem_overflow:
  "rem_spec (0x8000000000000000 :: u64) (- 1) = 0"
  "rem_spec (0x80000000 :: u32) (- 1) = 0"
  by (simp_all add: rem_spec_def)

lemma rem_spec_eq_64:
  "(if b = 0 then a else if b = - 1 \<and> a = 0x8000000000000000 then 0 else signed_rem a b) =
     rem_spec a (b :: u64)"
  using rem_overflow(1) by (auto simp: rem_spec_def signed_rem_spec)

lemma rem_spec_eq_32:
  "(if b = 0 then a else if b = - 1 \<and> a = 0x80000000 then 0 else signed_rem a b) =
     rem_spec a (b :: u32)"
  using rem_overflow(2) by (auto simp: rem_spec_def signed_rem_spec)

lemma shift_amount:
  "unat (b AND 0x3F :: u64) = unat b mod 64" "unat (b AND 0x1F :: u64) = unat b mod 32"
  using unat_and_mask [of b 6] unat_and_mask [of b 5] by (simp_all add: mask_eq_exp_minus_1)

lemma shift_amount_low: "unat (ucast (b :: u64) :: u32) mod 32 = unat b mod 32"
  by (simp add: unsigned_ucast_eq take_bit_eq_mod mod_mod_cancel)

lemma shift_amount_w:
  "unat (b :: u64) mod 64 = (if bit b 5 then 32 else 0) + unat b mod 32"
proof -
  have "take_bit (Suc 5) (unat b) = of_bool (bit (unat b) 5) * 2 ^ 5 + take_bit 5 (unat b)"
    by (subst take_bit_Suc_from_most) simp
  then show ?thesis by (simp add: take_bit_eq_mod bit_unsigned_iff)
qed

lemma push_bit_w: "push_bit (32 + n) (x :: u32) = 0"
  by (rule bit_word_eqI) (simp add: bit_simps)

lemmas alu_results = as_i32_as_u64_def on_w_def ucast_add_w ucast_sub_w ucast_push_w sar_spec
  shl_def shr_def shift_amount shift_amount_low remu_spec_eq rem_spec_eq_64 rem_spec_eq_32
  word_less_nat_alt

lemma run_r_type_result:
  "run_r_type v xs rs1 rs2 rd =
     xregs_write xs rd (r_result v (xregs_read xs rs1) (xregs_read xs rs2))"
  by (cases v) (simp_all add: alu_defs Let_def alu_results flip: of_bool_def)

text \<open>\<open>Slliw\<close> shifts by the whole six-bit immediate and drops the high half of the result.\<close>

lemma run_i_type_result:
  "run_i_type v xs imm rs1 rd =
     xregs_write xs rd (if v = Slliw \<and> bit imm 5 then 0 else i_result v (xregs_read xs rs1) imm)"
  by (cases v) (simp_all add: alu_defs Let_def alu_results shift_amount_w push_bit_w bit_and_iff)

text \<open>Whatever the operands, only the destination register changes.\<close>

lemma run_i_type_write: "\<exists>w. run_i_type v xs imm rs1 rd = xregs_write xs rd w"
  by (cases v) (auto simp: alu_defs Let_def)

section \<open>Properties\<close>

text \<open>
  C32: every register-register instruction, remainders included, writes to its destination the
  result that the instruction set prescribes as a function of the two operands, and changes no
  other register. The remainder of a division by zero is the dividend and that of the overflowing
  division is zero. The shift amount is that of the second operand, also for \<open>Sraw\<close>, and the \<open>W\<close>
  instructions, \<open>Remuw\<close> included, use the low halves of both operands and sign-extend.
\<close>

theorem r_type_result:
  "run_r_type op xs rs1 rs2 rd =
     xregs_write xs rd (r_result op (xregs_read xs rs1) (xregs_read xs rs2)) \<and>
   rem_spec (w :: u64) 0 = w \<and> rem_spec (0x8000000000000000 :: u64) (- 1) = 0"
  using rem_overflow by (simp add: run_r_type_result rem_spec_def)

text \<open>
  C33: every register-immediate instruction writes to its destination the prescribed function of
  its operand and its immediate, and changes no other register, whatever the immediate. The one
  exception is \<open>Slliw\<close> with bit 5 of the immediate set, which the parser accepts: it writes zero,
  not the operand shifted by the low five bits.
\<close>

theorem i_type_result:
  "run_i_type op xs imm rs1 rd =
     xregs_write xs rd (if op = Slliw \<and> bit imm 5 then 0 else i_result op (xregs_read xs rs1) imm)"
  by (rule run_i_type_result)

end
