(* ===== verification/RV_ISA.thy ===== *)
theory RV_ISA
  imports RV_Hart RV_Bus RV_ALU
begin

text \<open>
  The instructions on the hart and on the machine: control transfers and environment calls of
  \<^verbatim>\<open>interpreter/rv32i.rs\<close>, loads and stores of \<^verbatim>\<open>rv64i.rs\<close>, trap returns of \<^verbatim>\<open>rv64priv.rs\<close>, CSR
  instructions of \<^verbatim>\<open>rv64zicsr.rs\<close>, the fence of \<^verbatim>\<open>rv64zifencei.rs\<close>. A handler that returns
  \<open>Result\<close> gives the result and the state after it, on the error branches as well.
\<close>

unbundle bit_operations_syntax

section \<open>Control transfer\<close>

definition run_auipc :: "hart_state \<Rightarrow> i64 \<Rightarrow> XRegister \<Rightarrow> hart_state" where
  "run_auipc h imm rd =
     (let rval = h_pc h + imm in h\<lparr>h_xregs := xregs_write (h_xregs h) rd rval\<rparr>)"

definition run_ebreak :: "hart_state \<Rightarrow> RException" where
  "run_ebreak h = Breakpoint"

definition run_ecall :: "hart_state \<Rightarrow> RException" where
  "run_ecall h =
     (case h_mode h of
        User \<Rightarrow> ExcEnvCallFromUMode
      | Supervisor \<Rightarrow> ExcEnvCallFromSMode
      | Machine \<Rightarrow> ExcEnvCallFromMMode)"

definition run_jalr_impl ::
  "u64 \<Rightarrow> hart_state \<Rightarrow> i64 \<Rightarrow> XRegister \<Rightarrow> XRegister \<Rightarrow> Address \<times> hart_state" where
  "run_jalr_impl instr_width h imm rs1 rd =
     (let return_address = h_pc h + instr_width;
          target_address = (xregs_read (h_xregs h) rs1 + imm) AND NOT 1
      in (target_address, h\<lparr>h_xregs := xregs_write (h_xregs h) rd return_address\<rparr>))"

definition run_jalr :: "hart_state \<Rightarrow> i64 \<Rightarrow> XRegister \<Rightarrow> XRegister \<Rightarrow> Address \<times> hart_state" where
  "run_jalr = run_jalr_impl 4"

definition run_jal_impl :: "u64 \<Rightarrow> hart_state \<Rightarrow> i64 \<Rightarrow> XRegister \<Rightarrow> Address \<times> hart_state" where
  "run_jal_impl instr_width h imm rd =
     (let current_pc = h_pc h;
          return_address = current_pc + instr_width
      in (current_pc + imm, h\<lparr>h_xregs := xregs_write (h_xregs h) rd return_address\<rparr>))"

definition run_jal :: "hart_state \<Rightarrow> i64 \<Rightarrow> XRegister \<Rightarrow> Address \<times> hart_state" where
  "run_jal = run_jal_impl 4"

definition run_beq_impl :: "u64 \<Rightarrow> hart_state \<Rightarrow> i64 \<Rightarrow> XRegister \<Rightarrow> XRegister \<Rightarrow> Address" where
  "run_beq_impl instr_width h imm rs1 rs2 =
     (let current_pc = h_pc h in
      if xregs_read (h_xregs h) rs1 = xregs_read (h_xregs h) rs2
      then current_pc + imm else current_pc + instr_width)"

definition run_beq :: "hart_state \<Rightarrow> i64 \<Rightarrow> XRegister \<Rightarrow> XRegister \<Rightarrow> Address" where
  "run_beq = run_beq_impl 4"

definition run_bne_impl :: "u64 \<Rightarrow> hart_state \<Rightarrow> i64 \<Rightarrow> XRegister \<Rightarrow> XRegister \<Rightarrow> Address" where
  "run_bne_impl instr_width h imm rs1 rs2 =
     (let current_pc = h_pc h in
      if xregs_read (h_xregs h) rs1 \<noteq> xregs_read (h_xregs h) rs2
      then current_pc + imm else current_pc + instr_width)"

definition run_bne :: "hart_state \<Rightarrow> i64 \<Rightarrow> XRegister \<Rightarrow> XRegister \<Rightarrow> Address" where
  "run_bne = run_bne_impl 4"

definition run_bge :: "hart_state \<Rightarrow> i64 \<Rightarrow> XRegister \<Rightarrow> XRegister \<Rightarrow> Address" where
  "run_bge h imm rs1 rs2 =
     (let current_pc = h_pc h;
          lhs = sint (xregs_read (h_xregs h) rs1);
          rhs = sint (xregs_read (h_xregs h) rs2)
      in if lhs \<ge> rhs then current_pc + imm else current_pc + 4)"

definition run_bgeu :: "hart_state \<Rightarrow> i64 \<Rightarrow> XRegister \<Rightarrow> XRegister \<Rightarrow> Address" where
  "run_bgeu h imm rs1 rs2 =
     (let current_pc = h_pc h;
          lhs = xregs_read (h_xregs h) rs1;
          rhs = xregs_read (h_xregs h) rs2
      in if lhs \<ge> rhs then current_pc + imm else current_pc + 4)"

definition run_blt :: "hart_state \<Rightarrow> i64 \<Rightarrow> XRegister \<Rightarrow> XRegister \<Rightarrow> Address" where
  "run_blt h imm rs1 rs2 =
     (let current_pc = h_pc h;
          lhs = sint (xregs_read (h_xregs h) rs1);
          rhs = sint (xregs_read (h_xregs h) rs2)
      in if lhs < rhs then current_pc + imm else current_pc + 4)"

definition run_bltu :: "hart_state \<Rightarrow> i64 \<Rightarrow> XRegister \<Rightarrow> XRegister \<Rightarrow> Address" where
  "run_bltu h imm rs1 rs2 =
     (let current_pc = h_pc h;
          lhs = xregs_read (h_xregs h) rs1;
          rhs = xregs_read (h_xregs h) rs2
      in if lhs < rhs then current_pc + imm else current_pc + 4)"

fun run_b_type :: "branch_op \<Rightarrow> hart_state \<Rightarrow> i64 \<Rightarrow> XRegister \<Rightarrow> XRegister \<Rightarrow> Address" where
  "run_b_type Beq = run_beq"
| "run_b_type Bne = run_bne"
| "run_b_type Blt = run_blt"
| "run_b_type Bge = run_bge"
| "run_b_type Bltu = run_bltu"
| "run_b_type Bgeu = run_bgeu"

section \<open>Trap returns\<close>

fun mode_of_mpp :: "MPPValue \<Rightarrow> Mode" where
  "mode_of_mpp MPP_User = User"
| "mode_of_mpp MPP_Supervisor = Supervisor"
| "mode_of_mpp MPP_Machine = Machine"

fun mode_of_spp :: "SPPValue \<Rightarrow> Mode" where
  "mode_of_spp SPP_User = User"
| "mode_of_spp SPP_Supervisor = Supervisor"

definition mret_mstatus :: "CSRValue \<Rightarrow> CSRValue" where
  "mret_mstatus mstatus =
     (let prev_privilege = get_MPP mstatus;
          prev_mie = get_MPIE mstatus;
          mstatus = set_MIE mstatus prev_mie;
          mstatus = set_MPIE mstatus True;
          mstatus = set_MPP mstatus MPP_User
      in if prev_privilege \<noteq> MPP_Machine then set_MPRV mstatus False else mstatus)"

definition run_mret :: "hart_state \<Rightarrow> (RException + Address) \<times> hart_state" where
  "run_mret h =
     (case h_mode h of
        User \<Rightarrow> (Inl IllegalInstruction, h)
      | Supervisor \<Rightarrow> (Inl IllegalInstruction, h)
      | Machine \<Rightarrow>
          (let mstatus = csr_read (h_csrs h) (CSR_M Mstatus);
               prev_privilege = get_MPP mstatus;
               cs = csr_write (h_csrs h) (CSR_M Mstatus) (mret_mstatus mstatus);
               h' = h\<lparr>h_csrs := cs, h_mode := mode_of_mpp prev_privilege\<rparr>
           in (Inr (csr_read cs (CSR_M Mepc)), h')))"

definition sret_mstatus :: "CSRValue \<Rightarrow> CSRValue" where
  "sret_mstatus mstatus =
     (let prev_sie = get_SPIE mstatus;
          mstatus = set_SIE mstatus prev_sie;
          mstatus = set_SPIE mstatus True;
          mstatus = set_SPP mstatus SPP_User
      in set_MPRV mstatus False)"

definition run_sret :: "hart_state \<Rightarrow> (RException + Address) \<times> hart_state" where
  "run_sret h =
     (if h_mode h = User then (Inl IllegalInstruction, h)
      else
        (let mstatus = csr_read (h_csrs h) (CSR_M Mstatus) in
         if get_TSR mstatus then (Inl IllegalInstruction, h)
         else
           (let prev_privilege = get_SPP mstatus;
                cs = csr_write (h_csrs h) (CSR_M Mstatus) (sret_mstatus mstatus);
                h' = h\<lparr>h_csrs := cs, h_mode := mode_of_spp prev_privilege\<rparr>
            in (Inr (csr_read cs (CSR_S Sepc)), h'))))"

section \<open>CSR instructions\<close>

definition hart_csr_replace ::
  "hart_state \<Rightarrow> CSRegister \<Rightarrow> XValue \<Rightarrow> XRegister \<Rightarrow> (RException + unit) \<times> hart_state" where
  "hart_csr_replace h csr value rd =
     (let mode = h_mode h in
      case check_privilege csr mode of
        Inl e \<Rightarrow> (Inl e, h)
      | Inr _ \<Rightarrow>
          (case check_write csr of
             Inl e \<Rightarrow> (Inl e, h)
           | Inr _ \<Rightarrow>
               if xreg_is_zero rd then (Inr (), h\<lparr>h_csrs := csr_write (h_csrs h) csr value\<rparr>)
               else
                 (let (old, cs) = csr_replace (h_csrs h) csr value
                  in (Inr (), h\<lparr>h_csrs := cs, h_xregs := xregs_write (h_xregs h) rd old\<rparr>))))"

definition run_csrrw ::
  "hart_state \<Rightarrow> CSRegister \<Rightarrow> XRegister \<Rightarrow> XRegister \<Rightarrow> (RException + unit) \<times> hart_state" where
  "run_csrrw h csr rs1 rd = (let value = xregs_read (h_xregs h) rs1 in hart_csr_replace h csr value rd)"

definition run_csrrwi ::
  "hart_state \<Rightarrow> CSRegister \<Rightarrow> XValue \<Rightarrow> XRegister \<Rightarrow> (RException + unit) \<times> hart_state" where
  "run_csrrwi h csr imm rd = hart_csr_replace h csr (imm AND 0x1F) rd"

text \<open>
  The common body of \<open>run_csrrs\<close>, \<open>run_csrrsi\<close>, \<open>run_csrrc\<close> and \<open>run_csrrci\<close>: \<open>skip\<close> is their test
  for no write effect, \<open>upd\<close> the call that changes bits and returns the old value.
\<close>

definition csr_modify ::
  "hart_state \<Rightarrow> CSRegister \<Rightarrow> bool \<Rightarrow> (csregisters \<Rightarrow> CSRValue \<times> csregisters) \<Rightarrow> XRegister \<Rightarrow>
     (RException + unit) \<times> hart_state" where
  "csr_modify h csr skip upd rd =
     (let mode = h_mode h in
      case check_privilege csr mode of
        Inl e \<Rightarrow> (Inl e, h)
      | Inr _ \<Rightarrow>
          if skip then
            (let old = csr_read (h_csrs h) csr
             in (Inr (), h\<lparr>h_xregs := xregs_write (h_xregs h) rd old\<rparr>))
          else
            (case check_write csr of
               Inl e \<Rightarrow> (Inl e, h)
             | Inr _ \<Rightarrow>
                 (let (old, cs) = upd (h_csrs h)
                  in (Inr (), h\<lparr>h_csrs := cs, h_xregs := xregs_write (h_xregs h) rd old\<rparr>))))"

definition run_csrrs ::
  "hart_state \<Rightarrow> CSRegister \<Rightarrow> XRegister \<Rightarrow> XRegister \<Rightarrow> (RException + unit) \<times> hart_state" where
  "run_csrrs h csr rs1 rd =
     csr_modify h csr (xreg_is_zero rs1)
       (\<lambda>cs. csr_set_bits cs csr (xregs_read (h_xregs h) rs1)) rd"

definition run_csrrsi ::
  "hart_state \<Rightarrow> CSRegister \<Rightarrow> XValue \<Rightarrow> XRegister \<Rightarrow> (RException + unit) \<times> hart_state" where
  "run_csrrsi h csr imm rd =
     (let imm = imm AND 0x1F in csr_modify h csr (imm = 0) (\<lambda>cs. csr_set_bits cs csr imm) rd)"

definition run_csrrc ::
  "hart_state \<Rightarrow> CSRegister \<Rightarrow> XRegister \<Rightarrow> XRegister \<Rightarrow> (RException + unit) \<times> hart_state" where
  "run_csrrc h csr rs1 rd =
     csr_modify h csr (xreg_is_zero rs1)
       (\<lambda>cs. csr_clear_bits cs csr (xregs_read (h_xregs h) rs1)) rd"

definition run_csrrci ::
  "hart_state \<Rightarrow> CSRegister \<Rightarrow> XValue \<Rightarrow> XRegister \<Rightarrow> (RException + unit) \<times> hart_state" where
  "run_csrrci h csr imm rd =
     (let imm = imm AND 0x1F in csr_modify h csr (imm = 0) (\<lambda>cs. csr_clear_bits cs csr imm) rd)"

fun run_csr_op ::
  "csr_op \<Rightarrow> hart_state \<Rightarrow> CSRegister \<Rightarrow> XRegister \<Rightarrow> XRegister \<Rightarrow> (RException + unit) \<times> hart_state" where
  "run_csr_op Csrrw = run_csrrw"
| "run_csr_op Csrrs = run_csrrs"
| "run_csr_op Csrrc = run_csrrc"

fun run_csri_op ::
  "csri_op \<Rightarrow> hart_state \<Rightarrow> CSRegister \<Rightarrow> XValue \<Rightarrow> XRegister \<Rightarrow> (RException + unit) \<times> hart_state" where
  "run_csri_op Csrrwi = run_csrrwi"
| "run_csri_op Csrrsi = run_csrrsi"
| "run_csri_op Csrrci = run_csrrci"

section \<open>Loads and stores\<close>

record machine_state =
  ms_hart :: hart_state
  ms_bus :: bus

definition read_from_bus :: "machine_state \<Rightarrow> i64 \<Rightarrow> XRegister \<Rightarrow> RException + 'a::len word" where
  "read_from_bus m imm rs1 =
     (let address = xregs_read (h_xregs (ms_hart m)) rs1 + imm in
      case bus_read (ms_bus m) address of
        None \<Rightarrow> Inl (LoadAccessFault address)
      | Some v \<Rightarrow> Inr v)"

definition write_rd :: "machine_state \<Rightarrow> XRegister \<Rightarrow> XValue \<Rightarrow> machine_state" where
  "write_rd m rd v =
     m\<lparr>ms_hart := (ms_hart m)\<lparr>h_xregs := xregs_write (h_xregs (ms_hart m)) rd v\<rparr>\<rparr>"

text \<open>The common shape of the loads: read, convert, write \<open>rd\<close>.\<close>

definition load_with ::
  "(RException + 'a::len word) \<Rightarrow> ('a word \<Rightarrow> XValue) \<Rightarrow> machine_state \<Rightarrow> XRegister \<Rightarrow>
     (RException + unit) \<times> machine_state" where
  "load_with r conv m rd =
     (case r of Inl e \<Rightarrow> (Inl e, m) | Inr v \<Rightarrow> (Inr (), write_rd m rd (conv v)))"

definition run_ld :: "machine_state \<Rightarrow> i64 \<Rightarrow> XRegister \<Rightarrow> XRegister \<Rightarrow> (RException + unit) \<times> machine_state" where
  "run_ld m imm rs1 rd = load_with (read_from_bus m imm rs1) (\<lambda>value :: i64. value) m rd"

definition run_lw :: "machine_state \<Rightarrow> i64 \<Rightarrow> XRegister \<Rightarrow> XRegister \<Rightarrow> (RException + unit) \<times> machine_state" where
  "run_lw m imm rs1 rd = load_with (read_from_bus m imm rs1) (\<lambda>value :: i32. scast value) m rd"

definition run_lh :: "machine_state \<Rightarrow> i64 \<Rightarrow> XRegister \<Rightarrow> XRegister \<Rightarrow> (RException + unit) \<times> machine_state" where
  "run_lh m imm rs1 rd = load_with (read_from_bus m imm rs1) (\<lambda>value :: 16 word. scast value) m rd"

definition run_lb :: "machine_state \<Rightarrow> i64 \<Rightarrow> XRegister \<Rightarrow> XRegister \<Rightarrow> (RException + unit) \<times> machine_state" where
  "run_lb m imm rs1 rd = load_with (read_from_bus m imm rs1) (\<lambda>value :: 8 word. scast value) m rd"

definition run_lwu :: "machine_state \<Rightarrow> i64 \<Rightarrow> XRegister \<Rightarrow> XRegister \<Rightarrow> (RException + unit) \<times> machine_state" where
  "run_lwu m imm rs1 rd = load_with (read_from_bus m imm rs1) (\<lambda>value :: u32. ucast value) m rd"

definition run_lhu :: "machine_state \<Rightarrow> i64 \<Rightarrow> XRegister \<Rightarrow> XRegister \<Rightarrow> (RException + unit) \<times> machine_state" where
  "run_lhu m imm rs1 rd = load_with (read_from_bus m imm rs1) (\<lambda>value :: u16. ucast value) m rd"

definition run_lbu :: "machine_state \<Rightarrow> i64 \<Rightarrow> XRegister \<Rightarrow> XRegister \<Rightarrow> (RException + unit) \<times> machine_state" where
  "run_lbu m imm rs1 rd = load_with (read_from_bus m imm rs1) (\<lambda>value :: u8. ucast value) m rd"

definition write_to_bus ::
  "machine_state \<Rightarrow> i64 \<Rightarrow> XRegister \<Rightarrow> 'a::len word \<Rightarrow> (RException + unit) \<times> machine_state" where
  "write_to_bus m imm rs1 value =
     (let address = xregs_read (h_xregs (ms_hart m)) rs1 + imm in
      case bus_write (ms_bus m) address value of
        None \<Rightarrow> (Inl (StoreAccessFault address), m)
      | Some b \<Rightarrow> (Inr (), m\<lparr>ms_bus := b\<rparr>))"

definition run_sd :: "machine_state \<Rightarrow> i64 \<Rightarrow> XRegister \<Rightarrow> XRegister \<Rightarrow> (RException + unit) \<times> machine_state" where
  "run_sd m imm rs1 rs2 =
     (let value = xregs_read (h_xregs (ms_hart m)) rs2 in write_to_bus m imm rs1 value)"

definition run_sw :: "machine_state \<Rightarrow> i64 \<Rightarrow> XRegister \<Rightarrow> XRegister \<Rightarrow> (RException + unit) \<times> machine_state" where
  "run_sw m imm rs1 rs2 =
     (let value = xregs_read (h_xregs (ms_hart m)) rs2 in write_to_bus m imm rs1 (ucast value :: u32))"

definition run_sh :: "machine_state \<Rightarrow> i64 \<Rightarrow> XRegister \<Rightarrow> XRegister \<Rightarrow> (RException + unit) \<times> machine_state" where
  "run_sh m imm rs1 rs2 =
     (let value = xregs_read (h_xregs (ms_hart m)) rs2 in write_to_bus m imm rs1 (ucast value :: u16))"

definition run_sb :: "machine_state \<Rightarrow> i64 \<Rightarrow> XRegister \<Rightarrow> XRegister \<Rightarrow> (RException + unit) \<times> machine_state" where
  "run_sb m imm rs1 rs2 =
     (let value = xregs_read (h_xregs (ms_hart m)) rs2 in write_to_bus m imm rs1 (ucast value :: u8))"

fun run_load ::
  "load_op \<Rightarrow> machine_state \<Rightarrow> i64 \<Rightarrow> XRegister \<Rightarrow> XRegister \<Rightarrow> (RException + unit) \<times> machine_state" where
  "run_load Lb = run_lb"
| "run_load Lh = run_lh"
| "run_load Lw = run_lw"
| "run_load Lbu = run_lbu"
| "run_load Lhu = run_lhu"
| "run_load Lwu = run_lwu"
| "run_load Ld = run_ld"

fun run_store ::
  "store_op \<Rightarrow> machine_state \<Rightarrow> i64 \<Rightarrow> XRegister \<Rightarrow> XRegister \<Rightarrow> (RException + unit) \<times> machine_state" where
  "run_store Sb = run_sb"
| "run_store Sh = run_sh"
| "run_store Sw = run_sw"
| "run_store Sd = run_sd"

section \<open>Instructions without effect\<close>

definition run_fence :: "machine_state \<Rightarrow> FenceSet \<Rightarrow> FenceSet \<Rightarrow> machine_state" where
  "run_fence m pred succ = m"

definition run_fencei :: "machine_state \<Rightarrow> machine_state" where
  "run_fencei m = m"

definition run_wfi :: "machine_state \<Rightarrow> machine_state" where
  "run_wfi m = m"

section \<open>Trap returns and mstatus\<close>

lemma get_MPP_mode:
  "mode_of_mpp (get_MPP m) = (if \<not> bit m 11 then User else if bit m 12 then Machine else Supervisor)"
  using bit_get_raw [of "(11, 2)" 0 m] bit_get_raw [of "(11, 2)" 1 m]
  by (simp add: get_field_def MPPValue_new_def and_3_eq Let_def)

lemma get_MPP_machine: "get_MPP m = MPP_Machine \<longleftrightarrow> bit m 11 \<and> bit m 12"
  using get_MPP_mode [of m] by (cases "get_MPP m") (auto split: if_splits)

lemma get_SPP_mode: "mode_of_spp (get_field SPPValue_new (8, Suc 0) m) = (if bit m 8 then Supervisor else User)"
  using bit_get_raw [of "(8, 1)" 0 m]
  by (simp add: get_field_def SPPValue_new_def and_one_eq)

lemma bit_mret_mstatus:
  assumes "n < 64"
  shows "bit (mret_mstatus m) n =
     (if n = 3 then bit m 7 else if n = 7 then True else if n = 11 \<or> n = 12 then False
      else if n = 17 then bit m 17 \<and> bit m 11 \<and> bit m 12 else bit m n)"
  using assms
  by (simp add: mret_mstatus_def Let_def bit_set_field_1 bit_set_field_2 get_bool_bit get_MPP_machine)

lemma bit_sret_mstatus:
  assumes "n < 64"
  shows "bit (sret_mstatus m) n =
     (if n = 1 then bit m 5 else if n = 5 then True else if n = 8 \<or> n = 17 then False else bit m n)"
  using assms
  by (simp add: sret_mstatus_def Let_def bit_set_field_1 get_bool_bit)

lemma mret_mstatus_legal: "mstatus_legal m \<Longrightarrow> mstatus_legal (mret_mstatus m)"
  by (rule mstatus_legal_control [of m]) (simp_all add: bit_mret_mstatus mstatus_control_def)

lemma sret_mstatus_legal: "mstatus_legal m \<Longrightarrow> mstatus_legal (sret_mstatus m)"
  by (rule mstatus_legal_control [of m])
     (simp_all add: bit_sret_mstatus mstatus_control_def mstatus_legal_def)

text \<open>The state after a successful trap return.\<close>

lemma run_mret_eq:
  assumes "csr_wf (h_csrs h)" "h_mode h = Machine"
  shows "run_mret h =
     (let m = csr_read (h_csrs h) (CSR_M Mstatus) in
      (Inr (csr_read (h_csrs h) (CSR_M Mepc)),
       h\<lparr>h_csrs := csr_write (h_csrs h) (CSR_M Mstatus) (mret_mstatus m),
         h_mode := mode_of_mpp (get_MPP m)\<rparr>))"
  using assms by (simp add: run_mret_def Let_def csr_read_write)

lemma run_sret_eq:
  assumes "csr_wf (h_csrs h)" "h_mode h \<noteq> User"
    and "\<not> get_TSR (csr_read (h_csrs h) (CSR_M Mstatus))"
  shows "run_sret h =
     (let m = csr_read (h_csrs h) (CSR_M Mstatus) in
      (Inr (csr_read (h_csrs h) (CSR_S Sepc)),
       h\<lparr>h_csrs := csr_write (h_csrs h) (CSR_M Mstatus) (sret_mstatus m),
         h_mode := mode_of_spp (get_SPP m)\<rparr>))"
proof -
  have "\<not> is_shadow (CSR_S Sepc)" by (simp add: is_shadow_def)
  then show ?thesis
    using assms by (simp add: run_sret_def Let_def csr_read_write)
qed

lemma csr_wf_mret: "csr_wf (h_csrs h) \<Longrightarrow> csr_wf (h_csrs (snd (run_mret h)))"
  by (cases "h_mode h") (simp_all add: run_mret_def Let_def csr_wf_write)

lemma csr_wf_sret: "csr_wf (h_csrs h) \<Longrightarrow> csr_wf (h_csrs (snd (run_sret h)))"
  by (simp add: run_sret_def Let_def csr_wf_write)

section \<open>CSR instructions are atomic\<close>

text \<open>
  The ISA manual's description of the six instructions: check the access, read the old value,
  write the new value unless there is no write effect, and put the old value in \<open>rd\<close>.
\<close>

definition atomic_csr ::
  "hart_state \<Rightarrow> CSRegister \<Rightarrow> bool \<Rightarrow> (CSRValue \<Rightarrow> CSRValue) \<Rightarrow> XRegister \<Rightarrow>
     (RException + unit) \<times> hart_state" where
  "atomic_csr h csr writes f rd =
     (if privilege_level (mode_privilege (h_mode h)) < privilege_level (csr_privilege csr) \<or>
         writes \<and> is_read_only csr
      then (Inl IllegalInstruction, h)
      else
        (Inr (),
         h\<lparr>h_csrs := (if writes then csr_write (h_csrs h) csr (f (csr_read (h_csrs h) csr))
                       else h_csrs h),
           h_xregs := xregs_write (h_xregs h) rd (csr_read (h_csrs h) csr)\<rparr>))"

fun csr_writes :: "csr_op \<Rightarrow> XRegister \<Rightarrow> bool" where
  "csr_writes Csrrw rs1 = True" | "csr_writes _ rs1 = (rs1 \<noteq> x0)"

fun csr_new :: "csr_op \<Rightarrow> XValue \<Rightarrow> CSRValue \<Rightarrow> CSRValue" where
  "csr_new Csrrw v old = v" | "csr_new Csrrs v old = old OR v" | "csr_new Csrrc v old = old AND NOT v"

fun csri_writes :: "csri_op \<Rightarrow> XValue \<Rightarrow> bool" where
  "csri_writes Csrrwi imm = True" | "csri_writes _ imm = (imm AND 0x1F \<noteq> 0)"

fun csri_new :: "csri_op \<Rightarrow> XValue \<Rightarrow> CSRValue \<Rightarrow> CSRValue" where
  "csri_new Csrrwi imm old = imm AND 0x1F"
| "csri_new Csrrsi imm old = old OR (imm AND 0x1F)"
| "csri_new Csrrci imm old = old AND NOT (imm AND 0x1F)"

lemma hart_csr_replace_atomic:
  "hart_csr_replace h csr v rd = atomic_csr h csr True (\<lambda>_. v) rd"
  by (simp add: hart_csr_replace_def atomic_csr_def check_privilege_def check_write_def
      csr_replace_eq xreg_is_zero_def Let_def)

lemma csr_modify_atomic:
  "(\<And>cs. upd cs = (csr_read cs csr, csr_write cs csr (f (csr_read cs csr)))) \<Longrightarrow>
     csr_modify h csr skip upd rd = atomic_csr h csr (\<not> skip) f rd"
  by (simp add: csr_modify_def atomic_csr_def check_privilege_def check_write_def Let_def)

lemma run_csr_op_atomic:
  "run_csr_op v h csr rs1 rd =
     atomic_csr h csr (csr_writes v rs1) (csr_new v (xregs_read (h_xregs h) rs1)) rd"
proof (cases v)
  case Csrrw
  then show ?thesis by (simp add: run_csrrw_def hart_csr_replace_atomic atomic_csr_def)
next
  case Csrrs
  then show ?thesis
    by (simp add: run_csrrs_def xreg_is_zero_def)
       (subst csr_modify_atomic, auto simp: csr_set_bits_def Let_def)
next
  case Csrrc
  then show ?thesis
    by (simp add: run_csrrc_def xreg_is_zero_def)
       (subst csr_modify_atomic, auto simp: csr_clear_bits_def Let_def)
qed

lemma run_csri_op_atomic:
  "run_csri_op v h csr imm rd = atomic_csr h csr (csri_writes v imm) (csri_new v imm) rd"
proof (cases v)
  case Csrrwi
  then show ?thesis by (simp add: run_csrrwi_def hart_csr_replace_atomic atomic_csr_def)
next
  case Csrrsi
  then show ?thesis
    by (simp add: run_csrrsi_def Let_def)
       (subst csr_modify_atomic, auto simp: csr_set_bits_def Let_def)
next
  case Csrrci
  then show ?thesis
    by (simp add: run_csrrci_def Let_def)
       (subst csr_modify_atomic, auto simp: csr_clear_bits_def Let_def)
qed

lemma csr_wf_atomic: "csr_wf (h_csrs h) \<Longrightarrow> csr_wf (h_csrs (snd (atomic_csr h csr wr f rd)))"
  by (simp add: atomic_csr_def csr_wf_write)

section \<open>Loads and stores\<close>

definition effective_address :: "machine_state \<Rightarrow> i64 \<Rightarrow> XRegister \<Rightarrow> Address" where
  "effective_address m imm rs1 = xregs_read (h_xregs (ms_hart m)) rs1 + imm"

fun load_size :: "load_op \<Rightarrow> nat" where
  "load_size Lb = 1" | "load_size Lbu = 1" | "load_size Lh = 2" | "load_size Lhu = 2"
| "load_size Lw = 4" | "load_size Lwu = 4" | "load_size Ld = 8"

fun store_size :: "store_op \<Rightarrow> nat" where
  "store_size Sb = 1" | "store_size Sh = 2" | "store_size Sw = 4" | "store_size Sd = 8"

text \<open>What a load makes of the low bytes of a register that was stored.\<close>

fun load_value :: "load_op \<Rightarrow> u64 \<Rightarrow> u64" where
  "load_value Lb v = scast (ucast v :: 8 word)" | "load_value Lbu v = ucast (ucast v :: 8 word)"
| "load_value Lh v = scast (ucast v :: 16 word)" | "load_value Lhu v = ucast (ucast v :: 16 word)"
| "load_value Lw v = scast (ucast v :: 32 word)" | "load_value Lwu v = ucast (ucast v :: 32 word)"
| "load_value Ld v = v"

lemmas load_defs = run_ld_def run_lw_def run_lh_def run_lb_def run_lwu_def run_lhu_def run_lbu_def
  load_with_def read_from_bus_def
lemmas store_defs = run_sd_def run_sw_def run_sh_def run_sb_def write_to_bus_def

lemma elem_sizes [simp]:
  "elem_size TYPE(8 word) = 1" "elem_size TYPE(16 word) = 2" "elem_size TYPE(32 word) = 4"
  "elem_size TYPE(64 word) = 8"
  by (simp_all add: elem_size_def)

lemma run_load_fault:
  assumes "bus_wf (ms_bus m)" "\<not> in_memory (ms_bus m) (effective_address m imm rs1) (load_size l)"
  shows "run_load l m imm rs1 rd = (Inl (LoadAccessFault (effective_address m imm rs1)), m)"
  using assms by (cases l) (simp_all add: load_defs effective_address_def Let_def bus_read_eq)

lemma run_store_fault:
  assumes "bus_wf (ms_bus m)" "\<not> in_memory (ms_bus m) (effective_address m imm rs1) (store_size s)"
  shows "run_store s m imm rs1 rs2 = (Inl (StoreAccessFault (effective_address m imm rs1)), m)"
  using assms by (cases s) (simp_all add: store_defs effective_address_def Let_def bus_write_eq)

lemma run_load_ok:
  assumes "bus_wf (ms_bus m)" "in_memory (ms_bus m) (effective_address m imm rs1) (load_size l)"
  shows "\<exists>v. run_load l m imm rs1 rd = (Inr (), write_rd m rd v)"
  using assms by (cases l) (auto simp: load_defs effective_address_def Let_def bus_read_eq)

lemma run_store_ok:
  assumes "bus_wf (ms_bus m)" "in_memory (ms_bus m) (effective_address m imm rs1) (store_size s)"
  shows "\<exists>b. run_store s m imm rs1 rs2 = (Inr (), m\<lparr>ms_bus := b\<rparr>) \<and> bus_wf b \<and>
             mem_BYTES (bus_memory b) = mem_BYTES (bus_memory (ms_bus m))"
  using assms by (cases s) (auto simp: store_defs effective_address_def Let_def bus_write_eq)

lemma load_after_store:
  assumes "bus_wf (ms_bus m)" "run_store s m imm rs1 rs2 = (Inr (), m')"
    and "load_size l = store_size s"
  shows "run_load l m' imm rs1 rd =
           (Inr (), write_rd m' rd (load_value l (xregs_read (h_xregs (ms_hart m)) rs2)))"
proof -
  have r: "bus_read b' a = Some v" if "bus_write (ms_bus m) a v = Some b'" "LENGTH('a) \<le> 64"
    "8 dvd LENGTH('a)" for a b' and v :: "'a::len word"
    using bus_read_write_same [OF assms(1) that(2,3,1)] .
  show ?thesis
    using assms(2,3)
    by (cases s; cases l) (auto simp: load_defs store_defs Let_def r split: option.splits)
qed

section \<open>Properties\<close>

text \<open>
  C31: the CSR instructions are atomic read-modify-writes. Without the privilege, or with a write
  to a read-only register, they are illegal and change nothing; otherwise the destination gets the
  old value and the register the new one computed from it, and set and clear with the register
  \<open>x0\<close> or a zero immediate do not write at all.
\<close>

theorem csr_instructions_atomic:
  "run_csr_op op h csr rs1 rd =
     atomic_csr h csr (csr_writes op rs1) (csr_new op (xregs_read (h_xregs h) rs1)) rd \<and>
   run_csri_op iop h csr imm rd = atomic_csr h csr (csri_writes iop imm) (csri_new iop imm) rd"
  by (simp add: run_csr_op_atomic run_csri_op_atomic)

definition example_machine :: machine_state where
  "example_machine = \<lparr>ms_hart = example_hart, ms_bus = example_bus\<rparr>"

lemma example_machine_simps:
  "ms_bus example_machine = example_bus" "ms_hart example_machine = example_hart"
  "effective_address example_machine imm rs1 = imm"
  by (simp_all add: effective_address_def example_machine_def example_hart_def hart_reset_def)

text \<open>
  C35: a load or store that does not lie in memory raises the access fault of its kind with the
  effective address and changes nothing; one that does lie in memory succeeds, whether or not the
  address is aligned.
\<close>

theorem access_faults:
  assumes "bus_wf (ms_bus m)"
  shows "(if in_memory (ms_bus m) (effective_address m imm rs1) (load_size l)
      then \<exists>v. run_load l m imm rs1 rd = (Inr (), write_rd m rd v)
      else run_load l m imm rs1 rd = (Inl (LoadAccessFault (effective_address m imm rs1)), m)) \<and>
    (if in_memory (ms_bus m) (effective_address m imm rs1) (store_size s)
      then \<exists>b. run_store s m imm rs1 rs2 = (Inr (), m\<lparr>ms_bus := b\<rparr>) \<and> bus_wf b
      else run_store s m imm rs1 rs2 = (Inl (StoreAccessFault (effective_address m imm rs1)), m))"
  using run_load_ok [OF assms] run_load_fault [OF assms] run_store_fault [OF assms]
    run_store_ok [OF assms, of imm rs1 s rs2]
  by auto

theorem access_faults_witness:
  "run_load Lw example_machine 0x8000003D x5 x6 = (Inl (LoadAccessFault 0x8000003D), example_machine) \<and>
   run_store Sd example_machine 0x10 x5 x6 = (Inl (StoreAccessFault 0x10), example_machine)"
proof -
  have wf: "bus_wf (ms_bus example_machine)" by (simp add: example_machine_simps example_bus_wf)
  show ?thesis
    using access_faults [OF wf, of "0x8000003D" x5 Lw x6 Sw]
      access_faults [OF wf, of "0x10" x5 Lw x6 Sd]
    by (simp add: example_machine_simps example_bus_in_memory)
qed

text \<open>
  C34: after a store a load of the same size from the same address succeeds and gives the stored
  bytes, extended with zeros or with the sign as the load prescribes.
\<close>

theorem store_then_load:
  assumes "bus_wf (ms_bus m)" "run_store s m imm rs1 rs2 = (Inr (), m')" "load_size l = store_size s"
  shows "run_load l m' imm rs1 rd =
    (Inr (), write_rd m' rd (load_value l (xregs_read (h_xregs (ms_hart m)) rs2)))"
  using assms by (rule load_after_store)

theorem store_then_load_witness:
  "run_load Lh (snd (run_store Sh example_machine 0x80000001 x5 x6)) 0x80000001 x5 x7 =
     (Inr (), write_rd (snd (run_store Sh example_machine 0x80000001 x5 x6)) x7
        (load_value Lh (xregs_read (h_xregs (ms_hart example_machine)) x6)))"
proof -
  have wf: "bus_wf (ms_bus example_machine)" by (simp add: example_machine_simps example_bus_wf)
  have "in_memory (ms_bus example_machine) (effective_address example_machine 0x80000001 x5) (store_size Sh)"
    by (simp add: example_machine_simps example_bus_in_memory)
  from run_store_ok [OF wf this, of x6]
  have "run_store Sh example_machine 0x80000001 x5 x6 =
      (Inr (), snd (run_store Sh example_machine 0x80000001 x5 x6))"
    by auto
  from store_then_load [OF wf this, of Lh x7] show ?thesis by simp
qed

end
