(* ===== verification/RV_Machine.thy ===== *)
theory RV_Machine
  imports RV_ISA
begin

text \<open>
  The machine (\<^verbatim>\<open>machine_state.rs\<close>): fetching and running an instruction, selecting a pending
  interrupt, taking traps, single steps and runs of steps. The bit operations of the crate
  \<open>twiddle\<close> are the parameter \<open>tw\<close>.
\<close>

unbundle bit_operations_syntax

section \<open>Operations\<close>

datatype ProgramCounterUpdate = PcSet Address | PcAdd u64

record StepManyResult =
  smr_steps :: nat
  smr_exception :: "EnvironException option"

definition machine_reset :: "machine_state \<Rightarrow> machine_state" where
  "machine_reset m =
     m\<lparr>ms_hart := hart_reset (ms_hart m) (start_of_main_memory (mem_BYTES (bus_memory (ms_bus m)))),
       ms_bus := bus_reset (ms_bus m)\<rparr>"

definition fetch_instr :: "machine_state \<Rightarrow> Address \<Rightarrow> RException + Instr" where
  "fetch_instr m pc =
     (case bus_read (ms_bus m) pc of
        None \<Rightarrow> Inl (InstructionAccessFault pc)
      | Some half_instr \<Rightarrow>
          (case parse half_instr
                  (case bus_read (ms_bus m) (pc + 2) of None \<Rightarrow> Inl () | Some upper \<Rightarrow> Inr upper) of
             Inl _ \<Rightarrow> Inl (InstructionAccessFault pc)
           | Inr instr \<Rightarrow> Inr instr))"

text \<open>The macros that lift a handler of the registers, of the hart or of the machine.\<close>

definition on_xregs :: "machine_state \<Rightarrow> (xregisters \<Rightarrow> xregisters) \<Rightarrow> machine_state" where
  "on_xregs m f = m\<lparr>ms_hart := (ms_hart m)\<lparr>h_xregs := f (h_xregs (ms_hart m))\<rparr>\<rparr>"

definition map_update ::
  "Instr \<Rightarrow> (RException + unit) \<times> machine_state \<Rightarrow>
     (RException + ProgramCounterUpdate) \<times> machine_state" where
  "map_update instr r =
     (case r of (Inl e, m) \<Rightarrow> (Inl e, m) | (Inr _, m) \<Rightarrow> (Inr (PcAdd (width instr)), m))"

definition lift_hart :: "machine_state \<Rightarrow> 'r \<times> hart_state \<Rightarrow> 'r \<times> machine_state" where
  "lift_hart m r = (fst r, m\<lparr>ms_hart := snd r\<rparr>)"

definition map_set ::
  "(RException + Address) \<times> machine_state \<Rightarrow>
     (RException + ProgramCounterUpdate) \<times> machine_state" where
  "map_set r = (case r of (Inl e, m) \<Rightarrow> (Inl e, m) | (Inr a, m) \<Rightarrow> (Inr (PcSet a), m))"

definition run_instr :: "machine_state \<Rightarrow> Instr \<Rightarrow> (RException + ProgramCounterUpdate) \<times> machine_state" where
  "run_instr m instr =
     (case instr of
        RType v a \<Rightarrow>
          (Inr (PcAdd (width instr)), on_xregs m (\<lambda>xs. run_r_type v xs (r_rs1 a) (r_rs2 a) (r_rd a)))
      | IType v a \<Rightarrow>
          (Inr (PcAdd (width instr)),
           on_xregs m (\<lambda>xs. run_i_type v xs (i_imm_arg a) (i_rs1 a) (i_rd a)))
      | Load v a \<Rightarrow> map_update instr (run_load v m (i_imm_arg a) (i_rs1 a) (i_rd a))
      | Fence a \<Rightarrow> (Inr (PcAdd (width instr)), run_fence m (fence_pred a) (fence_succ a))
      | FenceTso _ \<Rightarrow> (Inl IllegalInstruction, m)
      | Ecall \<Rightarrow> (Inl (run_ecall (ms_hart m)), m)
      | Ebreak \<Rightarrow> (Inl (run_ebreak (ms_hart m)), m)
      | Store v a \<Rightarrow> map_update instr (run_store v m (sb_imm a) (sb_rs1 a) (sb_rs2 a))
      | Branch v a \<Rightarrow>
          (Inr (PcSet (run_b_type v (ms_hart m) (sb_imm a) (sb_rs1 a) (sb_rs2 a))), m)
      | Lui a \<Rightarrow> (Inr (PcAdd (width instr)), on_xregs m (\<lambda>xs. run_lui xs (uj_imm a) (uj_rd a)))
      | Auipc a \<Rightarrow>
          (Inr (PcAdd (width instr)), m\<lparr>ms_hart := run_auipc (ms_hart m) (uj_imm a) (uj_rd a)\<rparr>)
      | Jal a \<Rightarrow>
          (let (addr, h) = run_jal (ms_hart m) (uj_imm a) (uj_rd a)
           in (Inr (PcSet addr), m\<lparr>ms_hart := h\<rparr>))
      | Jalr a \<Rightarrow>
          (let (addr, h) = run_jalr (ms_hart m) (i_imm_arg a) (i_rs1 a) (i_rd a)
           in (Inr (PcSet addr), m\<lparr>ms_hart := h\<rparr>))
      | Csr v a \<Rightarrow>
          map_update instr (lift_hart m (run_csr_op v (ms_hart m) (csr_csr a) (csr_rs1 a) (csr_rd a)))
      | Csri v a \<Rightarrow>
          map_update instr
            (lift_hart m (run_csri_op v (ms_hart m) (csri_csr a) (csri_imm a) (csri_rd a)))
      | FenceI \<Rightarrow> (Inr (PcAdd (width instr)), run_fencei m)
      | Mret \<Rightarrow> map_set (lift_hart m (run_mret (ms_hart m)))
      | Sret \<Rightarrow> map_set (lift_hart m (run_sret (ms_hart m)))
      | Mnret \<Rightarrow> (Inl IllegalInstruction, m)
      | Wfi \<Rightarrow> (Inr (PcAdd (width instr)), run_wfi m)
      | Unknown _ \<Rightarrow> (Inl IllegalInstruction, m)
      | UnknownCompressed _ \<Rightarrow> (Inl IllegalInstruction, m))"

definition run_instr_at ::
  "machine_state \<Rightarrow> u64 \<Rightarrow> (RException + ProgramCounterUpdate) \<times> machine_state" where
  "run_instr_at m instr_pc =
     (case fetch_instr m instr_pc of Inl e \<Rightarrow> (Inl e, m) | Inr instr \<Rightarrow> run_instr m instr)"

definition get_pending_interrupt :: "twiddle \<Rightarrow> machine_state \<Rightarrow> Interrupt option" where
  "get_pending_interrupt tw m =
     (let current_mode = h_mode (ms_hart m);
          possible = possible_interrupts (h_csrs (ms_hart m)) current_mode
      in if possible = 0 then None
         else
           (let mip = csr_read (h_csrs (ms_hart m)) (CSR_M Mip);
                active_interrupts = mip AND possible;
                active = (\<lambda>i. tw_bit tw active_interrupts (unat (exception_code (TrapInterrupt i))))
            in if active MachineExternal then Some MachineExternal
               else if active MachineSoftware then Some MachineSoftware
               else if active MachineTimer then Some MachineTimer
               else if active SupervisorExternal then Some SupervisorExternal
               else if active SupervisorSoftware then Some SupervisorSoftware
               else if active SupervisorTimer then Some SupervisorTimer
               else None))"

definition address_on_interrupt ::
  "twiddle \<Rightarrow> machine_state \<Rightarrow> Interrupt \<Rightarrow> (EnvironException + Address) \<times> machine_state" where
  "address_on_interrupt tw m interrupt =
     (let h = ms_hart m;
          current_pc = h_pc h;
          mip = csr_read (h_csrs h) (CSR_M Mip);
          h = h\<lparr>h_csrs := csr_write (h_csrs h) (CSR_M Mip)
                  (tw_set_bit tw mip (unat (exception_code (TrapInterrupt interrupt))) False)\<rparr>;
          (new_pc, h) = take_trap tw h (TrapInterrupt interrupt) current_pc
      in (Inr new_pc, m\<lparr>ms_hart := h\<rparr>))"

definition address_on_exception ::
  "twiddle \<Rightarrow> machine_state \<Rightarrow> RException \<Rightarrow> Address \<Rightarrow>
     (EnvironException + Address) \<times> machine_state" where
  "address_on_exception tw m exception current_pc =
     (case environ_try_from exception of
        Some exc \<Rightarrow> (Inl exc, m\<lparr>ms_hart := (ms_hart m)\<lparr>h_pc := current_pc\<rparr>\<rparr>)
      | None \<Rightarrow>
          (let (addr, h) = take_trap tw (ms_hart m) (TrapException exception) current_pc
           in (Inr addr, m\<lparr>ms_hart := h\<rparr>)))"

definition set_pc :: "machine_state \<Rightarrow> Address \<Rightarrow> machine_state" where
  "set_pc m a = m\<lparr>ms_hart := (ms_hart m)\<lparr>h_pc := a\<rparr>\<rparr>"

text \<open>The part of \<open>step\<close> after the address of the instruction is known.\<close>

definition step_at :: "twiddle \<Rightarrow> machine_state \<Rightarrow> Address \<Rightarrow> (EnvironException + unit) \<times> machine_state" where
  "step_at tw m instr_pc =
     (let (instr_result, m) = run_instr_at m instr_pc
      in case instr_result of
           Inl exc \<Rightarrow>
             (case address_on_exception tw m exc instr_pc of
                (Inl e, m) \<Rightarrow> (Inl e, m)
              | (Inr address, m) \<Rightarrow> (Inr (), set_pc m address))
         | Inr (PcSet address) \<Rightarrow> (Inr (), set_pc m address)
         | Inr (PcAdd w) \<Rightarrow> (Inr (), set_pc m (instr_pc + w)))"

definition step :: "twiddle \<Rightarrow> machine_state \<Rightarrow> (EnvironException + unit) \<times> machine_state" where
  "step tw m =
     (case get_pending_interrupt tw m of
        None \<Rightarrow> step_at tw m (h_pc (ms_hart m))
      | Some interrupt \<Rightarrow>
          (case address_on_interrupt tw m interrupt of
             (Inl e, m) \<Rightarrow> (Inl e, m)
           | (Inr instr_pc, m) \<Rightarrow> step_at tw m instr_pc))"

text \<open>The loop of \<open>step_many\<close>, from \<open>steps_done\<close>.\<close>

function step_many_from ::
  "twiddle \<Rightarrow> nat \<Rightarrow> (machine_state \<Rightarrow> bool) \<Rightarrow> nat \<Rightarrow> machine_state \<Rightarrow> StepManyResult \<times> machine_state" where
  "step_many_from tw max_steps should_continue steps_done m =
     (if steps_done < max_steps \<and> should_continue m then
        (case step tw m of
           (Inr _, m') \<Rightarrow> step_many_from tw max_steps should_continue (steps_done + 1) m'
         | (Inl e, m') \<Rightarrow> (\<lparr>smr_steps = steps_done, smr_exception = Some e\<rparr>, m'))
      else (\<lparr>smr_steps = steps_done, smr_exception = None\<rparr>, m))"
  by pat_completeness auto

termination
  by (relation "measure (\<lambda>(tw, mx, c, d, m). mx - d)") auto

declare step_many_from.simps [simp del]

definition step_many ::
  "twiddle \<Rightarrow> machine_state \<Rightarrow> nat \<Rightarrow> (machine_state \<Rightarrow> bool) \<Rightarrow> StepManyResult \<times> machine_state" where
  "step_many tw m max_steps should_continue = step_many_from tw max_steps should_continue 0 m"

section \<open>Shapes of instruction effects\<close>

lemma write_rd_simps [simp]:
  "ms_bus (write_rd m rd v) = ms_bus m"
  "h_csrs (ms_hart (write_rd m rd v)) = h_csrs (ms_hart m)"
  "h_mode (ms_hart (write_rd m rd v)) = h_mode (ms_hart m)"
  "h_pc (ms_hart (write_rd m rd v)) = h_pc (ms_hart m)"
  "h_fregs (ms_hart (write_rd m rd v)) = h_fregs (ms_hart m)"
  "h_xregs (ms_hart (write_rd m rd v)) = xregs_write (h_xregs (ms_hart m)) rd v"
  by (simp_all add: write_rd_def)

lemma write_rd_x0 [simp]: "write_rd m x0 v = m"
  by (simp add: write_rd_def)

lemma run_load_shape:
  "\<exists>e. run_load l m imm rs1 rd = (Inl e, m) \<or> (\<exists>v. run_load l m imm rs1 rd = (Inr (), write_rd m rd v))"
  by (cases l) (auto simp: load_defs Let_def split: option.split)

lemma run_store_shape:
  "\<exists>e. run_store s m imm rs1 rs2 = (Inl e, m) \<or>
       (\<exists>b. run_store s m imm rs1 rs2 = (Inr (), m\<lparr>ms_bus := b\<rparr>) \<and>
            (bus_wf (ms_bus m) \<longrightarrow> bus_wf b))"
  by (cases s) (auto simp: store_defs Let_def bus_wf_write split: option.split)

lemma run_mret_error: "fst (run_mret h) = Inl e \<Longrightarrow> snd (run_mret h) = h"
  by (cases "h_mode h") (simp_all add: run_mret_def Let_def)

lemma run_sret_error: "fst (run_sret h) = Inl e \<Longrightarrow> snd (run_sret h) = h"
  by (simp add: run_sret_def Let_def split: if_splits)

lemma atomic_csr_error: "fst (atomic_csr h csr wr f rd) = Inl e \<Longrightarrow> snd (atomic_csr h csr wr f rd) = h"
  by (auto simp: atomic_csr_def split: if_splits)

text \<open>A successful instruction does one of five things.\<close>

lemma on_xregs_write_rd: "on_xregs m (\<lambda>xs. xregs_write xs rd (f xs)) = write_rd m rd (f (h_xregs (ms_hart m)))"
  by (simp add: on_xregs_def write_rd_def)

lemma on_xregs_r: "\<exists>v. on_xregs m (\<lambda>xs. run_r_type op xs rs1 rs2 rd) = write_rd m rd v"
  by (auto simp: run_r_type_result on_xregs_write_rd)

lemma on_xregs_i: "\<exists>v. on_xregs m (\<lambda>xs. run_i_type op xs imm rs1 rd) = write_rd m rd v"
  using run_i_type_write [of op "h_xregs (ms_hart m)" imm rs1 rd]
  by (auto simp: on_xregs_def write_rd_def)

lemma run_instr_cases:
  assumes "run_instr m i = (Inr u, m')"
  obtains (reg) rd v where "m' = write_rd m rd v"
    | (mem) b where "m' = m\<lparr>ms_bus := b\<rparr>" "bus_wf (ms_bus m) \<longrightarrow> bus_wf b"
    | (csr) csr wr f rd h where
        "atomic_csr (ms_hart m) csr wr f rd = (Inr (), h)" "m' = m\<lparr>ms_hart := h\<rparr>"
    | (mret) a h where "i = Mret" "run_mret (ms_hart m) = (Inr a, h)" "m' = m\<lparr>ms_hart := h\<rparr>" "u = PcSet a"
    | (sret) a h where "i = Sret" "run_sret (ms_hart m) = (Inr a, h)" "m' = m\<lparr>ms_hart := h\<rparr>" "u = PcSet a"
proof -
  have skip: thesis if "m' = m"
    using reg [of x0 undefined] that by simp
  show thesis
  proof (cases i)
    case (RType op a)
    obtain v where "on_xregs m (\<lambda>xs. run_r_type op xs (r_rs1 a) (r_rs2 a) (r_rd a)) = write_rd m (r_rd a) v"
      using on_xregs_r by blast
    with assms RType have "m' = write_rd m (r_rd a) v" by (simp add: run_instr_def)
    then show thesis by (rule reg)
  next
    case (IType op a)
    obtain v where
      "on_xregs m (\<lambda>xs. run_i_type op xs (i_imm_arg a) (i_rs1 a) (i_rd a)) = write_rd m (i_rd a) v"
      using on_xregs_i by blast
    with assms IType have "m' = write_rd m (i_rd a) v" by (simp add: run_instr_def)
    then show thesis by (rule reg)
  next
    case (Load op a)
    with assms run_load_shape [of op m "i_imm_arg a" "i_rs1 a" "i_rd a"] show thesis
      by (auto simp: run_instr_def map_update_def intro: reg)
  next
    case (Store op a)
    with assms run_store_shape [of op m "sb_imm a" "sb_rs1 a" "sb_rs2 a"] show thesis
      by (auto simp: run_instr_def map_update_def intro: mem)
  next
    case (Lui a)
    with assms show thesis
      by (auto simp: run_instr_def run_lui_def on_xregs_write_rd intro: reg)
  next
    case (Auipc a)
    with assms show thesis
      by (auto simp: run_instr_def run_auipc_def write_rd_def Let_def intro: reg)
  next
    case (Jal a)
    with assms show thesis
      by (auto simp: run_instr_def run_jal_def run_jal_impl_def write_rd_def Let_def intro: reg)
  next
    case (Jalr a)
    with assms show thesis
      by (auto simp: run_instr_def run_jalr_def run_jalr_impl_def write_rd_def Let_def intro: reg)
  next
    case (Csr op a)
    obtain r h where rh: "run_csr_op op (ms_hart m) (csr_csr a) (csr_rs1 a) (csr_rd a) = (r, h)"
      by fastforce
    with assms Csr have "r = Inr ()" "m' = m\<lparr>ms_hart := h\<rparr>"
      by (auto simp: run_instr_def map_update_def lift_hart_def split: sum.splits)
    with rh show thesis
      by (intro csr) (simp_all add: run_csr_op_atomic)
  next
    case (Csri op a)
    obtain r h where rh: "run_csri_op op (ms_hart m) (csri_csr a) (csri_imm a) (csri_rd a) = (r, h)"
      by fastforce
    with assms Csri have "r = Inr ()" "m' = m\<lparr>ms_hart := h\<rparr>"
      by (auto simp: run_instr_def map_update_def lift_hart_def split: sum.splits)
    with rh show thesis
      by (intro csr) (simp_all add: run_csri_op_atomic)
  next
    case Mret
    with assms show thesis
      by (cases "run_mret (ms_hart m)")
         (auto simp: run_instr_def map_set_def lift_hart_def split: sum.splits intro: mret)
  next
    case Sret
    with assms show thesis
      by (cases "run_sret (ms_hart m)")
         (auto simp: run_instr_def map_set_def lift_hart_def split: sum.splits intro: sret)
  qed (use assms in \<open>auto simp: run_instr_def run_fence_def run_fencei_def run_wfi_def intro: skip\<close>)
qed

text \<open>A failing instruction changes nothing.\<close>

lemma map_update_lift_error:
  "map_update i (lift_hart m r) = (Inl e, m') \<Longrightarrow> fst r = Inl e \<and> m' = m\<lparr>ms_hart := snd r\<rparr>"
  by (auto simp: map_update_def lift_hart_def split: sum.splits)

lemma map_set_lift_error:
  "map_set (lift_hart m r) = (Inl e, m') \<Longrightarrow> fst r = Inl e \<and> m' = m\<lparr>ms_hart := snd r\<rparr>"
  by (auto simp: map_set_def lift_hart_def split: sum.splits)

lemma run_instr_error:
  assumes "run_instr m i = (Inl e, m')"
  shows "m' = m"
proof (cases i)
  case (Load op a)
  with assms show ?thesis
    using run_load_shape [of op m "i_imm_arg a" "i_rs1 a" "i_rd a"]
    by (auto simp: run_instr_def map_update_def)
next
  case (Store op a)
  with assms show ?thesis
    using run_store_shape [of op m "sb_imm a" "sb_rs1 a" "sb_rs2 a"]
    by (auto simp: run_instr_def map_update_def)
next
  case (Csr op a)
  with assms show ?thesis
    by (auto simp: run_instr_def run_csr_op_atomic atomic_csr_error dest!: map_update_lift_error)
next
  case (Csri op a)
  with assms show ?thesis
    by (auto simp: run_instr_def run_csri_op_atomic atomic_csr_error dest!: map_update_lift_error)
next
  case Mret
  with assms show ?thesis
    by (auto simp: run_instr_def run_mret_error dest!: map_set_lift_error)
next
  case Sret
  with assms show ?thesis
    by (auto simp: run_instr_def run_sret_error dest!: map_set_lift_error)
qed (use assms in \<open>auto simp: run_instr_def split: prod.splits\<close>)

end
