(* ===== verification/RV_Safety.thy ===== *)
theory RV_Safety
  imports RV_Machine
begin

text \<open>
  Invariants and safety of the machine: what every step preserves, precise exceptions,
  privilege isolation, interrupt selection, and trap entry followed by trap return.
\<close>

unbundle bit_operations_syntax

section \<open>The machine invariant\<close>

definition machine_wf :: "machine_state \<Rightarrow> bool" where
  "machine_wf m \<longleftrightarrow> csr_wf (h_csrs (ms_hart m)) \<and> bus_wf (ms_bus m)"

lemma machine_wf_write_rd [simp]: "machine_wf (write_rd m rd v) = machine_wf m"
  by (simp add: machine_wf_def)

lemma machine_wf_set_pc [simp]: "machine_wf (set_pc m a) = machine_wf m"
  by (simp add: machine_wf_def set_pc_def)

lemma machine_wf_hart: "csr_wf (h_csrs h) \<Longrightarrow> machine_wf m \<Longrightarrow> machine_wf (m\<lparr>ms_hart := h\<rparr>)"
  by (simp add: machine_wf_def)

lemma machine_wf_run_instr:
  assumes "machine_wf m" "run_instr m i = (r, m')"
  shows "machine_wf m'"
proof (cases r)
  case (Inl e)
  with assms run_instr_error show ?thesis by blast
next
  case (Inr u)
  have wf: "csr_wf (h_csrs (ms_hart m))" using assms(1) by (simp add: machine_wf_def)
  from assms(2) Inr have "run_instr m i = (Inr u, m')" by simp
  then show ?thesis
  proof (cases rule: run_instr_cases)
    case (csr c wr f rd h)
    with csr_wf_atomic [OF wf, of c wr f rd] assms(1) show ?thesis by (simp add: machine_wf_hart)
  next
    case (mret a h)
    with csr_wf_mret [OF wf] assms(1) show ?thesis by (simp add: machine_wf_hart)
  next
    case (sret a h)
    with csr_wf_sret [OF wf] assms(1) show ?thesis by (simp add: machine_wf_hart)
  qed (use assms(1) in \<open>simp_all add: machine_wf_def\<close>)
qed

lemma machine_wf_step_at:
  assumes "machine_wf m"
  shows "machine_wf (snd (step_at tw m pc))"
proof -
  obtain r m1 where r: "run_instr_at m pc = (r, m1)" by fastforce
  have wf1: "machine_wf m1"
    using r assms machine_wf_run_instr by (auto simp: run_instr_at_def split: sum.splits)
  then have wf: "csr_wf (h_csrs (ms_hart m1))" by (simp add: machine_wf_def)
  show ?thesis
  proof (cases r)
    case (Inl e)
    then show ?thesis
      using r wf1 csr_wf_take_trap [OF wf, of tw "TrapException e" pc]
      by (auto simp: step_at_def address_on_exception_def Let_def machine_wf_hart set_pc_def
          machine_wf_def split: option.split prod.splits)
  next
    case (Inr u)
    then show ?thesis using r wf1 by (cases u) (simp_all add: step_at_def)
  qed
qed

lemma machine_wf_interrupt:
  "machine_wf m \<Longrightarrow> machine_wf (snd (address_on_interrupt tw m i))"
  using csr_wf_take_trap csr_wf_write
  by (fastforce simp: address_on_interrupt_def Let_def machine_wf_def split: prod.splits
      dest: arg_cong [of _ _ snd])

lemma machine_wf_step: "machine_wf m \<Longrightarrow> machine_wf (snd (step tw m))"
  using machine_wf_step_at machine_wf_interrupt [of m tw]
  by (auto simp: step_def split: option.split prod.split sum.split)
     (metis snd_conv)+

lemma machine_wf_reset: "bus_wf (ms_bus m) \<Longrightarrow> machine_wf (machine_reset m)"
  by (simp add: machine_wf_def machine_reset_def hart_reset_def bus_reset_def bus_wf_def
      mem_reset_def csr_wf_reset)

section \<open>Privilege isolation\<close>

text \<open>The registers that the current mode may not access.\<close>

definition protected :: "Mode \<Rightarrow> CSRegister \<Rightarrow> bool" where
  "protected mode r \<longleftrightarrow> privilege_level (mode_privilege mode) < privilege_level (csr_privilege r)"

text \<open>
  The part of a register that is outside the supervisor's view of it: the bits of \<open>mstatus\<close>,
  \<open>mip\<close> and \<open>mie\<close> that \<open>sstatus\<close>, \<open>sip\<close> and \<open>sie\<close> do not show, and the whole of any other register.
\<close>

definition machine_only :: "CSRegister \<Rightarrow> CSRValue \<Rightarrow> CSRValue" where
  "machine_only r v =
     (if r = CSR_M Mstatus then v AND NOT SSTATUS_FIELDS_MASK
      else if r = CSR_M Mip \<or> r = CSR_M Mie then v AND NOT WARL_MASK_SIP_SIE
      else v)"

lemma shadow_levels:
  "privilege_level (csr_privilege (CSR_S Sstatus)) = 1"
  "privilege_level (csr_privilege (CSR_S Sip)) = 1"
  "privilege_level (csr_privilege (CSR_S Sie)) = 1"
  "privilege_level (csr_privilege (CSR_M Mstatus)) = 3"
  "privilege_level (csr_privilege (CSR_M Mip)) = 3"
  "privilege_level (csr_privilege (CSR_M Mie)) = 3"
  by (simp_all add: csr_privilege_level csr_addr.simps)

lemma protected_Machine [simp]: "\<not> protected Machine r"
  by (cases "csr_privilege r") (simp_all add: protected_def)

text \<open>A register below the access level is not shadowed by one above it.\<close>

lemma unprotected_source:
  assumes "protected mode r" "\<not> protected mode csr" "shadow_source r = shadow_source csr"
  shows "mode = Supervisor \<and>
         (r, csr) \<in> {(CSR_M Mstatus, CSR_S Sstatus), (CSR_M Mip, CSR_S Sip), (CSR_M Mie, CSR_S Sie)}"
proof -
  have "r \<noteq> csr" using assms by auto
  with assms(3) have "(r, csr) \<in> {(CSR_M Mstatus, CSR_S Sstatus), (CSR_M Mip, CSR_S Sip),
      (CSR_M Mie, CSR_S Sie), (CSR_S Sstatus, CSR_M Mstatus), (CSR_S Sip, CSR_M Mip),
      (CSR_S Sie, CSR_M Mie)}"
    by (auto simp: shadow_source_def split: if_splits)
  then show ?thesis
    using assms(1,2) shadow_levels by (cases mode) (auto simp: protected_def)
qed

lemma csr_write_protected:
  assumes "protected mode r" "\<not> protected mode csr"
  shows "machine_only r (csr_read (csr_write cs csr v) r) = machine_only r (csr_read cs r)"
    and "mode = User \<Longrightarrow> csr_read (csr_write cs csr v) r = csr_read cs r"
proof -
  have other: "csr_read (csr_write cs csr v) r = csr_read cs r"
    if "shadow_source r \<noteq> shadow_source csr"
    using that by (rule csr_read_write_other)
  show "mode = User \<Longrightarrow> csr_read (csr_write cs csr v) r = csr_read cs r"
    using other unprotected_source [OF assms] by auto
  show "machine_only r (csr_read (csr_write cs csr v) r) = machine_only r (csr_read cs r)"
  proof (cases "shadow_source r = shadow_source csr")
    case True
    then have "(r, csr) \<in> {(CSR_M Mstatus, CSR_S Sstatus), (CSR_M Mip, CSR_S Sip),
        (CSR_M Mie, CSR_S Sie)}"
      using unprotected_source [OF assms] by auto
    then show ?thesis
      by (auto simp: csr_read_view csr_write_store shadow_source_def shadow_store_def
          machine_only_def is_shadow_def bit_simps split: option.split intro!: bit_word_eqI)
  next
    case False
    with other show ?thesis by simp
  qed
qed

text \<open>A supervisor trap return clears \<open>MPRV\<close>, bit 17 of \<open>mstatus\<close>, and keeps the rest.\<close>

definition sret_keeps :: "CSRegister \<Rightarrow> CSRValue" where
  "sret_keeps r = (if r = CSR_M Mstatus then NOT (2 ^ 17) else NOT 0)"

lemma bit_sret_keeps: "n < 64 \<Longrightarrow> bit (sret_keeps r) n \<longleftrightarrow> r \<noteq> CSR_M Mstatus \<or> n \<noteq> 17"
  unfolding sret_keeps_def by (auto simp only: bit_not_iff bit_exp_iff bit_0_eq split: if_splits) simp_all

lemma sret_protected:
  assumes "csr_wf cs"
  shows "machine_only r
           (csr_read (csr_write cs (CSR_M Mstatus) (sret_mstatus (csr_read cs (CSR_M Mstatus)))) r) =
         machine_only r (csr_read cs r) AND sret_keeps r \<or> \<not> protected Supervisor r"
proof (cases "r = CSR_M Mstatus")
  case True
  let ?m = "csr_read cs (CSR_M Mstatus)"
  have "bit (machine_only r (sret_mstatus ?m)) n = bit (machine_only r ?m AND sret_keeps r) n"
    if "n < 64" for n
    using that True
    by (auto simp: machine_only_def bit_sret_keeps bit_and_iff bit_not_iff bit_sret_mstatus
        bit_SSTATUS_FIELDS_MASK)
  then have "machine_only r (sret_mstatus ?m) = machine_only r ?m AND sret_keeps r"
    by (intro bit_word_eqI) simp
  then show ?thesis
    using True mstatus_writable_legal [OF sret_mstatus_legal [OF csr_wf_mstatus [OF assms]]]
    by (simp add: csr_read_write)
next
  case False
  then show ?thesis
    by (cases "is_shadow r")
       (auto simp: csr_read_write is_shadow_def protected_def shadow_levels sret_keeps_def)
qed

lemma mode_of_spp_not_machine [simp]: "mode_of_spp v \<noteq> Machine"
  by (cases v) simp_all

lemma mode_le_Machine [simp]: "mode_le m Machine"
  by (cases m) (simp_all add: mode_le_def word_le_nat_alt)

definition isolated :: "Instr \<Rightarrow> machine_state \<Rightarrow> machine_state \<Rightarrow> CSRegister \<Rightarrow> bool" where
  "isolated i m m' r \<longleftrightarrow>
     mode_le (h_mode (ms_hart m')) (h_mode (ms_hart m)) \<and>
     (protected (h_mode (ms_hart m)) r \<longrightarrow>
        machine_only r (csr_read (h_csrs (ms_hart m')) r) =
          machine_only r (csr_read (h_csrs (ms_hart m)) r) AND (if i = Sret then sret_keeps r else NOT 0) \<and>
        (h_mode (ms_hart m) = User \<longrightarrow>
           csr_read (h_csrs (ms_hart m')) r = csr_read (h_csrs (ms_hart m)) r))"

lemma sret_isolated:
  assumes wf: "machine_wf m" and run: "run_instr m Sret = (Inr u, m')"
  shows "isolated Sret m m' r"
proof -
  let ?cs = "h_csrs (ms_hart m)"
  have cwf: "csr_wf ?cs" using wf by (simp add: machine_wf_def)
  from run have "h_mode (ms_hart m) \<noteq> User"
    "h_csrs (ms_hart m') = csr_write ?cs (CSR_M Mstatus) (sret_mstatus (csr_read ?cs (CSR_M Mstatus)))"
    "h_mode (ms_hart m') = mode_of_spp (get_SPP (csr_read ?cs (CSR_M Mstatus)))"
    by (auto simp: run_instr_def map_set_def lift_hart_def run_sret_def Let_def split: if_splits)
  then show ?thesis
    using sret_protected [OF cwf, of r]
    by (cases "h_mode (ms_hart m)"; cases "get_SPP (csr_read ?cs (CSR_M Mstatus))")
       (auto simp: isolated_def mode_le_def)
qed

lemma run_instr_isolated:
  assumes wf: "machine_wf m" and run: "run_instr m i = (Inr u, m')"
  shows "isolated i m m' r"
proof (cases "i = Sret")
  case True
  with assms sret_isolated show ?thesis by blast
next
  case False
  let ?mode = "h_mode (ms_hart m)"
  from run show ?thesis
  proof (cases rule: run_instr_cases)
    case (csr c wr f rd h)
    then have "\<not> protected ?mode c" and h: "h_mode h = ?mode"
      "h_csrs h = (if wr then csr_write (h_csrs (ms_hart m)) c (f (csr_read (h_csrs (ms_hart m)) c))
                   else h_csrs (ms_hart m))"
      by (auto simp: atomic_csr_def protected_def split: if_splits)
    then show ?thesis
      using False csr(2) csr_write_protected [of ?mode r c] by (auto simp: isolated_def mode_le_def)
  next
    case (mret a h)
    then have "?mode = Machine"
      by (cases ?mode) (simp_all add: run_mret_def)
    then show ?thesis by (simp add: isolated_def)
  next
    case (sret a h)
    with False show ?thesis by simp
  qed (simp_all add: False isolated_def mode_le_def)
qed

section \<open>Interrupts\<close>

definition interrupt_priority :: "Interrupt list" where
  "interrupt_priority =
     [MachineExternal, MachineSoftware, MachineTimer, SupervisorExternal, SupervisorSoftware,
      SupervisorTimer]"

text \<open>The interrupts that are pending and that the current mode does not mask.\<close>

definition interrupt_active :: "machine_state \<Rightarrow> Interrupt \<Rightarrow> bool" where
  "interrupt_active m i \<longleftrightarrow>
     bit (csr_read (h_csrs (ms_hart m)) (CSR_M Mip) AND
          possible_interrupts (h_csrs (ms_hart m)) (h_mode (ms_hart m)))
       (unat (exception_code_const i))"

lemma tw_bit_interrupt:
  "twiddle_spec tw \<Longrightarrow> tw_bit tw w (unat (exception_code_const i)) = bit w (unat (exception_code_const i))"
  using tw_bit_code [of tw w "TrapInterrupt i"] by simp

lemma get_pending_interrupt_find:
  "twiddle_spec tw \<Longrightarrow> get_pending_interrupt tw m = find (interrupt_active m) interrupt_priority"
  by (simp add: get_pending_interrupt_def interrupt_priority_def interrupt_active_def Let_def
      tw_bit_interrupt del: exception_code_const.simps)

lemma mip_clear_accepts:
  assumes "twiddle_spec tw" "csr_accepts (CSR_M Mip) v" "i < 64"
  shows "csr_accepts (CSR_M Mip) (tw_set_bit tw v i False)"
  using assms unfolding sip_sie_legal_parts and_eq_self_iff
  by (auto simp: bit_tw_set_bit split: if_splits)

lemma exception_code_const_less: "unat (exception_code_const i) < 64"
  by (cases i) simp_all

lemma mip_after_interrupt:
  assumes "twiddle_spec tw" "machine_wf m"
  shows "csr_read (h_csrs (ms_hart (snd (address_on_interrupt tw m i)))) (CSR_M Mip) =
         tw_set_bit tw (csr_read (h_csrs (ms_hart m)) (CSR_M Mip)) (unat (exception_code_const i)) False"
proof -
  let ?cs = "h_csrs (ms_hart m)" and ?n = "unat (exception_code_const i)"
  let ?v = "tw_set_bit tw (csr_read ?cs (CSR_M Mip)) ?n False"
  let ?h = "(ms_hart m)\<lparr>h_csrs := csr_write ?cs (CSR_M Mip) ?v\<rparr>"
  have wf: "csr_wf ?cs" using assms(2) by (simp add: machine_wf_def)
  then have "csr_accepts (CSR_M Mip) ?v"
    using assms(1) exception_code_const_less [of i] by (intro mip_clear_accepts) (simp_all add: csr_wf_iff)
  then have "csr_read (h_csrs ?h) (CSR_M Mip) = ?v"
    by (simp add: csr_read_write csr_accepts_def)
  moreover have "csr_wf (h_csrs ?h)" using wf by (simp add: csr_wf_write)
  ultimately show ?thesis
    using take_trap_csrs [of ?h "CSR_M Mip" tw "TrapInterrupt i"
        "get_trap_mode tw (h_csrs ?h) (TrapInterrupt i) (h_mode ?h)" "h_pc ?h"]
    by (cases "get_trap_mode tw (h_csrs ?h) (TrapInterrupt i) (h_mode ?h)")
       (simp_all add: address_on_interrupt_def Let_def case_prod_beta)
qed

text \<open>
  Taking an interrupt masks further interrupts of its level: in machine mode all of them, in
  supervisor mode those below machine level.
\<close>

lemma possible_after_trap:
  assumes "csr_wf (h_csrs h)"
  shows "possible_interrupts (h_csrs (snd (take_trap tw h src rpc))) (h_mode (snd (take_trap tw h src rpc))) =
     (case get_trap_mode tw (h_csrs h) src (h_mode h) of TrapMachine \<Rightarrow> 0 | TrapSupervisor \<Rightarrow> MACHINE_BIT_MASK)"
  using assms
  by (cases "get_trap_mode tw (h_csrs h) src (h_mode h)")
     (simp_all add: possible_interrupts_def take_trap_frame take_trap_csrs Let_def get_bool_bit
       bit_trap_mstatus del: trap_mstatus.simps)

section \<open>Trap entry and return\<close>

lemma trap_then_mret:
  assumes "csr_wf (h_csrs h)" "get_trap_mode tw (h_csrs h) src (h_mode h) = TrapMachine"
    and h1: "h1 = snd (take_trap tw h src rpc)" and h2: "h2 = snd (run_mret h1)"
  shows "fst (run_mret h1) = Inr (rpc AND NOT 1)" "h_mode h2 = h_mode h"
    and "n < 64 \<Longrightarrow> bit (csr_read (h_csrs h2) (CSR_M Mstatus)) n =
          (let m = csr_read (h_csrs h) (CSR_M Mstatus) in
           if n = 7 then True else if n = 11 \<or> n = 12 then False
           else if n = 17 then bit m 17 \<and> h_mode h = Machine else bit m n)"
proof -
  let ?m = "csr_read (h_csrs h) (CSR_M Mstatus)"
  let ?m1 = "trap_mstatus TrapMachine (h_mode h) ?m"
  have wf1: "csr_wf (h_csrs h1)" unfolding h1 using assms(1) by (rule csr_wf_take_trap)
  have m1: "csr_read (h_csrs h1) (CSR_M Mstatus) = ?m1"
    by (simp add: h1 take_trap_csrs [OF assms(1) _ assms(2)] del: trap_mstatus.simps)
  have epc: "csr_read (h_csrs h1) (CSR_M Mepc) = rpc AND NOT 1"
    by (simp add: h1 take_trap_csrs [OF assms(1) _ assms(2)])
  have mode1: "h_mode h1 = Machine" by (simp add: h1 take_trap_frame assms(2))
  note eq = run_mret_eq [OF wf1 mode1]
  show "fst (run_mret h1) = Inr (rpc AND NOT 1)" by (simp add: eq epc Let_def)
  show "h_mode h2 = h_mode h"
    by (cases "h_mode h")
       (simp_all add: h2 eq Let_def m1 get_MPP_mode bit_trap_mstatus del: trap_mstatus.simps)
  have "mstatus_legal (mret_mstatus ?m1)"
    using m1 csr_wf_mstatus [OF wf1] by (simp add: mret_mstatus_legal)
  then have "csr_read (h_csrs h2) (CSR_M Mstatus) = mret_mstatus ?m1"
    by (simp add: h2 eq Let_def m1 csr_read_write mstatus_writable_legal)
  then show "n < 64 \<Longrightarrow> bit (csr_read (h_csrs h2) (CSR_M Mstatus)) n =
          (let m = csr_read (h_csrs h) (CSR_M Mstatus) in
           if n = 7 then True else if n = 11 \<or> n = 12 then False
           else if n = 17 then bit m 17 \<and> h_mode h = Machine else bit m n)"
    by (auto simp: bit_mret_mstatus bit_trap_mstatus Let_def simp del: trap_mstatus.simps)
qed

lemma trap_then_sret:
  assumes "csr_wf (h_csrs h)" "get_trap_mode tw (h_csrs h) src (h_mode h) = TrapSupervisor"
    and tsr: "\<not> bit (csr_read (h_csrs h) (CSR_M Mstatus)) 22"
    and h1: "h1 = snd (take_trap tw h src rpc)" and h2: "h2 = snd (run_sret h1)"
  shows "fst (run_sret h1) = Inr (rpc AND NOT 1)" "h_mode h2 = h_mode h"
    and "n < 64 \<Longrightarrow> bit (csr_read (h_csrs h2) (CSR_M Mstatus)) n =
          (if n = 5 then True else if n = 8 \<or> n = 17 then False
           else bit (csr_read (h_csrs h) (CSR_M Mstatus)) n)"
proof -
  let ?m = "csr_read (h_csrs h) (CSR_M Mstatus)"
  let ?m1 = "trap_mstatus TrapSupervisor (h_mode h) ?m"
  have wf1: "csr_wf (h_csrs h1)" unfolding h1 using assms(1) by (rule csr_wf_take_trap)
  have m1: "csr_read (h_csrs h1) (CSR_M Mstatus) = ?m1"
    by (simp add: h1 take_trap_csrs [OF assms(1) _ assms(2)] del: trap_mstatus.simps)
  have epc: "csr_read (h_csrs h1) (CSR_S Sepc) = rpc AND NOT 1"
    by (simp add: h1 take_trap_csrs [OF assms(1) _ assms(2)] is_shadow_def)
  have mode1: "h_mode h1 \<noteq> User" by (simp add: h1 take_trap_frame assms(2))
  have tsr1: "\<not> get_TSR (csr_read (h_csrs h1) (CSR_M Mstatus))"
    using tsr by (simp add: m1 get_bool_bit bit_trap_mstatus del: trap_mstatus.simps)
  note eq = run_sret_eq [OF wf1 mode1 tsr1]
  show "fst (run_sret h1) = Inr (rpc AND NOT 1)" by (simp add: eq epc Let_def)
  have "h_mode h \<noteq> Machine" using get_trap_mode_spp [OF assms(2)] by (cases "h_mode h") simp_all
  then show "h_mode h2 = h_mode h"
    by (cases "h_mode h")
       (simp_all add: h2 eq Let_def m1 get_SPP_mode bit_trap_mstatus del: trap_mstatus.simps)
  have "mstatus_legal (sret_mstatus ?m1)"
    using m1 csr_wf_mstatus [OF wf1] by (simp add: sret_mstatus_legal)
  then have "csr_read (h_csrs h2) (CSR_M Mstatus) = sret_mstatus ?m1"
    by (simp add: h2 eq Let_def m1 csr_read_write mstatus_writable_legal)
  then show "n < 64 \<Longrightarrow> bit (csr_read (h_csrs h2) (CSR_M Mstatus)) n =
          (if n = 5 then True else if n = 8 \<or> n = 17 then False
           else bit (csr_read (h_csrs h) (CSR_M Mstatus)) n)"
    by (auto simp: bit_sret_mstatus bit_trap_mstatus simp del: trap_mstatus.simps)
qed

section \<open>Properties\<close>

text \<open>The machine with the reset state of its registers, in a given mode, and a cleared memory.\<close>

definition example_in :: "Mode \<Rightarrow> machine_state" where
  "example_in mode = example_machine\<lparr>ms_hart := example_hart\<lparr>h_mode := mode\<rparr>\<rparr>"

lemma example_in_simps:
  "h_mode (ms_hart (example_in mode)) = mode" "ms_bus (example_in mode) = example_bus"
  "h_pc (ms_hart (example_in mode)) = 0x80000000"
  "csr_read (h_csrs (ms_hart (example_in mode))) r = csr_read (csregisters_reset (\<lambda>_. 0)) r"
  "machine_wf (example_in mode)"
  by (simp_all add: example_in_def example_machine_simps example_hart_def hart_reset_def machine_wf_def
      csr_wf_reset example_bus_wf)

lemma example_not_pending: "get_pending_interrupt twiddle_words (example_in mode) = None"
proof -
  have "csr_read (h_csrs (ms_hart (example_in mode))) (CSR_M Mip) = 0"
    by (simp add: example_in_simps csr_read_reset default_mcsr_def)
  then show ?thesis
    by (simp add: get_pending_interrupt_find interrupt_priority_def interrupt_active_def)
qed

lemma example_fetch:
  "run_instr_at (example_in mode) 0x80000000 = (Inl IllegalInstruction, example_in mode)"
proof -
  have "bus_read (ms_bus (example_in mode)) 0x80000000 = Some (0 :: u16)"
    unfolding example_in_simps bus_read_eq [OF example_bus_wf, where 'a = 16, simplified]
    by (simp add: example_bus_in_memory example_bus_data dyn_read_def read_bytes_def elem_size_def
        upt_conv_Cons)
  then show ?thesis
    by (simp add: run_instr_at_def fetch_instr_def parse_def parse_compressed_instruction_def run_instr_def)
qed

text \<open>
  C20: exceptions are precise. If fetching or running the instruction at the program counter raises
  one, the step has no other effect than delivering it: an environment call leaves the whole state
  as it was, and any other exception takes the trap from the state before the instruction.
\<close>

theorem precise_exceptions:
  assumes "get_pending_interrupt tw m = None" "run_instr_at m (h_pc (ms_hart m)) = (Inl e, m')"
  shows "m' = m \<and> step tw m =
    (case environ_try_from e of
       Some exc \<Rightarrow> (Inl exc, m)
     | None \<Rightarrow> (Inr (), set_pc (m\<lparr>ms_hart := snd (take_trap tw (ms_hart m) (TrapException e) (h_pc (ms_hart m)))\<rparr>)
                   (fst (take_trap tw (ms_hart m) (TrapException e) (h_pc (ms_hart m))))))"
proof -
  have "m' = m"
    using assms(2) run_instr_error by (auto simp: run_instr_at_def split: sum.splits)
  with assms show ?thesis
    by (simp add: step_def step_at_def address_on_exception_def set_pc_def Let_def split_def
        split: option.split)
qed

theorem precise_exceptions_witness:
  "snd (step twiddle_words (example_in User)) =
     set_pc ((example_in User)\<lparr>ms_hart := snd (take_trap twiddle_words (ms_hart (example_in User))
        (TrapException IllegalInstruction) 0x80000000)\<rparr>)
       (fst (take_trap twiddle_words (ms_hart (example_in User)) (TrapException IllegalInstruction) 0x80000000))"
  using precise_exceptions [OF example_not_pending, of User] example_fetch [of User]
  by (simp add: example_in_simps)


text \<open>
  C6: an instruction cannot reach above its privilege. Whatever instruction completes, the mode
  does not rise; a register above the current mode keeps every bit outside the supervisor's view of
  \<open>mstatus\<close>, \<open>mip\<close> and \<open>mie\<close>, except that \<open>sret\<close> clears bit 17 of \<open>mstatus\<close> (\<open>MPRV\<close>); and in user
  mode it keeps its whole value.
\<close>

theorem privilege_isolation:
  assumes "machine_wf m" "run_instr m i = (Inr u, m')"
    and "v = csr_read (h_csrs (ms_hart m)) r" "v' = csr_read (h_csrs (ms_hart m')) r"
  shows "mode_le (h_mode (ms_hart m')) (h_mode (ms_hart m)) \<and>
    (protected (h_mode (ms_hart m)) r \<longrightarrow>
       machine_only r v' =
         (if i = Sret \<and> r = CSR_M Mstatus then machine_only r v AND NOT (2 ^ 17) else machine_only r v) \<and>
       (h_mode (ms_hart m) = User \<longrightarrow> v' = v))"
  using run_instr_isolated [OF assms(1,2), of r] by (auto simp: isolated_def sret_keeps_def assms(3,4))

theorem privilege_isolation_witness:
  "\<exists>m'. run_instr (example_in User) (Csr Csrrw \<lparr>csr_rd = x5, csr_rs1 = x6, csr_csr = CSR_U Fflags\<rparr>) =
          (Inr (PcAdd 4), m') \<and>
     csr_read (h_csrs (ms_hart m')) (CSR_M Mstatus) =
       csr_read (h_csrs (ms_hart (example_in User))) (CSR_M Mstatus)"
proof -
  let ?i = "Csr Csrrw \<lparr>csr_rd = x5, csr_rs1 = x6, csr_csr = CSR_U Fflags\<rparr>"
  have "privilege_level (csr_privilege (CSR_U Fflags)) = 0" "\<not> is_read_only (CSR_U Fflags)" by code_simp+
  then have "fst (run_instr (example_in User) ?i) = Inr (PcAdd 4)"
    by (simp add: run_instr_def map_update_def lift_hart_def run_csr_op_atomic atomic_csr_def
        example_in_simps width_def del: run_csr_op.simps)
  then obtain m' where m': "run_instr (example_in User) ?i = (Inr (PcAdd 4), m')" by (metis prod.collapse)
  have "machine_wf (example_in User)" "protected User (CSR_M Mstatus)"
    by (simp_all add: example_in_simps protected_def shadow_levels)
  with privilege_isolation [OF _ m' refl refl, of "CSR_M Mstatus"] m' show ?thesis by (simp add: example_in_simps)
qed

text \<open>
  C5: without a pending interrupt, a step raises the privilege only by taking a trap: the
  instruction at the program counter raised an exception that is not left to the environment, and
  the hart continues at the handler that the trap vector of the new mode designates.
\<close>

theorem no_privilege_gain:
  assumes "machine_wf m" "get_pending_interrupt tw m = None" "step tw m = (r, m')"
    and "\<not> mode_le (h_mode (ms_hart m')) (h_mode (ms_hart m))"
  shows "\<exists>e tm. run_instr_at m (h_pc (ms_hart m)) = (Inl e, m) \<and> environ_try_from e = None \<and>
    h_mode (ms_hart m') = as_mode tm \<and>
    h_pc (ms_hart m') = trap_handler_address (TrapException e) (csr_read (h_csrs (ms_hart m)) (xtvec_reg tm))"
proof -
  let ?pc = "h_pc (ms_hart m)"
  obtain x m1 where x: "run_instr_at m ?pc = (x, m1)" by fastforce
  show ?thesis
  proof (cases x)
    case (Inr u)
    with x obtain i where "run_instr m i = (Inr u, m1)"
      by (auto simp: run_instr_at_def split: sum.splits)
    from run_instr_isolated [OF assms(1) this] have "mode_le (h_mode (ms_hart m1)) (h_mode (ms_hart m))"
      by (simp add: isolated_def)
    with assms(2-4) x Inr show ?thesis
      by (auto simp: step_def step_at_def set_pc_def split: ProgramCounterUpdate.splits)
  next
    case (Inl e)
    have m1: "m1 = m" using x Inl run_instr_error by (auto simp: run_instr_at_def split: sum.splits)
    have wf: "csr_wf (h_csrs (ms_hart m))" using assms(1) by (simp add: machine_wf_def)
    have "environ_try_from e = None"
      using assms(2-4) x Inl m1
      by (auto simp: step_def step_at_def address_on_exception_def mode_le_def split: option.splits)
    with x Inl m1 assms(2,3) take_trap_address [OF wf] show ?thesis
      by (auto simp: step_def step_at_def address_on_exception_def set_pc_def Let_def split_def
          take_trap_frame)
  qed
qed

theorem no_privilege_gain_witness:
  "h_mode (ms_hart (snd (step twiddle_words (example_in User)))) = Supervisor \<and>
   (\<exists>e tm. run_instr_at (example_in User) 0x80000000 = (Inl e, example_in User) \<and>
      environ_try_from e = None \<and> Supervisor = as_mode tm \<and>
      h_pc (ms_hart (snd (step twiddle_words (example_in User)))) =
        trap_handler_address (TrapException e) (csr_read (csregisters_reset (\<lambda>_. 0)) (xtvec_reg tm)))"
proof -
  have tm: "get_trap_mode twiddle_words (h_csrs (ms_hart (example_in User)))
      (TrapException IllegalInstruction) User = TrapSupervisor"
    by (simp add: get_trap_mode_def Let_def example_in_simps csr_read_reset tw_bit_eq)
  have "h_mode (ms_hart (snd (step twiddle_words (example_in User)))) = Supervisor"
    using tm example_in_simps(1) [of User]
    by (simp add: step_def example_not_pending example_in_simps(3) step_at_def example_fetch
        address_on_exception_def set_pc_def Let_def split_def take_trap_frame)
  with no_privilege_gain [OF example_in_simps(5) example_not_pending surjective_pairing, of User]
  show ?thesis by (simp add: example_in_simps mode_le_def)
qed

text \<open>
  The interrupt that a step takes is the first, in the order of priority, of those that are
  pending and not masked; there is none exactly if all of them are masked or not pending.
\<close>

lemma interrupt_selection:
  assumes "twiddle_spec tw"
  shows "get_pending_interrupt tw m = find (interrupt_active m) interrupt_priority"
  using assms by (rule get_pending_interrupt_find)

text \<open>
  Taking an interrupt clears its bit of \<open>mip\<close> and no other, so that it is taken once.
\<close>

lemma interrupt_acknowledged:
  assumes "twiddle_spec tw" "machine_wf m" "n < 64"
  shows "bit (csr_read (h_csrs (ms_hart (snd (address_on_interrupt tw m i)))) (CSR_M Mip)) n =
    (bit (csr_read (h_csrs (ms_hart m)) (CSR_M Mip)) n \<and> n \<noteq> unat (exception_code (TrapInterrupt i)))"
  using mip_after_interrupt [OF assms(1,2)] assms(1,3) exception_code_const_less [of i]
  by (auto simp: twiddle_spec_def)

text \<open>
  C36: a handler starts with its own interrupts masked: after a trap into machine mode no interrupt
  is possible, and after one into supervisor mode only those of machine mode.
\<close>

theorem trap_masks_interrupts:
  assumes "csr_wf (h_csrs h)"
  shows "possible_interrupts (h_csrs (snd (take_trap tw h src rpc))) (h_mode (snd (take_trap tw h src rpc))) =
     (case get_trap_mode tw (h_csrs h) src (h_mode h) of
        TrapMachine \<Rightarrow> 0 | TrapSupervisor \<Rightarrow> MACHINE_BIT_MASK)"
  using assms by (rule possible_after_trap)

theorem trap_masks_interrupts_witness:
  "possible_interrupts
     (h_csrs (snd (take_trap twiddle_words (example_hart\<lparr>h_mode := Machine\<rparr>) (TrapException Breakpoint) 0)))
     (h_mode (snd (take_trap twiddle_words (example_hart\<lparr>h_mode := Machine\<rparr>) (TrapException Breakpoint) 0))) =
   (case get_trap_mode twiddle_words (h_csrs (example_hart\<lparr>h_mode := Machine\<rparr>)) (TrapException Breakpoint)
           (h_mode (example_hart\<lparr>h_mode := Machine\<rparr>)) of
      TrapMachine \<Rightarrow> 0 | TrapSupervisor \<Rightarrow> MACHINE_BIT_MASK)"
  by (rule trap_masks_interrupts) (rule example_hart_wf)

text \<open>
  C22: \<open>mret\<close> undoes a trap into machine mode: it returns to the interrupted address and to the
  mode that was left, with the interrupt enable bit as it was; of \<open>mstatus\<close> only the previous
  mode, the saved enable bit and, on a return to a lower mode, \<open>MPRV\<close> differ.
\<close>

theorem mret_undoes_trap:
  assumes "csr_wf (h_csrs h)" "get_trap_mode tw (h_csrs h) src (h_mode h) = TrapMachine" "n < 64"
    and "h1 = snd (take_trap tw h src rpc)"
  shows "fst (run_mret h1) = Inr (rpc AND NOT 1) \<and> h_mode (snd (run_mret h1)) = h_mode h \<and>
    bit (csr_read (h_csrs (snd (run_mret h1))) (CSR_M Mstatus)) n =
      (if n = 7 then True else if n = 11 \<or> n = 12 then False
       else bit (csr_read (h_csrs h) (CSR_M Mstatus)) n \<and> (n = 17 \<longrightarrow> h_mode h = Machine))"
  using trap_then_mret [OF assms(1,2,4) refl] assms(3) by (auto simp: Let_def)

theorem mret_undoes_trap_witness:
  "fst (run_mret (snd (take_trap twiddle_words (example_hart\<lparr>h_mode := Machine\<rparr>) (TrapException Breakpoint) 0x80000010))) =
     Inr 0x80000010"
proof -
  let ?h = "example_hart\<lparr>h_mode := Machine\<rparr>"
  have "get_trap_mode twiddle_words (h_csrs ?h) (TrapException Breakpoint) (h_mode ?h) = TrapMachine"
    by (simp add: get_trap_mode_def Let_def)
  from mret_undoes_trap [OF example_hart_wf this, of 3] show ?thesis by simp
qed

text \<open>
  C23: \<open>sret\<close> undoes a trap into supervisor mode in the same way, unless \<open>mstatus.TSR\<close> forbids it.
\<close>

theorem sret_undoes_trap:
  assumes "csr_wf (h_csrs h)" "get_trap_mode tw (h_csrs h) src (h_mode h) = TrapSupervisor" "n < 64"
    and "\<not> bit (csr_read (h_csrs h) (CSR_M Mstatus)) 22" "h1 = snd (take_trap tw h src rpc)"
  shows "fst (run_sret h1) = Inr (rpc AND NOT 1) \<and> h_mode (snd (run_sret h1)) = h_mode h \<and>
    bit (csr_read (h_csrs (snd (run_sret h1))) (CSR_M Mstatus)) n =
      (if n = 5 then True else if n = 8 \<or> n = 17 then False
       else bit (csr_read (h_csrs h) (CSR_M Mstatus)) n)"
  using trap_then_sret [OF assms(1,2,4,5) refl] assms(3) by blast

theorem sret_undoes_trap_witness:
  "fst (run_sret (snd (take_trap twiddle_words (example_hart\<lparr>h_mode := User\<rparr>) (TrapException Breakpoint) 0x80000010))) =
     Inr 0x80000010"
proof -
  let ?h = "example_hart\<lparr>h_mode := User\<rparr>"
  have "get_trap_mode twiddle_words (h_csrs ?h) (TrapException Breakpoint) (h_mode ?h) = TrapSupervisor"
    by (simp add: get_trap_mode_def Let_def example_hart_def hart_reset_def csr_read_reset tw_bit_eq)
  moreover have "\<not> bit (default_mcsr Mstatus) 22"
    by code_simp
  then have "\<not> bit (csr_read (h_csrs ?h) (CSR_M Mstatus)) 22"
    by (simp add: example_hart_def hart_reset_def csr_read_reset)
  ultimately show ?thesis
    using sret_undoes_trap [OF example_hart_wf, where n = 3 and src = "TrapException Breakpoint"] by simp
qed

end
