(* ===== verification/RV_Exec_Env.thy ===== *)
theory RV_Exec_Env
  imports RV_Safety
begin

text \<open>
  Execution environments and their two drivers: the posix environment
  (\<^verbatim>\<open>exec_env.rs\<close>, \<^verbatim>\<open>exec_env/posix.rs\<close>), the interpreter loop (\<^verbatim>\<open>interpreter/src/lib.rs\<close>) and the
  proof-generating virtual machine (\<^verbatim>\<open>pvm/src/state.rs\<close>). The trait of an environment is a record
  of its two operations. The theory relates the runs of many steps to iterated single steps:
  what \<open>step_many\<close> of the machine returns, and that a run of either driver is the iteration of
  single steps with the calls of the environment in between, within the budget of steps.
\<close>

section \<open>Execution environments\<close>

datatype EcallOutcome = Fatal | Handled (continue_eval: bool)

record 'ee execution_environment =
  ee_reset :: "'ee \<Rightarrow> 'ee"
  ee_handle_call :: "'ee \<Rightarrow> machine_state \<Rightarrow> EnvironException \<Rightarrow> EcallOutcome \<times> 'ee \<times> machine_state"

record posix_state =
  px_exited :: u8
  px_code :: u64
  px_exit_mode :: Mode

definition posix_exited :: "posix_state \<Rightarrow> bool" where
  "posix_exited s \<longleftrightarrow> px_exited s > 0"

definition exit_code :: "posix_state \<Rightarrow> u64 option" where
  "exit_code s = (if posix_exited s then Some (px_code s) else None)"

definition set_exit_mode :: "posix_state \<Rightarrow> Mode \<Rightarrow> posix_state" where
  "set_exit_mode s mode = s\<lparr>px_exit_mode := mode\<rparr>"

definition posix_reset :: "posix_state \<Rightarrow> posix_state" where
  "posix_reset s = s\<lparr>px_exited := 0, px_code := 0, px_exit_mode := Machine\<rparr>"

fun source_mode :: "EnvironException \<Rightarrow> Mode" where
  "source_mode EnvCallFromUMode = User"
| "source_mode EnvCallFromSMode = Supervisor"
| "source_mode EnvCallFromMMode = Machine"

definition posix_handle_call ::
  "twiddle \<Rightarrow> posix_state \<Rightarrow> machine_state \<Rightarrow> EnvironException \<Rightarrow>
     EcallOutcome \<times> posix_state \<times> machine_state" where
  "posix_handle_call tw s m exc =
     (if posix_exited s then (Fatal, s, m)
      else if source_mode exc \<noteq> px_exit_mode s then
        (let return_pc = h_pc (ms_hart m);
             (new_pc, h) = take_trap tw (ms_hart m) (TrapException (as_exception exc)) return_pc
         in (Handled True, s, m\<lparr>ms_hart := h\<lparr>h_pc := new_pc\<rparr>\<rparr>))
      else if xregs_read (h_xregs (ms_hart m)) a7 = 93 then
        (Handled False,
         s\<lparr>px_exited := saturating_add (px_exited s) 1,
           px_code := xregs_read (h_xregs (ms_hart m)) a0\<rparr>, m)
      else (Fatal, s, m))"

definition posix :: "twiddle \<Rightarrow> posix_state execution_environment" where
  "posix tw = \<lparr>ee_reset = posix_reset, ee_handle_call = posix_handle_call tw\<rparr>"

section \<open>The interpreter\<close>

record interpreter =
  in_posix :: posix_state
  in_machine :: machine_state

datatype InterpreterResult =
    Running nat
  | Exit u64 nat
  | Exception EnvironException nat

text \<open>\<open>saturating_add\<close> and \<open>saturating_sub\<close> on \<open>usize\<close>, with counters as natural numbers.\<close>

definition usize_add :: "nat \<Rightarrow> nat \<Rightarrow> nat" where
  "usize_add a b = min (a + b) (2 ^ 64 - 1)"

lemma usize_add_pos [simp]: "0 < b \<Longrightarrow> 0 < usize_add a b"
  by (simp add: usize_add_def)

lemma usize_add_exact: "a + b < 2 ^ 64 \<Longrightarrow> usize_add a b = a + b"
  by (simp add: usize_add_def)

function run_accum :: "twiddle \<Rightarrow> interpreter \<Rightarrow> nat \<Rightarrow> nat \<Rightarrow> InterpreterResult \<times> interpreter"
  and handle_step_result ::
    "twiddle \<Rightarrow> interpreter \<Rightarrow> StepManyResult \<Rightarrow> nat \<Rightarrow> InterpreterResult \<times> interpreter" where
  "run_accum tw i steps_done mx =
     (let (result, m) = step_many tw (in_machine i) mx (\<lambda>_. True)
      in handle_step_result tw (i\<lparr>in_machine := m\<rparr>)
           (result\<lparr>smr_steps := usize_add (smr_steps result) steps_done\<rparr>) mx)"
| "handle_step_result tw i result mx =
     (case smr_exception result of
        None \<Rightarrow> (Running (smr_steps result), i)
      | Some exc \<Rightarrow>
          (let (outcome, px, m) = posix_handle_call tw (in_posix i) (in_machine i) exc;
               i = i\<lparr>in_posix := px, in_machine := m\<rparr>
           in case outcome of
                Fatal \<Rightarrow> (Exception exc (smr_steps result), i)
              | Handled continue \<Rightarrow>
                  (let steps = usize_add (smr_steps result) 1; steps_left = mx - steps
                   in case exit_code px of
                        Some code \<Rightarrow> (Exit code steps, i)
                      | None \<Rightarrow>
                          if continue \<and> steps_left > 0 then run_accum tw i steps steps_left
                          else (Running steps, i))))"
  by pat_completeness auto

termination
  by (relation "measure (case_sum (\<lambda>(tw, i, d, mx). 2 * mx + 1) (\<lambda>(tw, i, r, mx). 2 * mx))")
     (auto simp: usize_add_def)

declare run_accum.simps [simp del] handle_step_result.simps [simp del]

definition interpreter_run :: "twiddle \<Rightarrow> interpreter \<Rightarrow> nat \<Rightarrow> InterpreterResult \<times> interpreter" where
  "interpreter_run tw i mx = run_accum tw i 0 mx"

definition interpreter_step_many ::
  "twiddle \<Rightarrow> interpreter \<Rightarrow> nat \<Rightarrow> (machine_state \<Rightarrow> bool) \<Rightarrow> InterpreterResult \<times> interpreter" where
  "interpreter_step_many tw i mx should_continue =
     (let (result, m) = step_many tw (in_machine i) mx should_continue
      in handle_step_result tw (i\<lparr>in_machine := m\<rparr>) result mx)"

definition read_register :: "interpreter \<Rightarrow> XRegister \<Rightarrow> u64" where
  "read_register i r = xregs_read (h_xregs (ms_hart (in_machine i))) r"

definition read_pc :: "interpreter \<Rightarrow> u64" where
  "read_pc i = h_pc (ms_hart (in_machine i))"

section \<open>Runs of machine steps\<close>

text \<open>\<open>n\<close> steps in a row, none of which leaves an exception to the environment.\<close>

primrec ok_steps :: "twiddle \<Rightarrow> nat \<Rightarrow> machine_state \<Rightarrow> machine_state option" where
  "ok_steps tw 0 m = Some m"
| "ok_steps tw (Suc n) m = (case step tw m of (Inr _, m') \<Rightarrow> ok_steps tw n m' | (Inl _, _) \<Rightarrow> None)"

lemma step_many_from_cases:
  assumes "step_many_from tw mx c d m = (r, m')" "d \<le> mx"
  obtains (finished) "smr_exception r = None" "d \<le> smr_steps r" "smr_steps r \<le> mx"
      "ok_steps tw (smr_steps r - d) m = Some m'" "smr_steps r = mx \<or> \<not> c m'"
    | (raised) e m1 where "smr_exception r = Some e" "d \<le> smr_steps r" "smr_steps r < mx"
      "ok_steps tw (smr_steps r - d) m = Some m1" "c m1" "step tw m1 = (Inl e, m')"
  using assms
proof (induction tw mx c d m arbitrary: thesis rule: step_many_from.induct)
  case (1 tw mx c d m)
  show ?case
  proof (cases "d < mx \<and> c m")
    case False
    then show ?thesis using 1(2,4,5) by (auto simp: step_many_from.simps [of tw mx c d])
  next
    case True
    obtain s m1 where s: "step tw m = (s, m1)" by fastforce
    show ?thesis
    proof (cases s)
      case (Inl e)
      then show ?thesis
        using True s 1(3,4) by (auto simp: step_many_from.simps [of tw mx c d])
    next
      case (Inr u)
      then have rec: "step_many_from tw mx c (d + 1) m1 = (r, m')"
        using True s 1(4) by (simp add: step_many_from.simps [of tw mx c d])
      have ok: "ok_steps tw (n - d) m = ok_steps tw (n - Suc d) m1" if "d + 1 \<le> n" for n
      proof -
        have "n - d = Suc (n - Suc d)" using that by simp
        with s Inr show ?thesis by (simp only: ok_steps.simps) simp
      qed
      show ?thesis
        by (rule 1(1) [OF True s [symmetric] Inr _ _ rec])
           (use 1(2,3) True ok in auto)
    qed
  qed
qed

lemma step_many_cases:
  assumes "step_many tw m mx c = (r, m')"
  obtains (finished) "smr_exception r = None" "smr_steps r \<le> mx"
      "ok_steps tw (smr_steps r) m = Some m'" "smr_steps r = mx \<or> \<not> c m'"
    | (raised) e m1 where "smr_exception r = Some e" "smr_steps r < mx"
      "ok_steps tw (smr_steps r) m = Some m1" "c m1" "step tw m1 = (Inl e, m')"
  using assms unfolding step_many_def by (cases rule: step_many_from_cases) auto

section \<open>The proof-generating virtual machine\<close>

record 'ee pvm =
  pvm_version :: u64
  pvm_machine :: machine_state
  pvm_syscall :: 'ee

definition INITIAL_VERSION :: u64 where
  "INITIAL_VERSION = 0"

text \<open>\<open>bind\<close> asserts the version; \<open>None\<close> is the failing assertion.\<close>

definition pvm_bind :: "u64 \<Rightarrow> machine_state \<Rightarrow> 'ee \<Rightarrow> 'ee pvm option" where
  "pvm_bind version m s =
     (if version = INITIAL_VERSION
      then Some \<lparr>pvm_version = version, pvm_machine = m, pvm_syscall = s\<rparr> else None)"

definition pvm_reset :: "'ee execution_environment \<Rightarrow> 'ee pvm \<Rightarrow> 'ee pvm" where
  "pvm_reset ee p =
     p\<lparr>pvm_version := INITIAL_VERSION, pvm_machine := machine_reset (pvm_machine p),
       pvm_syscall := ee_reset ee (pvm_syscall p)\<rparr>"

text \<open>\<open>None\<close> is the arm \<open>unimplemented!\<close> for a fatal outcome.\<close>

definition handle_exception ::
  "'ee execution_environment \<Rightarrow> 'ee pvm \<Rightarrow> EnvironException \<Rightarrow> (bool \<times> 'ee pvm) option" where
  "handle_exception ee p exc =
     (case ee_handle_call ee (pvm_syscall p) (pvm_machine p) exc of
        (Fatal, _, _) \<Rightarrow> None
      | (Handled c, s, m) \<Rightarrow> Some (c, p\<lparr>pvm_machine := m, pvm_syscall := s\<rparr>))"

definition pvm_step :: "twiddle \<Rightarrow> 'ee execution_environment \<Rightarrow> 'ee pvm \<Rightarrow> (bool \<times> 'ee pvm) option" where
  "pvm_step tw ee p =
     (case step tw (pvm_machine p) of
        (Inr _, m) \<Rightarrow> Some (True, p\<lparr>pvm_machine := m\<rparr>)
      | (Inl exc, m) \<Rightarrow>
          map_option (\<lambda>(_, p). (True, p)) (handle_exception ee (p\<lparr>pvm_machine := m\<rparr>) exc))"

function step_many_accum ::
  "twiddle \<Rightarrow> 'ee execution_environment \<Rightarrow> 'ee pvm \<Rightarrow> nat \<Rightarrow> nat \<Rightarrow> (nat \<times> 'ee pvm) option" where
  "step_many_accum tw ee p max_steps accum =
     (case step_many tw (pvm_machine p) max_steps (\<lambda>_. True) of
        (result, m) \<Rightarrow>
          (let p = p\<lparr>pvm_machine := m\<rparr>; total_steps = usize_add accum (smr_steps result)
           in case smr_exception result of
                None \<Rightarrow> Some (total_steps, p)
              | Some exc \<Rightarrow>
                  (let total_steps = usize_add total_steps 1; steps = usize_add (smr_steps result) 1
                   in case handle_exception ee p exc of
                        None \<Rightarrow> None
                      | Some (continue, p) \<Rightarrow>
                          if continue then step_many_accum tw ee p (max_steps - steps) total_steps
                          else Some (total_steps, p))))"
  by pat_completeness auto

termination
proof (relation "measure (\<lambda>(tw, ee, p, mx, acc). mx)")
  fix tw :: twiddle and ee :: "'ee execution_environment" and p :: "'ee pvm" and mx acc :: nat
    and r m q t e t' s h c p'
  assume "(r, m) = step_many tw (pvm_machine p) mx (\<lambda>_. True)"
    and "smr_exception r = Some e" and "s = usize_add (smr_steps r) 1"
  then have "0 < mx" "0 < s"
    using step_many_cases [of tw "pvm_machine p" mx "\<lambda>_. True" r m] by force+
  then show "((tw, ee, p', mx - s, t'), tw, ee, p, mx, acc) \<in> measure (\<lambda>(tw, ee, p, mx, acc). mx)"
    by simp
qed simp

declare step_many_accum.simps [simp del]

definition pvm_step_many ::
  "twiddle \<Rightarrow> 'ee execution_environment \<Rightarrow> 'ee pvm \<Rightarrow> nat \<Rightarrow> (nat \<times> 'ee pvm) option" where
  "pvm_step_many tw ee p max_steps = step_many_accum tw ee p max_steps 0"

section \<open>Reference runs\<close>

text \<open>
  What a driver with a budget of \<open>n\<close> steps is meant to do, step by step: a call that the
  environment handles counts as a step, one that asks to stop ends the run, a fatal one ends it
  without being counted.
\<close>

datatype run_end = Budget | Stopped | Died EnvironException

definition bump :: "nat \<Rightarrow> run_end \<times> nat \<times> 's \<Rightarrow> run_end \<times> nat \<times> 's" where
  "bump k r = (case r of (e, n, s) \<Rightarrow> (e, k + n, s))"

lemma bump_simps [simp]:
  "bump k (e, n, s) = (e, k + n, s)" "bump 0 r = r" "bump j (bump k r) = bump (j + k) r"
  by (simp_all add: bump_def split: prod.split)

fun env_run ::
  "twiddle \<Rightarrow> 'ee execution_environment \<Rightarrow> nat \<Rightarrow> 'ee \<times> machine_state \<Rightarrow>
     run_end \<times> nat \<times> 'ee \<times> machine_state" where
  "env_run tw ee 0 s = (Budget, 0, s)"
| "env_run tw ee (Suc n) (s, m) =
     (case step tw m of
        (Inr _, m') \<Rightarrow> bump 1 (env_run tw ee n (s, m'))
      | (Inl e, m') \<Rightarrow>
          (case ee_handle_call ee s m' e of
             (Fatal, s', m'') \<Rightarrow> (Died e, 0, s', m'')
           | (Handled c, s', m'') \<Rightarrow>
               if c then bump 1 (env_run tw ee n (s', m'')) else (Stopped, 1, s', m'')))"

lemma env_run_prefix:
  "ok_steps tw k m = Some m1 \<Longrightarrow>
   env_run tw ee (k + n) (s, m) = bump k (env_run tw ee n (s, m1))"
  by (induction k arbitrary: m) (auto split: prod.splits sum.splits)

lemma env_run_ok:
  "ok_steps tw k m = Some m1 \<Longrightarrow> env_run tw ee k (s, m) = (Budget, k, s, m1)"
  using env_run_prefix [of tw k m m1 ee 0 s] by simp

lemma env_run_call:
  assumes "ok_steps tw k m = Some m1" "step tw m1 = (Inl e, m2)" "k < n"
  shows "env_run tw ee n (s, m) =
     (case ee_handle_call ee s m2 e of
        (Fatal, s', m') \<Rightarrow> (Died e, k, s', m')
      | (Handled c, s', m') \<Rightarrow>
          if c then bump (k + 1) (env_run tw ee (n - (k + 1)) (s', m')) else (Stopped, k + 1, s', m'))"
proof -
  obtain j where n: "n = k + Suc j" "n - (k + 1) = j"
    using assms(3) less_iff_Suc_add [of k n] by auto
  have "env_run tw ee (k + Suc j) (s, m) = bump k (env_run tw ee (Suc j) (s, m1))"
    by (rule env_run_prefix [OF assms(1)])
  then show ?thesis
    by (cases "ee_handle_call ee s m2 e") (simp add: n assms(2) del: add_Suc_right split: EcallOutcome.split)
qed

text \<open>A run that ends before its budget ends the same way with a larger one.\<close>

lemma env_run_mono:
  assumes "env_run tw ee n s = (e, k, s')" "e \<noteq> Budget" "n \<le> n'"
  shows "env_run tw ee n' s = (e, k, s')"
  using assms
proof (induction n arbitrary: n' k s)
  case (Suc n)
  obtain j where j: "n' = Suc j" "n \<le> j" using Suc(4) by (cases n') auto
  have IH: "bump 1 (env_run tw ee n t) = (e, k, s') \<Longrightarrow> bump 1 (env_run tw ee j t) = (e, k, s')" for t
    using Suc(1) [of t _ j] Suc(3) j(2) by (auto simp: bump_def split: prod.splits)
  obtain a m where s: "s = (a, m)" by fastforce
  obtain r m1 where r: "step tw m = (r, m1)" by fastforce
  show ?case
  proof (cases r)
    case (Inr u)
    with Suc(2) IH [of "(a, m1)"] s r j show ?thesis by simp
  next
    case (Inl exc)
    obtain oc a' m2 where h: "ee_handle_call ee a m1 exc = (oc, a', m2)" by (metis prod_cases3)
    with Inl Suc(2) IH [of "(a', m2)"] s r j show ?thesis
      by (cases oc) (simp_all split: if_splits)
  qed
qed simp

lemma env_run_steps:
  assumes "env_run tw ee n s = (e, k, s')"
  shows "k \<le> n \<and> (e = Budget \<longrightarrow> k = n)"
  using assms
proof (induction n arbitrary: k s)
  case (Suc n)
  have IH: "bump 1 (env_run tw ee n t) = (e, k, s') \<Longrightarrow> k \<le> Suc n \<and> (e = Budget \<longrightarrow> k = Suc n)" for t
    using Suc(1) [of t] by (auto simp: bump_def split: prod.splits)
  obtain a m where s: "s = (a, m)" by fastforce
  obtain r m1 where r: "step tw m = (r, m1)" by fastforce
  show ?case
  proof (cases r)
    case (Inr u)
    with Suc(2) IH [of "(a, m1)"] s r show ?thesis by simp
  next
    case (Inl exc)
    obtain oc a' m2 where h: "ee_handle_call ee a m1 exc = (oc, a', m2)" by (metis prod_cases3)
    with Inl Suc(2) IH [of "(a', m2)"] s r show ?thesis
      by (cases oc) (auto split: if_splits)
  qed
qed simp

section \<open>The drivers against the reference\<close>

lemma step_many_accum_run:
  assumes "accum + mx < 2 ^ 64"
  shows "step_many_accum tw ee p mx accum =
     (case env_run tw ee mx (pvm_syscall p, pvm_machine p) of
        (e, n, s, m) \<Rightarrow>
          if e = Budget \<or> e = Stopped
          then Some (accum + n, p\<lparr>pvm_machine := m, pvm_syscall := s\<rparr>) else None)"
  using assms
proof (induction mx arbitrary: p accum rule: less_induct)
  case (less mx)
  obtain r m where r: "step_many tw (pvm_machine p) mx (\<lambda>_. True) = (r, m)" by fastforce
  then show ?case
  proof (cases rule: step_many_cases)
    case finished
    with less.prems r show ?thesis
      by (simp add: step_many_accum.simps [of tw ee p] usize_add_exact env_run_ok)
  next
    case (raised e m1)
    let ?k = "smr_steps r"
    have k: "usize_add ?k 1 = ?k + 1" "usize_add (usize_add accum ?k) 1 = accum + ?k + 1"
      using raised(2) less.prems by (simp_all add: usize_add_def)
    obtain oc s' m' where h: "ee_handle_call ee (pvm_syscall p) m e = (oc, s', m')"
      by (metis prod_cases3)
    let ?p = "p\<lparr>pvm_machine := m', pvm_syscall := s'\<rparr>"
    have IH: "step_many_accum tw ee ?p (mx - (?k + 1)) (accum + ?k + 1) =
       (case env_run tw ee (mx - (?k + 1)) (s', m') of
        (e, n, s, m) \<Rightarrow>
          if e = Budget \<or> e = Stopped
          then Some (accum + ?k + 1 + n, ?p\<lparr>pvm_machine := m, pvm_syscall := s\<rparr>) else None)"
      using less.IH [of "mx - (?k + 1)" "accum + ?k + 1" ?p] less.prems raised(2) by simp
    show ?thesis
    proof (cases oc)
      case Fatal
      with r raised h k show ?thesis
        by (simp add: step_many_accum.simps [of tw ee p] handle_exception_def
            env_run_call [OF raised(3,5,2)])
    next
      case (Handled c)
      have lhs: "step_many_accum tw ee p mx accum =
          (if c then step_many_accum tw ee ?p (mx - (?k + 1)) (accum + ?k + 1)
           else Some (accum + ?k + 1, ?p))"
        using r raised(1) h k Handled
        by (simp add: step_many_accum.simps [of tw ee p] handle_exception_def)
      show ?thesis
        unfolding lhs env_run_call [OF raised(3,5,2)] h
        using IH by (cases "env_run tw ee (mx - (?k + 1)) (s', m')") (simp add: Handled)
    qed
  qed
qed

definition posix_view :: "interpreter \<Rightarrow> posix_state \<times> machine_state" where
  "posix_view i = (in_posix i, in_machine i)"

text \<open>What a result of the interpreter, with \<open>d\<close> steps done before, says of the reference run.\<close>

fun result_ok ::
  "twiddle \<Rightarrow> interpreter \<Rightarrow> nat \<Rightarrow> nat \<Rightarrow> interpreter \<Rightarrow> InterpreterResult \<Rightarrow> bool" where
  "result_ok tw i d mx i' (Running n) \<longleftrightarrow>
     d \<le> n \<and> n \<le> d + mx \<and> env_run tw (posix tw) (n - d) (posix_view i) = (Budget, n - d, posix_view i')"
| "result_ok tw i d mx i' (Exit c n) \<longleftrightarrow>
     d < n \<and> n \<le> d + mx \<and> exit_code (in_posix i') = Some c \<and>
     env_run tw (posix tw) mx (posix_view i) = (Stopped, n - d, posix_view i')"
| "result_ok tw i d mx i' (Exception e n) \<longleftrightarrow>
     d \<le> n \<and> n < d + mx \<and>
     env_run tw (posix tw) mx (posix_view i) = (Died e, n - d, posix_view i')"

lemma posix_outcome:
  assumes "posix_handle_call tw s m e = (Handled c, s', m')"
  shows "(exit_code s' = None) = c"
proof -
  have "saturating_add (0 :: u8) 1 = 1" by (simp add: saturating_add_def)
  with assms show ?thesis
    by (auto simp: posix_handle_call_def exit_code_def posix_exited_def word_gt_0 Let_def
        split: if_splits prod.splits)
qed

lemma run_accum_ok:
  assumes "run_accum tw i d mx = (res, i')" "d + mx < 2 ^ 64"
  shows "result_ok tw i d mx i' res"
  using assms
proof (induction mx arbitrary: i d rule: less_induct)
  case (less mx)
  obtain r m where r: "step_many tw (in_machine i) mx (\<lambda>_. True) = (r, m)" by fastforce
  then show ?case
  proof (cases rule: step_many_cases)
    case finished
    with less.prems r show ?thesis
      by (auto simp: run_accum.simps [of tw i] handle_step_result.simps usize_add_exact env_run_ok
          posix_view_def)
  next
    case (raised e m1)
    let ?k = "smr_steps r"
    have k: "usize_add ?k d = d + ?k" "usize_add (d + ?k) 1 = d + ?k + 1"
      using raised(2) less.prems by (simp_all add: usize_add_def)
    obtain oc s' m' where h: "posix_handle_call tw (in_posix i) m e = (oc, s', m')"
      by (metis prod_cases3)
    let ?i = "i\<lparr>in_posix := s', in_machine := m'\<rparr>"
    have call: "env_run tw (posix tw) n (posix_view i) =
       (case oc of Fatal \<Rightarrow> (Died e, ?k, posix_view ?i)
        | Handled c \<Rightarrow> if c then bump (?k + 1) (env_run tw (posix tw) (n - (?k + 1)) (posix_view ?i))
                        else (Stopped, ?k + 1, posix_view ?i))" if "?k < n" for n
      using env_run_call [OF raised(3,5) that, of "posix tw" "in_posix i"] h
      by (simp add: posix_view_def posix_def split: EcallOutcome.split)
    show ?thesis
    proof (cases oc)
      case Fatal
      with less.prems r raised h k call [of mx] show ?thesis
        by (auto simp: run_accum.simps [of tw i] handle_step_result.simps posix_view_def)
    next
      case (Handled c)
      have ec: "(exit_code s' = None) = c" using h Handled posix_outcome by blast
      have eq: "(case exit_code s' of Some code \<Rightarrow> (Exit code (d + ?k + 1), ?i)
           | None \<Rightarrow> if c \<and> mx - (d + ?k + 1) > 0
                     then run_accum tw ?i (d + ?k + 1) (mx - (d + ?k + 1))
                     else (Running (d + ?k + 1), ?i)) = (res, i')"
        using less.prems(1) r raised(1) h k Handled
        by (cases "exit_code s'")
           (auto simp: run_accum.simps [of tw i] handle_step_result.simps Let_def split: if_splits)
      show ?thesis
      proof (cases "c \<and> mx - (d + ?k + 1) > 0")
        case True
        let ?d = "d + ?k + 1" let ?mx = "mx - (d + ?k + 1)"
        have IH: "result_ok tw ?i ?d ?mx i' res"
          using True eq ec less.IH [of ?mx ?i ?d] less.prems(2) by simp
        have mono: "env_run tw (posix tw) ?mx (posix_view ?i) = (e', n, v) \<Longrightarrow> e' \<noteq> Budget \<Longrightarrow>
            env_run tw (posix tw) mx (posix_view i) = (e', ?k + 1 + n, v)" for e' n v
          using env_run_mono [of tw "posix tw" ?mx "posix_view ?i" e' n v "mx - (?k + 1)"]
            call [of mx] raised(2) Handled True by simp
        show ?thesis
          using IH True Handled call mono by (cases res) auto
      next
        case False
        then show ?thesis
          using eq ec call [of mx] call [of "?k + 1"] raised(2) Handled
          by (cases c) (auto simp: posix_view_def split: option.splits)
      qed
    qed
  qed
qed

section \<open>The contract of an environment\<close>

text \<open>A driver keeps the machine invariant when the handler of calls does.\<close>

locale ecall_handler =
  fixes ee :: "'ee execution_environment"
  assumes handle_wf:
    "machine_wf m \<Longrightarrow> ee_handle_call ee s m e = (oc, s', m') \<Longrightarrow> machine_wf m'"
begin

lemma env_run_wf:
  assumes "machine_wf m" "env_run tw ee n (s, m) = (r, k, s', m')"
  shows "machine_wf m'"
  using assms
proof (induction n arbitrary: k s m)
  case (Suc n)
  have IH: "machine_wf m1 \<Longrightarrow> bump 1 (env_run tw ee n (s1, m1)) = (r, k, s', m') \<Longrightarrow> machine_wf m'" for s1 m1
    using Suc(1) [of m1 s1] by (auto simp: bump_def split: prod.splits)
  obtain a m1 where r: "step tw m = (a, m1)" by fastforce
  have wf: "machine_wf m1" using machine_wf_step [OF Suc(2), of tw] r by simp
  show ?case
  proof (cases a)
    case (Inr u)
    with Suc(3) IH [OF wf] r show ?thesis by simp
  next
    case (Inl exc)
    obtain oc s1 m2 where h: "ee_handle_call ee s m1 exc = (oc, s1, m2)" by (metis prod_cases3)
    with Inl Suc(3) IH [OF handle_wf [OF wf h]] handle_wf [OF wf h] r show ?thesis
      by (cases oc) (auto split: if_splits)
  qed
qed simp

lemma pvm_step_many_wf:
  assumes "machine_wf (pvm_machine p)" "mx < 2 ^ 64" "pvm_step_many tw ee p mx = Some (n, p')"
  shows "machine_wf (pvm_machine p')"
  using assms env_run_wf [OF assms(1)]
  by (auto simp: pvm_step_many_def step_many_accum_run split: prod.splits if_splits)

end

lemma posix_handle_wf:
  assumes "machine_wf m" "posix_handle_call tw s m e = (oc, s', m')"
  shows "machine_wf m'"
proof -
  have "csr_wf (h_csrs (ms_hart m))" using assms(1) by (simp add: machine_wf_def)
  then have "csr_wf (h_csrs (snd (take_trap tw (ms_hart m) (TrapException (as_exception e)) pc)))" for pc
    by (rule csr_wf_take_trap)
  with assms show ?thesis
    by (auto simp: posix_handle_call_def machine_wf_def Let_def split: if_splits prod.splits)
       (metis snd_conv)+
qed

interpretation posix_env: ecall_handler "posix tw"
  by unfold_locales (auto simp: posix_def dest: posix_handle_wf)

section \<open>A loop of environment calls\<close>

text \<open>
  A machine whose trap handler is the environment call that raised the trap: taking the trap again
  changes nothing.
\<close>

lemma take_trap_fixpoint:
  assumes "csr_wf (h_csrs h)" "get_trap_mode tw (h_csrs h) src (h_mode h) = tm" "h_mode h = as_mode tm"
    and "csr_read (h_csrs h) (xepc_reg tm) = rpc" "csr_read (h_csrs h) (xcause_reg tm) = xcause src"
    and "csr_read (h_csrs h) (xtval_reg tm) = xtval src"
    and "trap_mstatus tm (h_mode h) (csr_read (h_csrs h) (CSR_M Mstatus)) = csr_read (h_csrs h) (CSR_M Mstatus)"
  shows "take_trap tw h src rpc = (trap_handler_address src (csr_read (h_csrs h) (xtvec_reg tm)), h)"
proof -
  have "csr_write (h_csrs h) (xepc_reg tm) rpc = h_csrs h"
    "csr_write (h_csrs h) (xcause_reg tm) (xcause src) = h_csrs h"
    "csr_write (h_csrs h) (xtval_reg tm) (xtval src) = h_csrs h"
    using csr_write_read_back [OF assms(1)] assms(4-6) by metis+
  then show ?thesis
    using csr_write_read_back [OF assms(1)] assms(2,3,7)
    by (simp add: take_trap_def take_trap_from_mode_def Let_def del: trap_mstatus.simps)
qed

definition ecall_hart :: hart_state where
  "ecall_hart = snd (take_trap twiddle_words
     (example_hart\<lparr>h_mode := Machine, h_csrs := csr_write (h_csrs example_hart) (CSR_M Mtvec) 0x80000000\<rparr>)
     (TrapException ExcEnvCallFromMMode) 0x80000000)"

definition ecall_machine :: machine_state where
  "ecall_machine = \<lparr>ms_hart = ecall_hart,
     ms_bus = example_bus\<lparr>bus_memory := \<lparr>mem_BYTES = 64, mem_data = (\<lambda>_. 0)(0 := 0x73)\<rparr>\<rparr>\<rparr>"

lemma ecall_hart_fixpoint:
  "csr_wf (h_csrs ecall_hart)" "h_pc ecall_hart = 0x80000000" "h_mode ecall_hart = Machine"
  "csr_read (h_csrs ecall_hart) (CSR_M Mip) = 0"
  "take_trap twiddle_words ecall_hart (TrapException ExcEnvCallFromMMode) 0x80000000 = (0x80000000, ecall_hart)"
proof -
  let ?src = "TrapException ExcEnvCallFromMMode"
  let ?cs = "csr_write (csregisters_reset (\<lambda>_. 0)) (CSR_M Mtvec) 0x80000000"
  let ?h = "example_hart\<lparr>h_mode := Machine, h_csrs := csr_write (h_csrs example_hart) (CSR_M Mtvec) 0x80000000\<rparr>"
  have cs: "h_csrs ?h = ?cs" by (simp add: example_hart_def hart_reset_def)
  have wf: "csr_wf (h_csrs ?h)" unfolding cs by (intro csr_wf_write csr_wf_reset)
  have tm: "get_trap_mode tw c ?src Machine = TrapMachine" for tw c
    by (simp add: get_trap_mode_def Let_def)
  have "make_value_writable (CSR_M Mtvec) 0x80000000 = Some 0x80000000" by code_simp
  then have rd: "csr_read ?cs (CSR_M Mtvec) = 0x80000000"
    "csr_read ?cs (CSR_M Mstatus) = default_mcsr Mstatus"
    by (simp_all add: csr_read_write is_shadow_def csr_read_reset)
  have after: "csr_read (h_csrs ecall_hart) r =
     (if r = CSR_M Mstatus then trap_mstatus TrapMachine Machine (csr_read ?cs r)
      else if r = CSR_M Mepc then 0x80000000
      else if r = CSR_M Mcause \<and> cause_recorded TrapMachine ?src then xcause ?src
      else if r = CSR_M Mtval then xtval ?src
      else csr_read ?cs r)" if "\<not> is_shadow r" for r
    using take_trap_csrs [OF wf that, of twiddle_words ?src TrapMachine "0x80000000"] tm
    by (simp add: ecall_hart_def cs del: trap_mstatus.simps)
  show wf': "csr_wf (h_csrs ecall_hart)" unfolding ecall_hart_def by (rule csr_wf_take_trap [OF wf])
  show pc: "h_pc ecall_hart = 0x80000000" and mode: "h_mode ecall_hart = Machine"
    using tm by (simp_all add: ecall_hart_def take_trap_frame example_hart_def hart_reset_def)
  show "csr_read (h_csrs ecall_hart) (CSR_M Mip) = 0"
    using after [of "CSR_M Mip"]
    by (simp add: is_shadow_def csr_read_write csr_read_reset default_mcsr_def del: trap_mstatus.simps)
  have "cause_recorded TrapMachine ?src" by code_simp
  moreover have "trap_mstatus TrapMachine Machine (trap_mstatus TrapMachine Machine (default_mcsr Mstatus)) =
      trap_mstatus TrapMachine Machine (default_mcsr Mstatus)"
    by code_simp
  ultimately show "take_trap twiddle_words ecall_hart ?src 0x80000000 = (0x80000000, ecall_hart)"
    using take_trap_fixpoint [OF wf', of twiddle_words ?src TrapMachine "0x80000000"] mode tm
      after [of "CSR_M Mepc"] after [of "CSR_M Mcause"] after [of "CSR_M Mtval"]
      after [of "CSR_M Mstatus"] after [of "CSR_M Mtvec"] rd
    by (simp add: is_shadow_def del: trap_mstatus.simps)
qed

lemma ecall_machine_step:
  "step twiddle_words ecall_machine = (Inl EnvCallFromMMode, ecall_machine)"
proof -
  have np: "get_pending_interrupt twiddle_words ecall_machine = None"
    using ecall_hart_fixpoint(4)
    by (simp add: get_pending_interrupt_find interrupt_priority_def interrupt_active_def ecall_machine_def)
  have wf: "bus_wf (ms_bus ecall_machine)" by (simp add: ecall_machine_def bus_wf_def)
  have "bus_read (ms_bus ecall_machine) 0x80000000 = Some (0x73 :: u16)"
    "bus_read (ms_bus ecall_machine) 0x80000002 = Some (0 :: u16)"
    unfolding bus_read_eq [OF wf, where 'a = 16, simplified]
    by (simp_all add: ecall_machine_def in_memory_def dyn_read_def read_bytes_def elem_size_def
        upt_conv_Cons mem_offset_def)
  moreover have "parse_uncompressed_instruction 0x73 = Ecall" by code_simp
  ultimately have "fetch_instr ecall_machine 0x80000000 = Inr Ecall"
    by (simp add: fetch_instr_def parse_def shl_def)
  then have "run_instr_at ecall_machine 0x80000000 = (Inl ExcEnvCallFromMMode, ecall_machine)"
    by (simp add: run_instr_at_def run_instr_def run_ecall_def ecall_machine_def ecall_hart_fixpoint)
  with np show ?thesis
    by (simp add: step_def step_at_def address_on_exception_def ecall_machine_def ecall_hart_fixpoint
        Let_def)
qed

section \<open>Properties\<close>

lemma step_many_from_continue:
  assumes "step_many_from tw mx c d m = (r, m')" "d + k < smr_steps r"
  shows "\<exists>mk. ok_steps tw k m = Some mk \<and> c mk"
  using assms
proof (induction tw mx c d m arbitrary: k rule: step_many_from.induct)
  case (1 tw mx c d m)
  show ?case
  proof (cases "d < mx \<and> c m")
    case False
    with 1(2,3) show ?thesis by (auto simp: step_many_from.simps [of tw mx c d])
  next
    case True
    obtain s m1 where s: "step tw m = (s, m1)" by fastforce
    show ?thesis
    proof (cases s)
      case (Inl e)
      with 1(2,3) True s show ?thesis by (auto simp: step_many_from.simps [of tw mx c d])
    next
      case (Inr u)
      then have rec: "step_many_from tw mx c (d + 1) m1 = (r, m')"
        using True s 1(2) by (simp add: step_many_from.simps [of tw mx c d])
      show ?thesis
        using 1(1) [OF True s [symmetric] Inr rec, of "k - 1"] 1(3) True s Inr by (cases k) auto
    qed
  qed
qed

text \<open>
  C28: \<open>step_many\<close> takes steps one after the other, at most as many as it may, and reports exactly
  how many completed. It goes on as long as the predicate holds of the state, and stops early only
  when it does not or when a step leaves an environment call, which is not counted.
\<close>

theorem step_many_spec:
  assumes "step_many tw m mx c = (r, m')"
  shows "smr_steps r \<le> mx \<and>
    (\<forall>k. k < smr_steps r \<longrightarrow> (\<exists>mk. ok_steps tw k m = Some mk \<and> c mk)) \<and>
    (\<exists>m1. ok_steps tw (smr_steps r) m = Some m1 \<and>
       (case smr_exception r of
          None \<Rightarrow> m' = m1 \<and> (smr_steps r = mx \<or> \<not> c m1)
        | Some e \<Rightarrow> smr_steps r < mx \<and> c m1 \<and> step tw m1 = (Inl e, m')))"
proof -
  have "\<forall>k. k < smr_steps r \<longrightarrow> (\<exists>mk. ok_steps tw k m = Some mk \<and> c mk)"
    using step_many_from_continue [of tw mx c 0 m r m'] assms by (simp add: step_many_def)
  moreover from assms have "smr_steps r \<le> mx \<and> (\<exists>m1. ok_steps tw (smr_steps r) m = Some m1 \<and>
       (case smr_exception r of
          None \<Rightarrow> m' = m1 \<and> (smr_steps r = mx \<or> \<not> c m1)
        | Some e \<Rightarrow> smr_steps r < mx \<and> c m1 \<and> step tw m1 = (Inl e, m')))"
    by (cases rule: step_many_cases) auto
  ultimately show ?thesis by blast
qed

theorem step_many_spec_witness:
  "\<exists>m'. step_many twiddle_words ecall_machine 5 (\<lambda>_. True) =
      (\<lparr>smr_steps = 0, smr_exception = Some EnvCallFromMMode\<rparr>, m') \<and>
    step twiddle_words ecall_machine = (Inl EnvCallFromMMode, m')"
proof -
  have "step_many twiddle_words ecall_machine 5 (\<lambda>_. True) =
      (\<lparr>smr_steps = 0, smr_exception = Some EnvCallFromMMode\<rparr>, ecall_machine)"
    by (simp add: step_many_def step_many_from.simps ecall_machine_step)
  with step_many_spec [OF this] show ?thesis by simp
qed

text \<open>
  C4: \<open>step_many\<close> of the PVM does what stepping one instruction at a time with the environment
  handling each call would do: it ends after the same number of steps in the same state, and fails
  exactly if the environment calls one of them fatal. A call that the environment handles counts as
  a step, and the run goes on behind it as long as the environment allows and the budget lasts.
\<close>

theorem pvm_step_many_reference:
  assumes "mx < 2 ^ 64"
  shows "pvm_step_many tw ee p mx =
     (case env_run tw ee mx (pvm_syscall p, pvm_machine p) of
        (e, n, s, m) \<Rightarrow>
          if e = Budget \<or> e = Stopped
          then Some (n, p\<lparr>pvm_machine := m, pvm_syscall := s\<rparr>) else None)"
  using assms by (simp add: pvm_step_many_def step_many_accum_run split: prod.split)

definition ecall_posix :: posix_state where
  "ecall_posix = \<lparr>px_exited = 0, px_code = 0, px_exit_mode = User\<rparr>"

lemma ecall_posix_call:
  "posix_handle_call twiddle_words ecall_posix ecall_machine EnvCallFromMMode =
     (Handled True, ecall_posix, ecall_machine)"
  using ecall_hart_fixpoint
  by (simp add: posix_handle_call_def posix_exited_def ecall_posix_def ecall_machine_def Let_def)

lemma ecall_run:
  "env_run twiddle_words (posix twiddle_words) n (ecall_posix, ecall_machine) =
     (Budget, n, ecall_posix, ecall_machine)"
  by (induction n) (simp_all add: ecall_machine_step posix_def ecall_posix_call)

theorem pvm_step_many_reference_witness:
  "pvm_step_many twiddle_words (posix twiddle_words)
     \<lparr>pvm_version = 0, pvm_machine = ecall_machine, pvm_syscall = ecall_posix\<rparr> 7 =
   Some (7, \<lparr>pvm_version = 0, pvm_machine = ecall_machine, pvm_syscall = ecall_posix\<rparr>)"
  using pvm_step_many_reference [of 7 twiddle_words "posix twiddle_words"
      "\<lparr>pvm_version = 0, pvm_machine = ecall_machine, pvm_syscall = ecall_posix\<rparr>"]
  by (simp add: ecall_run)

text \<open>
  C3: what the interpreter reports of a run is true of the reference run from the same state: if
  it is still running then the reference run reaches the same state after the reported number of
  steps, and if it has exited or failed then the reference run with the full budget ends the same
  way, with the same exit code or call, number of steps and state.
\<close>

theorem interpreter_run_sound:
  assumes "interpreter_run tw i mx = (res, i')" "mx < 2 ^ 64"
  shows "case res of
     Running n \<Rightarrow> n \<le> mx \<and> env_run tw (posix tw) n (posix_view i) = (Budget, n, posix_view i')
   | Exit c n \<Rightarrow> exit_code (in_posix i') = Some c \<and>
       env_run tw (posix tw) mx (posix_view i) = (Stopped, n, posix_view i')
   | Exception e n \<Rightarrow> env_run tw (posix tw) mx (posix_view i) = (Died e, n, posix_view i')"
  using run_accum_ok [of tw i 0 mx res i'] assms by (cases res) (simp_all add: interpreter_run_def)

lemma ecall_run_accum:
  "interpreter_run twiddle_words \<lparr>in_posix = ecall_posix, in_machine = ecall_machine\<rparr> 1 =
     (Running 1, \<lparr>in_posix = ecall_posix, in_machine = ecall_machine\<rparr>)"
proof -
  have "exit_code ecall_posix = None" using posix_outcome [OF ecall_posix_call] by simp
  then show ?thesis
    by (simp add: interpreter_run_def run_accum.simps handle_step_result.simps step_many_def
        step_many_from.simps ecall_machine_step ecall_posix_call usize_add_def Let_def)
qed

theorem interpreter_run_sound_witness:
  "interpreter_run twiddle_words \<lparr>in_posix = ecall_posix, in_machine = ecall_machine\<rparr> 1 =
     (Running 1, \<lparr>in_posix = ecall_posix, in_machine = ecall_machine\<rparr>) \<and>
   env_run twiddle_words (posix twiddle_words) 1 (ecall_posix, ecall_machine) =
     (Budget, 1, ecall_posix, ecall_machine)"
  using interpreter_run_sound [OF ecall_run_accum] ecall_run_accum by (simp add: posix_view_def)

text \<open>
  C39: \<open>run\<close> may stop before its budget is used up. \<open>run_accum\<close> subtracts the steps done before the
  call from a budget that no longer contains them, so that a program whose handler calls again at
  once is reported as running after 4 steps of a budget of 10, where the reference run takes 10.
\<close>

theorem run_undercounts:
  assumes "step tw m = (Inl e, m)" "posix_handle_call tw s m e = (Handled True, s, m)"
  shows "interpreter_run tw \<lparr>in_posix = s, in_machine = m\<rparr> 10 =
           (Running 4, \<lparr>in_posix = s, in_machine = m\<rparr>) \<and>
         env_run tw (posix tw) 10 (s, m) = (Budget, 10, s, m)"
proof
  have many: "step_many tw m mx (\<lambda>_. True) = (\<lparr>smr_steps = 0, smr_exception = Some e\<rparr>, m)"
    if "0 < mx" for mx
    using assms(1) that by (simp add: step_many_def step_many_from.simps)
  have ec: "exit_code s = None"
    using posix_outcome [OF assms(2)] by simp
  show "interpreter_run tw \<lparr>in_posix = s, in_machine = m\<rparr> 10 =
           (Running 4, \<lparr>in_posix = s, in_machine = m\<rparr>)"
    by (simp add: interpreter_run_def run_accum.simps handle_step_result.simps many assms(2) ec
        usize_add_def)
  have "env_run tw (posix tw) n (s, m) = (Budget, n, s, m)" for n
    by (induction n) (simp_all add: assms posix_def)
  then show "env_run tw (posix tw) 10 (s, m) = (Budget, 10, s, m)" .
qed

theorem run_undercounts_witness:
  "fst (interpreter_run twiddle_words \<lparr>in_posix = ecall_posix, in_machine = ecall_machine\<rparr> 10) = Running 4"
  using run_undercounts [OF ecall_machine_step ecall_posix_call] by simp

text \<open>
  C30: the POSIX environment ends a program exactly if it has not exited before and calls from the
  exit mode with 93 in \<open>a7\<close>; the exit code is then the value of \<open>a0\<close> and the machine is left as it
  is. A call from another mode is turned into the trap of the machine, and any other call is fatal
  and changes nothing.
\<close>

theorem posix_call:
  assumes "posix_handle_call tw s m e = (oc, s', m')"
  shows "(oc = Handled False \<longleftrightarrow>
      exit_code s = None \<and> source_mode e = px_exit_mode s \<and> xregs_read (h_xregs (ms_hart m)) x17 = 93) \<and>
    (oc = Handled True \<longleftrightarrow> exit_code s = None \<and> source_mode e \<noteq> px_exit_mode s) \<and>
    (case oc of
       Fatal \<Rightarrow> s' = s \<and> m' = m
     | Handled True \<Rightarrow> s' = s \<and>
         m' = set_pc (m\<lparr>ms_hart := snd (take_trap tw (ms_hart m) (TrapException (as_exception e)) (h_pc (ms_hart m)))\<rparr>)
                (fst (take_trap tw (ms_hart m) (TrapException (as_exception e)) (h_pc (ms_hart m))))
     | Handled False \<Rightarrow> exit_code s' = Some (xregs_read (h_xregs (ms_hart m)) x10) \<and> m' = m)"
proof -
  have "saturating_add (0 :: u8) 1 = 1" by (simp add: saturating_add_def)
  with assms show ?thesis
    by (auto simp: posix_handle_call_def exit_code_def posix_exited_def set_pc_def Let_def split_def
        word_gt_0 split: if_splits)
qed

theorem posix_call_witness:
  "posix_handle_call twiddle_words ecall_posix ecall_machine EnvCallFromMMode =
     (Handled True, ecall_posix, ecall_machine) \<and>
   exit_code ecall_posix = None \<and> source_mode EnvCallFromMMode \<noteq> px_exit_mode ecall_posix"
  using posix_call [OF ecall_posix_call] ecall_posix_call by simp

text \<open>
  C29: running a PVM with the POSIX environment keeps the machine invariant.
\<close>

theorem pvm_invariant:
  assumes "machine_wf (pvm_machine p)" "mx < 2 ^ 64"
    and "pvm_step_many tw (posix tw) p mx = Some (n, p')"
  shows "machine_wf (pvm_machine p') \<and> n \<le> mx \<and> pvm_version p' = pvm_version p"
proof -
  obtain e k s m where r: "env_run tw (posix tw) mx (pvm_syscall p, pvm_machine p) = (e, k, s, m)"
    by (metis prod_cases4)
  with assms(2,3) step_many_accum_run [of 0 mx tw "posix tw" p]
  have "n = k" "pvm_version p' = pvm_version p" by (auto simp: pvm_step_many_def split: if_splits)
  with env_run_steps [OF r] posix_env.pvm_step_many_wf [OF assms] show ?thesis by simp
qed

theorem pvm_invariant_witness:
  "pvm_step_many twiddle_words (posix twiddle_words)
     \<lparr>pvm_version = 0, pvm_machine = ecall_machine, pvm_syscall = ecall_posix\<rparr> 7 =
     Some (7, \<lparr>pvm_version = 0, pvm_machine = ecall_machine, pvm_syscall = ecall_posix\<rparr>) \<and>
   machine_wf ecall_machine"
proof
  let ?p = "\<lparr>pvm_version = 0, pvm_machine = ecall_machine, pvm_syscall = ecall_posix\<rparr>"
  show *: "pvm_step_many twiddle_words (posix twiddle_words) ?p 7 = Some (7, ?p)"
    by (simp add: pvm_step_many_def step_many_accum_run ecall_run)
  have "machine_wf (pvm_machine ?p)"
    by (simp add: machine_wf_def ecall_machine_def ecall_hart_fixpoint bus_wf_def)
  from pvm_invariant [OF this _ *] show "machine_wf ecall_machine" by simp
qed

end
