(* ===== verification/RV_Boot.thy ===== *)
theory RV_Boot
  imports RV_Loader RV_Exec_Env
begin

text \<open>
  Booting a program: the device tree (\<^verbatim>\<open>interpreter/src/devicetree.rs\<close>), \<open>setup_boot\<close> of the
  machine (\<^verbatim>\<open>machine_state.rs\<close>) and the construction of an interpreter
  (\<^verbatim>\<open>interpreter/src/lib.rs\<close>). The device tree is the sequence of calls on the writer of the crate
  \<open>vm_fdt\<close>; the writer itself, from a sequence of calls to bytes or an error, is the parameter
  \<open>fdt\<close>. The theory shows what a successful boot puts into the memory and the registers.
\<close>

section \<open>Device tree\<close>

record InitialRamDisk =
  rd_start :: u64
  rd_length :: u64

datatype fdt_call =
    BeginNode string
  | EndNode
  | PropertyU32 string u32
  | PropertyU64 string u64
  | PropertyString string string
  | PropertyArrayU64 string "u64 list"
  | PropertyPhandle u32

text \<open>The format \<open>{:x}\<close>.\<close>

definition hex_digit :: "nat \<Rightarrow> char" where
  "hex_digit n = ''0123456789abcdef'' ! n"

fun hex :: "nat \<Rightarrow> string" where
  "hex n = (if n < 16 then [hex_digit n] else hex (n div 16) @ [hex_digit (n mod 16)])"

declare hex.simps [simp del]

text \<open>The macro \<open>node!\<close>, without and with an address.\<close>

definition fdt_node :: "string \<Rightarrow> fdt_call list \<Rightarrow> fdt_call list" where
  "fdt_node name inner = BeginNode name # inner @ [EndNode]"

definition node_at :: "string \<Rightarrow> u64 \<Rightarrow> fdt_call list \<Rightarrow> fdt_call list" where
  "node_at name addr inner = fdt_node (name @ ''@'' @ hex (unat addr)) inner"

definition generate_custom_calls :: "u64 \<Rightarrow> u64 \<Rightarrow> InitialRamDisk option \<Rightarrow> fdt_call list" where
  "generate_custom_calls main_memory_start main_memory_length initrd =
     fdt_node ''''
       ([PropertyU32 ''#address-cells'' 2, PropertyU32 ''#size-cells'' 2,
         PropertyString ''compatible'' ''riscv-virtio'',
         PropertyString ''model'' ''riscv-virtio,qemu''] @
        fdt_node ''chosen''
          (case initrd of
             None \<Rightarrow> []
           | Some rd \<Rightarrow>
               [PropertyU64 ''linux,initrd-end'' (rd_start rd + rd_length rd),
                PropertyU64 ''linux,initrd-start'' (rd_start rd)]) @
        node_at ''memory'' main_memory_start
          [PropertyString ''device_type'' ''memory'',
           PropertyArrayU64 ''reg'' [main_memory_start, main_memory_length]] @
        fdt_node ''cpus''
          ([PropertyU32 ''#address-cells'' 1, PropertyU32 ''#size-cells'' 0,
            PropertyU32 ''timebase-frequency'' 10000000] @
           node_at ''cpu'' 0
             [PropertyPhandle 1,
              PropertyString ''device_type'' ''cpu'',
              PropertyU32 ''reg'' 0,
              PropertyString ''status'' ''okay'',
              PropertyString ''compatible'' ''riscv'']))"

type_synonym 'f fdt_writer = "fdt_call list \<Rightarrow> 'f + u8 list"

definition generate_custom ::
  "'f fdt_writer \<Rightarrow> u64 \<Rightarrow> u64 \<Rightarrow> InitialRamDisk option \<Rightarrow> 'f + u8 list" where
  "generate_custom fdt main_memory_start main_memory_length initrd =
     fdt (generate_custom_calls main_memory_start main_memory_length initrd)"

definition generate :: "'f fdt_writer \<Rightarrow> nat \<Rightarrow> InitialRamDisk option \<Rightarrow> 'f + u8 list" where
  "generate fdt bytes initrd =
     generate_custom fdt (start_of_main_memory bytes) (word_of_nat bytes) initrd"

section \<open>Booting the machine\<close>

datatype 'f machine_error = AddressError | DeviceTreeError 'f

text \<open>The loop over the segments; an error leaves the earlier writes in place.\<close>

fun write_segments :: "bus \<Rightarrow> segments \<Rightarrow> bool \<times> bus" where
  "write_segments b [] = (True, b)"
| "write_segments b ((addr, data) # segs) =
     (case bus_write_all b addr data of
        None \<Rightarrow> (False, b)
      | Some b' \<Rightarrow> write_segments b' segs)"

definition initrd_address :: "nat \<Rightarrow> segments \<Rightarrow> Address" where
  "initrd_address bytes segs =
     (if segs = [] then start_of_main_memory bytes
      else Max (set (map (\<lambda>(base, data). base + word_of_nat (length data)) segs)))"

definition write_initrd ::
  "bus \<Rightarrow> Address \<Rightarrow> u8 list option \<Rightarrow> (bus \<times> Address \<times> InitialRamDisk option) option" where
  "write_initrd b initrd_addr initrd =
     (case initrd of
        None \<Rightarrow> Some (b, initrd_addr, None)
      | Some rd \<Rightarrow>
          map_option (\<lambda>b. (b, initrd_addr + word_of_nat (length rd),
                           Some \<lparr>rd_start = initrd_addr, rd_length = word_of_nat (length rd)\<rparr>))
            (bus_write_all b initrd_addr rd))"

definition boot_hart :: "hart_state \<Rightarrow> Address \<Rightarrow> Mode \<Rightarrow> hart_state" where
  "boot_hart h dtb_addr mode =
     (let cs = csr_write (h_csrs h) (CSR_M Medeleg) (- 1);
          cs = csr_write cs (CSR_M Mideleg) (- 1)
      in h\<lparr>h_xregs := xregs_write (h_xregs h) a1 dtb_addr, h_mode := mode, h_csrs := cs\<rparr>)"

definition setup_boot ::
  "'f fdt_writer \<Rightarrow> machine_state \<Rightarrow> program \<Rightarrow> u8 list option \<Rightarrow> Mode \<Rightarrow>
     ('f machine_error + unit) \<times> machine_state" where
  "setup_boot fdt m program initrd mode =
     (case write_segments (ms_bus m) (prog_segments program) of
        (False, b) \<Rightarrow> (Inl AddressError, m\<lparr>ms_bus := b\<rparr>)
      | (True, b) \<Rightarrow>
          (let h = ms_hart m;
               m = m\<lparr>ms_bus := b,
                     ms_hart := h\<lparr>h_pc := entrypoint program,
                                  h_xregs := xregs_write (h_xregs h) a0 0\<rparr>\<rparr>;
               initrd_addr = initrd_address (mem_BYTES (bus_memory b)) (prog_segments program)
           in case write_initrd b initrd_addr initrd of
                None \<Rightarrow> (Inl AddressError, m)
              | Some (b, dtb_addr, dtb_options) \<Rightarrow>
                  (case generate fdt (mem_BYTES (bus_memory b)) dtb_options of
                     Inl e \<Rightarrow> (Inl (DeviceTreeError e), m\<lparr>ms_bus := b\<rparr>)
                   | Inr dtb \<Rightarrow>
                       (case bus_write_all b dtb_addr dtb of
                          None \<Rightarrow> (Inl AddressError, m\<lparr>ms_bus := b\<rparr>)
                        | Some b \<Rightarrow>
                            (Inr (), m\<lparr>ms_bus := b, ms_hart := boot_hart (ms_hart m) dtb_addr mode\<rparr>)))))"

section \<open>Constructing an interpreter\<close>

text \<open>
  A backend with the layout of the interpreter is what its two parts hold. A new backend is zeroed,
  and a zero byte is the user mode; binding reads what the backend holds and resets nothing.
\<close>

abbreviation M1G :: nat where
  "M1G \<equiv> 1024 * 1024 * 1024"

record interpreter_backend =
  be_posix :: posix_state
  be_machine :: machine_state

definition create_backend :: interpreter_backend where
  "create_backend =
     \<lparr>be_posix = \<lparr>px_exited = 0, px_code = 0, px_exit_mode = User\<rparr>,
      be_machine =
        \<lparr>ms_hart = \<lparr>h_xregs = \<lambda>_. 0, h_fregs = \<lambda>_. 0, h_csrs = \<lambda>_. 0, h_mode = User, h_pc = 0\<rparr>,
         ms_bus = \<lparr>bus_devices = \<lambda>_. 0, bus_memory = \<lparr>mem_BYTES = M1G, mem_data = \<lambda>_. 0\<rparr>\<rparr>\<rparr>\<rparr>"

definition interpreter_init :: "interpreter_backend \<Rightarrow> Mode \<Rightarrow> posix_state \<times> machine_state" where
  "interpreter_init backend mode =
     (let posix_state = be_posix backend;
          posix_state = set_exit_mode posix_state mode;
          machine_state = be_machine backend
      in (posix_state, machine_state))"

datatype ('g, 'f) interpreter_error = KernelLoadingError "'g load_error" | MachineError "'f machine_error"

text \<open>The result, and what the borrowed backend holds afterwards.\<close>

definition interpreter_new ::
  "'g goblin \<Rightarrow> 'f fdt_writer \<Rightarrow> interpreter_backend \<Rightarrow> u8 list \<Rightarrow> u8 list option \<Rightarrow> Mode \<Rightarrow>
     (('g, 'f) interpreter_error, interpreter) rust \<times> interpreter_backend" where
  "interpreter_new g fdt backend program initrd mode =
     (let (posix_state, machine) = interpreter_init backend mode
      in case from_elf M1G g program of
           Panic \<Rightarrow> (Panic, \<lparr>be_posix = posix_state, be_machine = machine\<rparr>)
         | Err e \<Rightarrow> (Err (KernelLoadingError e), \<lparr>be_posix = posix_state, be_machine = machine\<rparr>)
         | Ok elf_program \<Rightarrow>
             (case setup_boot fdt machine elf_program initrd Machine of
                (Inl e, machine) \<Rightarrow>
                  (Err (MachineError e), \<lparr>be_posix = posix_state, be_machine = machine\<rparr>)
              | (Inr _, machine) \<Rightarrow>
                  (Ok \<lparr>in_posix = posix_state, in_machine = machine\<rparr>,
                   \<lparr>be_posix = posix_state, be_machine = machine\<rparr>)))"

section \<open>The memory after booting\<close>

text \<open>The byte of the memory at an address of the bus.\<close>

definition mem_byte :: "bus \<Rightarrow> nat \<Rightarrow> u8" where
  "mem_byte b x = mem_data (bus_memory b) (x - 2 ^ 31)"

lemma bus_read_byte:
  assumes "bus_wf b" "in_memory b a 1"
  shows "bus_read b a = Some (mem_byte b (unat a))"
  using assms by (simp add: bus_read_eq elem_size_def dyn_read_byte mem_byte_def mem_offset_def)

lemma bus_write_all_byte:
  assumes "bus_wf b" "length bs \<le> 2 ^ 62" "bus_write_all b a bs = Some b'"
  shows "bus_wf b'" "mem_BYTES (bus_memory b') = mem_BYTES (bus_memory b)"
    "in_memory b a (length bs)" "bus_devices b' = bus_devices b"
    "2 ^ 31 \<le> x \<Longrightarrow> mem_byte b' x =
       (if unat a \<le> x \<and> x < unat a + length bs then bs ! (x - unat a) else mem_byte b x)"
proof -
  from assms have *: "in_memory b a (length bs)"
    "b' = b\<lparr>bus_memory := (bus_memory b)\<lparr>mem_data :=
             write_bytes_at (mem_data (bus_memory b)) (mem_offset a) bs\<rparr>\<rparr>"
    by (auto simp: bus_write_all_u8 split: if_splits)
  then show "bus_wf b'" "mem_BYTES (bus_memory b') = mem_BYTES (bus_memory b)"
    "in_memory b a (length bs)" "bus_devices b' = bus_devices b"
    using assms(1) by simp_all
  show "mem_byte b' x =
       (if unat a \<le> x \<and> x < unat a + length bs then bs ! (x - unat a) else mem_byte b x)"
    if "2 ^ 31 \<le> x"
    using that * by (auto simp: mem_byte_def write_bytes_at_apply mem_offset_def in_memory_def)
qed

lemma image_at_Cons:
  assumes "segs_wf ((a, v) # segs)"
  shows "image_at ((a, v) # segs) x = (if covers x (a, v) then Some (v ! (x - unat a)) else image_at segs x)"
    "covers x (a, v) \<Longrightarrow> image_at segs x = None"
  using assms by (force simp: image_at_def find_None_iff segs_wf_def covers_def)+

lemma write_segments_ok:
  assumes "bus_wf b" "segs_wf segs" "\<forall>(a, v) \<in> set segs. length v \<le> 2 ^ 62"
    and "write_segments b segs = (True, b')"
  shows "bus_wf b' \<and> mem_BYTES (bus_memory b') = mem_BYTES (bus_memory b) \<and>
     (\<forall>(a, v) \<in> set segs. in_memory b a (length v)) \<and>
     (\<forall>x \<ge> 2 ^ 31. mem_byte b' x =
        (case image_at segs x of Some y \<Rightarrow> y | None \<Rightarrow> mem_byte b x))"
  using assms
proof (induction segs arbitrary: b)
  case Nil
  then show ?case by (simp add: image_at_def)
next
  case (Cons s segs)
  obtain a v where s: "s = (a, v)" by fastforce
  from Cons.prems s obtain b1 where b1: "bus_write_all b a v = Some b1" "write_segments b1 segs = (True, b')"
    by (auto split: option.splits)
  note w = bus_write_all_byte [OF Cons.prems(1) _ b1(1)]
  have len: "length v \<le> 2 ^ 62" using Cons.prems(3) s by simp
  have wf: "segs_wf segs" using Cons.prems(2) s by (simp add: segs_wf_def)
  have IH: "bus_wf b' \<and> mem_BYTES (bus_memory b') = mem_BYTES (bus_memory b1) \<and>
     (\<forall>(a, v) \<in> set segs. in_memory b1 a (length v)) \<and>
     (\<forall>x \<ge> 2 ^ 31. mem_byte b' x = (case image_at segs x of Some y \<Rightarrow> y | None \<Rightarrow> mem_byte b1 x))"
    using Cons.IH [OF w(1) [OF len] wf _ b1(2)] Cons.prems(3) s by simp
  have "in_memory b1 c n = in_memory b c n" for c n
    using w(2) [OF len] by (simp add: in_memory_def)
  with IH w(2,3) [OF len] have mem: "\<forall>(a, v) \<in> set (s # segs). in_memory b a (length v)"
    by (auto simp: s)
  have "mem_byte b' x = (case image_at (s # segs) x of Some y \<Rightarrow> y | None \<Rightarrow> mem_byte b x)"
    if "2 ^ 31 \<le> x" for x
    using that IH w(5) [OF len, of x] image_at_Cons [OF Cons.prems(2) [unfolded s], of x]
    by (auto simp: s covers_def split: option.splits)
  with IH mem w(2) [OF len] show ?case by simp
qed

lemma initrd_address_above:
  assumes "segs_wf segs" "(a, v) \<in> set segs"
  shows "unat a + length v \<le> unat (initrd_address bytes segs)"
proof -
  let ?f = "\<lambda>(base, data). base + word_of_nat (length data) :: Address"
  have "unat (?f (a, v)) = unat a + length v"
    using assms by (auto simp: segs_wf_def intro!: unat_add_nat)
  moreover have "?f (a, v) \<le> Max (set (map ?f segs))"
    using assms(2) by (intro Max_ge) force+
  ultimately show ?thesis
    using assms(2) by (auto simp: initrd_address_def word_le_nat_alt)
qed

definition initrd_bytes :: "u8 list option \<Rightarrow> u8 list" where
  "initrd_bytes initrd = (case initrd of None \<Rightarrow> [] | Some rd \<Rightarrow> rd)"

lemma write_initrd_ok:
  assumes "bus_wf b" "length (initrd_bytes initrd) \<le> 2 ^ 62"
    and "write_initrd b ia initrd = Some (b1, da, opt)"
  shows "bus_wf b1" "mem_BYTES (bus_memory b1) = mem_BYTES (bus_memory b)"
    "unat da = unat ia + length (initrd_bytes initrd)"
    "2 ^ 31 \<le> x \<Longrightarrow> mem_byte b1 x =
       (if unat ia \<le> x \<and> x < unat ia + length (initrd_bytes initrd)
        then initrd_bytes initrd ! (x - unat ia) else mem_byte b x)"
    "initrd_bytes initrd \<noteq> [] \<Longrightarrow> in_memory b ia (length (initrd_bytes initrd))"
proof -
  have "bus_wf b1 \<and> mem_BYTES (bus_memory b1) = mem_BYTES (bus_memory b) \<and>
    unat da = unat ia + length (initrd_bytes initrd) \<and>
    (2 ^ 31 \<le> x \<longrightarrow> mem_byte b1 x =
       (if unat ia \<le> x \<and> x < unat ia + length (initrd_bytes initrd)
        then initrd_bytes initrd ! (x - unat ia) else mem_byte b x)) \<and>
    (initrd_bytes initrd \<noteq> [] \<longrightarrow> in_memory b ia (length (initrd_bytes initrd)))" for x
  proof (cases initrd)
    case None
    with assms show ?thesis by (auto simp: write_initrd_def initrd_bytes_def)
  next
    case (Some rd)
    with assms have w: "bus_write_all b ia rd = Some b1" "da = ia + word_of_nat (length rd)"
      and len: "length rd \<le> 2 ^ 62"
      by (auto simp: write_initrd_def initrd_bytes_def)
    note byte = bus_write_all_byte [OF assms(1) len w(1)]
    have "unat da = unat ia + length rd"
      unfolding w(2) using byte(3) assms(1)
      by (intro unat_add_nat) (simp add: in_memory_def bus_wf_def)
    with Some byte show ?thesis by (simp add: initrd_bytes_def)
  qed
  then show "bus_wf b1" "mem_BYTES (bus_memory b1) = mem_BYTES (bus_memory b)"
    "unat da = unat ia + length (initrd_bytes initrd)"
    "2 ^ 31 \<le> x \<Longrightarrow> mem_byte b1 x =
       (if unat ia \<le> x \<and> x < unat ia + length (initrd_bytes initrd)
        then initrd_bytes initrd ! (x - unat ia) else mem_byte b x)"
    "initrd_bytes initrd \<noteq> [] \<Longrightarrow> in_memory b ia (length (initrd_bytes initrd))"
    by blast+
qed

text \<open>The addresses of the initial ramdisk and of the device tree.\<close>

definition boot_initrd :: "machine_state \<Rightarrow> program \<Rightarrow> Address" where
  "boot_initrd m p = initrd_address (mem_BYTES (bus_memory (ms_bus m))) (prog_segments p)"

definition boot_dtb :: "machine_state \<Rightarrow> program \<Rightarrow> u8 list option \<Rightarrow> Address" where
  "boot_dtb m p initrd = boot_initrd m p + word_of_nat (length (initrd_bytes initrd))"

definition boot_ramdisk :: "machine_state \<Rightarrow> program \<Rightarrow> u8 list option \<Rightarrow> InitialRamDisk option" where
  "boot_ramdisk m p initrd =
     map_option (\<lambda>rd. \<lparr>rd_start = boot_initrd m p, rd_length = word_of_nat (length rd)\<rparr>) initrd"

text \<open>The end of the last segment, or the start of the memory without segments.\<close>

definition program_end :: "segments \<Rightarrow> Address \<Rightarrow> bool" where
  "program_end segs e \<longleftrightarrow>
     (if segs = [] then e = 0x80000000
      else (\<exists>(a, v) \<in> set segs. unat e = unat a + length v) \<and>
           (\<forall>(a, v) \<in> set segs. unat a + length v \<le> unat e))"

lemma program_end_initrd:
  assumes "segs_wf segs"
  shows "program_end segs (initrd_address bytes segs)"
proof (cases "segs = []")
  case True
  then show ?thesis
    by (simp add: program_end_def initrd_address_def start_of_main_memory_def
        DEVICES_ADDRESS_SPACE_LENGTH_def)
next
  case False
  let ?f = "\<lambda>(base, data). base + word_of_nat (length data) :: Address"
  have "Max (set (map ?f segs)) \<in> set (map ?f segs)"
    using False by (intro Max_in) simp_all
  then obtain a v where av: "(a, v) \<in> set segs" "Max (set (map ?f segs)) = ?f (a, v)"
    by auto
  moreover have "unat (?f (a, v)) = unat a + length v"
    using assms av(1) by (auto simp: segs_wf_def intro!: unat_add_nat)
  ultimately have "\<exists>(a, v) \<in> set segs. unat (initrd_address bytes segs) = unat a + length v"
    using False by (auto simp: initrd_address_def)
  with False initrd_address_above [OF assms] show ?thesis
    by (auto simp: program_end_def)
qed

lemma image_before_end:
  assumes "program_end segs e" "image_at segs x = Some y"
  shows "x < unat e"
proof -
  have "\<not> (\<forall>s \<in> set segs. \<not> covers x s)"
    using assms(2) image_at_None [of segs x] by simp
  then obtain a v where "(a, v) \<in> set segs" "covers x (a, v)" by auto
  with assms(1) show ?thesis by (fastforce simp: program_end_def covers_def split: if_splits)
qed

text \<open>
  What a device tree tells the program: the range of the memory, and the range of the ramdisk if
  there is one.
\<close>

definition fdt_announces :: "fdt_call list \<Rightarrow> u64 \<Rightarrow> (u64 \<times> u64) option \<Rightarrow> bool" where
  "fdt_announces calls memory_length ramdisk \<longleftrightarrow>
     {v. PropertyArrayU64 ''reg'' v \<in> set calls} = {[0x80000000, memory_length]} \<and>
     {v. PropertyU64 ''linux,initrd-start'' v \<in> set calls} = fst ` set_option ramdisk \<and>
     {v. PropertyU64 ''linux,initrd-end'' v \<in> set calls} = snd ` set_option ramdisk"

lemma generate_announces:
  "fdt_announces (generate_custom_calls (start_of_main_memory bytes) n opt) n
     (map_option (\<lambda>rd. (rd_start rd, rd_start rd + rd_length rd)) opt)"
  by (cases opt)
     (auto simp: fdt_announces_def generate_custom_calls_def fdt_node_def node_at_def
       start_of_main_memory_def DEVICES_ADDRESS_SPACE_LENGTH_def)

lemma setup_boot_cases:
  assumes boot: "setup_boot fdt m p initrd mode = (Inr (), m')"
  obtains b1 b2 b3 da opt dtb where
    "write_segments (ms_bus m) (prog_segments p) = (True, b1)"
    "write_initrd b1 (initrd_address (mem_BYTES (bus_memory b1)) (prog_segments p)) initrd =
       Some (b2, da, opt)"
    "generate fdt (mem_BYTES (bus_memory b2)) opt = Inr dtb"
    "bus_write_all b2 da dtb = Some b3" "ms_bus m' = b3"
    "ms_hart m' = boot_hart ((ms_hart m)\<lparr>h_pc := entrypoint p,
        h_xregs := xregs_write (h_xregs (ms_hart m)) a0 0\<rparr>) da mode"
proof -
  obtain ok b1 where w: "write_segments (ms_bus m) (prog_segments p) = (ok, b1)" by fastforce
  with boot have ok by (cases ok) (simp_all add: setup_boot_def)
  with w boot obtain b2 da opt where i:
    "write_initrd b1 (initrd_address (mem_BYTES (bus_memory b1)) (prog_segments p)) initrd =
       Some (b2, da, opt)"
    by (cases "write_initrd b1 (initrd_address (mem_BYTES (bus_memory b1)) (prog_segments p)) initrd")
       (auto simp: setup_boot_def Let_def)
  with w \<open>ok\<close> boot obtain dtb where d: "generate fdt (mem_BYTES (bus_memory b2)) opt = Inr dtb"
    by (cases "generate fdt (mem_BYTES (bus_memory b2)) opt") (auto simp: setup_boot_def Let_def)
  with w \<open>ok\<close> i boot obtain b3 where b: "bus_write_all b2 da dtb = Some b3"
    by (cases "bus_write_all b2 da dtb") (auto simp: setup_boot_def Let_def)
  show thesis
    using w \<open>ok\<close> i d b boot by (intro that [OF _ i d b]) (auto simp: setup_boot_def Let_def)
qed

text \<open>The sizes that fit into the address space.\<close>

definition boot_sizes_ok :: "'f fdt_writer \<Rightarrow> program \<Rightarrow> u8 list option \<Rightarrow> bool" where
  "boot_sizes_ok fdt p initrd \<longleftrightarrow>
     (\<forall>(a, v) \<in> set (prog_segments p). length v \<le> 2 ^ 62) \<and>
     length (initrd_bytes initrd) \<le> 2 ^ 62 \<and> (\<forall>cs dtb. fdt cs = Inr dtb \<longrightarrow> length dtb \<le> 2 ^ 62)"

lemma boot_memory:
  assumes wf: "bus_wf (ms_bus m)" "segs_wf (prog_segments p)" "boot_sizes_ok fdt p initrd"
    and boot: "setup_boot fdt m p initrd mode = (Inr (), m')"
  obtains dtb where
    "generate fdt (mem_BYTES (bus_memory (ms_bus m))) (boot_ramdisk m p initrd) = Inr dtb"
    "bus_wf (ms_bus m')" "mem_BYTES (bus_memory (ms_bus m')) = mem_BYTES (bus_memory (ms_bus m))"
    "unat (boot_dtb m p initrd) = unat (boot_initrd m p) + length (initrd_bytes initrd)"
    "\<And>x y. image_at (prog_segments p) x = Some y \<Longrightarrow>
       bus_read (ms_bus m') (word_of_nat x) = Some y"
    "\<And>i. i < length (initrd_bytes initrd) \<Longrightarrow>
       bus_read (ms_bus m') (boot_initrd m p + word_of_nat i) = Some (initrd_bytes initrd ! i)"
    "\<And>i. i < length dtb \<Longrightarrow> bus_read (ms_bus m') (boot_dtb m p initrd + word_of_nat i) = Some (dtb ! i)"
    "ms_hart m' = boot_hart ((ms_hart m)\<lparr>h_pc := entrypoint p,
        h_xregs := xregs_write (h_xregs (ms_hart m)) a0 0\<rparr>) (boot_dtb m p initrd) mode"
proof -
  obtain b1 b2 b3 da opt dtb where
    w: "write_segments (ms_bus m) (prog_segments p) = (True, b1)"
    and i: "write_initrd b1 (initrd_address (mem_BYTES (bus_memory b1)) (prog_segments p)) initrd =
       Some (b2, da, opt)"
    and d: "generate fdt (mem_BYTES (bus_memory b2)) opt = Inr dtb"
    and b: "bus_write_all b2 da dtb = Some b3" "ms_bus m' = b3"
    and h: "ms_hart m' = boot_hart ((ms_hart m)\<lparr>h_pc := entrypoint p,
        h_xregs := xregs_write (h_xregs (ms_hart m)) a0 0\<rparr>) da mode"
    using setup_boot_cases [OF boot] by metis
  let ?rd = "initrd_bytes initrd"
  have sz: "\<forall>(a, v) \<in> set (prog_segments p). length v \<le> 2 ^ 62" "length ?rd \<le> 2 ^ 62" "length dtb \<le> 2 ^ 62"
    using wf(3) d by (auto simp: boot_sizes_ok_def generate_def generate_custom_def)
  note s1 = write_segments_ok [OF wf(1,2) sz(1) w]
  have B1: "mem_BYTES (bus_memory b1) = mem_BYTES (bus_memory (ms_bus m))" using s1 by simp
  define ia where "ia = boot_initrd m p"
  have i': "write_initrd b1 ia initrd = Some (b2, da, opt)"
    using i by (simp add: ia_def boot_initrd_def B1)
  note s2 = write_initrd_ok [OF conjunct1 [OF s1] sz(2) i']
  have da: "da = boot_dtb m p initrd"
    using i' by (auto simp: write_initrd_def boot_dtb_def ia_def initrd_bytes_def split: option.splits)
  have opt: "opt = boot_ramdisk m p initrd"
    using i' by (auto simp: write_initrd_def boot_ramdisk_def ia_def split: option.splits)
  note s3 = bus_write_all_byte [OF s2(1) sz(3) b(1)]
  let ?B = "2 ^ 31 + mem_BYTES (bus_memory (ms_bus m))"
  have B: "mem_BYTES (bus_memory b3) = mem_BYTES (bus_memory (ms_bus m))"
    "?B < 2 ^ 64" using s3(2) s2(2) B1 wf(1) by (simp_all add: bus_wf_def)
  have rd: "(bus_read b3 (word_of_nat x) :: u8 option) = Some (mem_byte b3 x)" if "2 ^ 31 \<le> x" "x < ?B" for x
  proof -
    have "unat (word_of_nat x :: u64) = x" using that B by (simp add: unat_word_of_nat)
    with that B show ?thesis using bus_read_byte [OF s3(1), of "word_of_nat x"] by (simp add: in_memory_def)
  qed
  have add: "a + word_of_nat i = word_of_nat (unat a + i)" for a :: u64 and i by simp
  have seg: "2 ^ 31 \<le> x \<and> x < ?B \<and> x < unat ia" if "image_at (prog_segments p) x = Some y" for x y
  proof -
    have "\<not> (\<forall>s \<in> set (prog_segments p). \<not> covers x s)"
      using that image_at_None [of "prog_segments p" x] by simp
    then obtain a v where av: "(a, v) \<in> set (prog_segments p)" "covers x (a, v)" by auto
    then have "in_memory (ms_bus m) a (length v)" using s1 by auto
    with av(2) initrd_address_above [OF wf(2) av(1), of "mem_BYTES (bus_memory (ms_bus m))"] show ?thesis
      by (simp add: covers_def in_memory_def ia_def boot_initrd_def)
  qed
  show thesis
  proof (rule that [OF _ _ _ s2(3) [unfolded da ia_def] _ _ _ h [unfolded da]])
    show "generate fdt (mem_BYTES (bus_memory (ms_bus m))) (boot_ramdisk m p initrd) = Inr dtb"
      using d s2(2) B1 opt by simp
    show "bus_wf (ms_bus m')" "mem_BYTES (bus_memory (ms_bus m')) = mem_BYTES (bus_memory (ms_bus m))"
      using s3(1) b(2) B by simp_all
    show "bus_read (ms_bus m') (word_of_nat x) = Some y" if "image_at (prog_segments p) x = Some y" for x y
    proof -
      note x = seg [OF that]
      have "mem_byte b3 x = y" using x s3(5) s2(3,4) s1 that by simp
      with rd x b(2) show ?thesis by simp
    qed
    show "bus_read (ms_bus m') (boot_initrd m p + word_of_nat i) = Some (?rd ! i)"
      if "i < length ?rd" for i
    proof -
      have "?rd \<noteq> []" using that by auto
      then have "in_memory b1 ia (length ?rd)" by (rule s2(5))
      then have x: "2 ^ 31 \<le> unat ia + i" "unat ia + i < ?B" using that B1 by (auto simp: in_memory_def)
      have "mem_byte b3 (unat ia + i) = ?rd ! i" using x(1) s3(5) s2(3,4) that by simp
      with rd [OF x] b(2) show ?thesis unfolding add ia_def by simp
    qed
    show "bus_read (ms_bus m') (boot_dtb m p initrd + word_of_nat i) = Some (dtb ! i)"
      if "i < length dtb" for i
    proof -
      have x: "2 ^ 31 \<le> unat da + i" "unat da + i < ?B"
        using s3(3) that s2(2) B1 by (auto simp: in_memory_def)
      have "mem_byte b3 (unat da + i) = dtb ! i" using x(1) s3(5) that by simp
      with rd [OF x] b(2) show ?thesis unfolding add da [symmetric] by simp
    qed
  qed
qed

lemma boot_hart_regs:
  "h_pc (boot_hart h a mode) = h_pc h" "h_mode (boot_hart h a mode) = mode"
  "xregs_read (h_xregs (boot_hart h a mode)) x11 = a"
  "xregs_read (h_xregs (boot_hart h a mode)) x10 = xregs_read (h_xregs h) x10"
  "csr_read (h_csrs (boot_hart h a mode)) (CSR_M Medeleg) = 0xB3FF"
  "csr_read (h_csrs (boot_hart h a mode)) (CSR_M Mideleg) = 0xAAA"
  "csr_wf (h_csrs h) \<Longrightarrow> csr_wf (h_csrs (boot_hart h a mode))"
proof -
  have "make_value_writable (CSR_M Medeleg) (- 1) = Some 0xB3FF"
    "make_value_writable (CSR_M Mideleg) (- 1) = Some 0xAAA"
    using default_made_writable [of "CSR_M Medeleg"] default_made_writable [of "CSR_M Mideleg"]
    by (simp_all add: default_mcsr_def is_shadow_def mask_defs)
  then show "h_pc (boot_hart h a mode) = h_pc h" "h_mode (boot_hart h a mode) = mode"
  "xregs_read (h_xregs (boot_hart h a mode)) x11 = a"
  "xregs_read (h_xregs (boot_hart h a mode)) x10 = xregs_read (h_xregs h) x10"
  "csr_read (h_csrs (boot_hart h a mode)) (CSR_M Medeleg) = 0xB3FF"
  "csr_read (h_csrs (boot_hart h a mode)) (CSR_M Mideleg) = 0xAAA"
  "csr_wf (h_csrs h) \<Longrightarrow> csr_wf (h_csrs (boot_hart h a mode))"
    by (simp_all add: boot_hart_def Let_def csr_read_write is_shadow_def csr_wf_write)
qed

section \<open>Reachable states\<close>

lemma bus_wf_write_all: "bus_wf b \<Longrightarrow> bus_write_all b a bs = Some b' \<Longrightarrow> bus_wf b'"
  by (auto simp: bus_write_all_def mem_write_all_def devices_write_all_def Let_def bus_wf_def
      split: prod.splits AddressSpace.splits if_splits option.splits)

lemma bus_wf_write_segments: "bus_wf b \<Longrightarrow> bus_wf (snd (write_segments b segs))"
  by (induction b segs rule: write_segments.induct) (auto dest: bus_wf_write_all split: option.split)

lemma bus_wf_write_initrd:
  "bus_wf b \<Longrightarrow> write_initrd b ia initrd = Some (b', da, opt) \<Longrightarrow> bus_wf b'"
  by (auto simp: write_initrd_def dest: bus_wf_write_all split: option.splits)

lemma machine_wf_setup_boot:
  assumes "machine_wf m"
  shows "machine_wf (snd (setup_boot fdt m p initrd mode))"
proof -
  have cs: "csr_wf (h_csrs (ms_hart m))" and b: "bus_wf (ms_bus m)"
    using assms by (simp_all add: machine_wf_def)
  obtain ok b1 where w: "write_segments (ms_bus m) (prog_segments p) = (ok, b1)" by fastforce
  then have b1: "bus_wf b1" using bus_wf_write_segments [OF b, of "prog_segments p"] by simp
  let ?ia = "initrd_address (mem_BYTES (bus_memory b1)) (prog_segments p)"
  have h: "csr_wf (h_csrs (boot_hart (ms_hart m\<lparr>h_pc := a, h_xregs := xs\<rparr>) c mode))" for a xs c
    using cs by (simp add: boot_hart_regs)
  show ?thesis
  proof (cases "write_initrd b1 ?ia initrd")
    case None
    with w b1 cs show ?thesis by (cases ok) (simp_all add: setup_boot_def machine_wf_def Let_def)
  next
    case (Some r)
    obtain b2 da opt where r: "r = (b2, da, opt)" by (metis prod_cases3)
    have "bus_wf b2" using bus_wf_write_initrd [OF b1] Some r by blast
    with w b1 cs h Some r bus_wf_write_all [of b2 da] show ?thesis
      by (cases ok) (auto simp: setup_boot_def machine_wf_def Let_def split: sum.split option.split)
  qed
qed

text \<open>
  The states that a client reaches with the public operations of a machine: a reset, booting a
  program, successful or not, steps, and calls that the POSIX environment handles.
\<close>

inductive reachable :: "twiddle \<Rightarrow> 'f fdt_writer \<Rightarrow> machine_state \<Rightarrow> bool" for tw fdt where
  reset: "bus_wf (ms_bus m) \<Longrightarrow> reachable tw fdt (machine_reset m)"
| boot: "reachable tw fdt m \<Longrightarrow> setup_boot fdt m p initrd mode = (r, m') \<Longrightarrow> reachable tw fdt m'"
| step: "reachable tw fdt m \<Longrightarrow> RV_Machine.step tw m = (res, m') \<Longrightarrow> reachable tw fdt m'"
| call: "reachable tw fdt m \<Longrightarrow> posix_handle_call tw s m e = (oc, s', m') \<Longrightarrow> reachable tw fdt m'"

section \<open>Properties\<close>

text \<open>
  C2: in every state that is reachable from a reset by booting programs, stepping and handling
  environment calls, each CSR holds a value that its rules accept and the memory lies in the
  address space.
\<close>

theorem reachable_wf:
  assumes "reachable tw fdt m"
  shows "machine_wf m"
  using assms
proof induction
  case (reset m)
  then show ?case by (rule machine_wf_reset)
next
  case (boot m p initrd mode r m')
  then show ?case using machine_wf_setup_boot [of m fdt p initrd mode] by simp
next
  case (step m res m')
  then show ?case using machine_wf_step [of m tw] by simp
next
  case (call m s e oc s' m')
  then show ?case by (blast intro: posix_handle_wf)
qed

definition sample_fdt :: "unit fdt_writer" where
  "sample_fdt calls = Inr [0xD0, 0x0D]"

theorem reachable_wf_witness:
  "reachable twiddle_words sample_fdt (snd (RV_Machine.step twiddle_words (machine_reset example_machine))) \<and>
   machine_wf (snd (RV_Machine.step twiddle_words (machine_reset example_machine)))"
proof -
  have "reachable twiddle_words sample_fdt (machine_reset example_machine)"
    by (rule reachable.reset) (simp add: example_machine_simps example_bus_wf)
  then have "reachable twiddle_words sample_fdt
      (snd (RV_Machine.step twiddle_words (machine_reset example_machine)))"
    by (rule reachable.step) (rule surjective_pairing)
  with reachable_wf [OF this] show ?thesis by simp
qed

text \<open>The device tree of a boot, its place and what it announces.\<close>

lemma boot_device_tree:
  assumes "generate fdt (mem_BYTES (bus_memory (ms_bus m))) (boot_ramdisk m p initrd) = Inr dtb"
  obtains calls where "fdt calls = Inr dtb"
    "fdt_announces calls (word_of_nat (mem_BYTES (bus_memory (ms_bus m))))
       (map_option (\<lambda>_. (boot_initrd m p, boot_dtb m p initrd)) initrd)"
proof -
  let ?bytes = "mem_BYTES (bus_memory (ms_bus m))"
  let ?calls = "generate_custom_calls (start_of_main_memory ?bytes) (word_of_nat ?bytes) (boot_ramdisk m p initrd)"
  have "map_option (\<lambda>rd. (rd_start rd, rd_start rd + rd_length rd)) (boot_ramdisk m p initrd) =
      map_option (\<lambda>_. (boot_initrd m p, boot_dtb m p initrd)) initrd"
    by (cases initrd) (simp_all add: boot_ramdisk_def boot_dtb_def initrd_bytes_def)
  with generate_announces [of ?bytes "word_of_nat ?bytes" "boot_ramdisk m p initrd"]
  have "fdt_announces ?calls (word_of_nat ?bytes)
      (map_option (\<lambda>_. (boot_initrd m p, boot_dtb m p initrd)) initrd)" by simp
  then show thesis
    using assms by (intro that [of ?calls]) (simp_all add: generate_def generate_custom_def)
qed

text \<open>
  C27: a boot that succeeds leaves the program in the memory byte for byte, the initial ramdisk
  directly behind the end of its last segment and the device tree directly behind that, without
  overlap. The device tree announces the memory and, exactly if there is a ramdisk, the range in
  which it lies. The hart is at the entry point in the given mode with zero in \<open>a0\<close>, the address of
  the device tree in \<open>a1\<close> and all traps that can be delegated delegated.
\<close>

theorem boot_loads_program:
  assumes "bus_wf (ms_bus m)" "segs_wf (prog_segments p)" "boot_sizes_ok fdt p initrd"
    and "setup_boot fdt m p initrd mode = (Inr (), m')"
    and "a1' = xregs_read (h_xregs (ms_hart m')) x11"
  shows "\<exists>rd calls dtb. program_end (prog_segments p) rd \<and>
    unat a1' = unat rd + length (initrd_bytes initrd) \<and> fdt calls = Inr dtb \<and>
    fdt_announces calls (word_of_nat (mem_BYTES (bus_memory (ms_bus m)))) (map_option (\<lambda>_. (rd, a1')) initrd) \<and>
    (\<forall>x y. image_at (prog_segments p) x = Some y \<longrightarrow> bus_read (ms_bus m') (word_of_nat x) = Some y) \<and>
    (\<forall>k < length (initrd_bytes initrd).
       bus_read (ms_bus m') (rd + word_of_nat k) = Some (initrd_bytes initrd ! k)) \<and>
    (\<forall>k < length dtb. bus_read (ms_bus m') (a1' + word_of_nat k) = Some (dtb ! k)) \<and>
    h_pc (ms_hart m') = entrypoint p \<and> h_mode (ms_hart m') = mode \<and>
    xregs_read (h_xregs (ms_hart m')) x10 = 0 \<and>
    csr_read (h_csrs (ms_hart m')) (CSR_M Medeleg) = 0xB3FF \<and>
    csr_read (h_csrs (ms_hart m')) (CSR_M Mideleg) = 0xAAA"
proof (rule boot_memory [OF assms(1-4)], goal_cases)
  case (1 dtb)
  have a1': "a1' = boot_dtb m p initrd"
    by (simp add: assms(5) 1(8) boot_hart_regs)
  obtain calls where "fdt calls = Inr dtb"
    "fdt_announces calls (word_of_nat (mem_BYTES (bus_memory (ms_bus m))))
       (map_option (\<lambda>_. (boot_initrd m p, boot_dtb m p initrd)) initrd)"
    using boot_device_tree [OF 1(1)] .
  moreover have "program_end (prog_segments p) (boot_initrd m p)"
    unfolding boot_initrd_def using assms(2) by (rule program_end_initrd)
  moreover have "h_pc (ms_hart m') = entrypoint p" "h_mode (ms_hart m') = mode"
    "xregs_read (h_xregs (ms_hart m')) x10 = 0"
    "csr_read (h_csrs (ms_hart m')) (CSR_M Medeleg) = 0xB3FF"
    "csr_read (h_csrs (ms_hart m')) (CSR_M Mideleg) = 0xAAA"
    by (simp_all add: 1(8) boot_hart_regs)
  ultimately show ?case
    unfolding a1' using 1(4-7) by blast
qed

definition sample_program :: program where
  "sample_program = \<lparr>entrypoint = 0x80000000, prog_segments = [(0x80000000, [5, 6]), (0x80000002, [0, 0])]\<rparr>"

lemma sample_boot: "fst (setup_boot sample_fdt example_machine sample_program (Some [9]) Supervisor) = Inr ()"
  by (simp add: setup_boot_def sample_program_def write_initrd_def initrd_address_def bus_write_all_u8
      example_machine_simps example_bus_wf example_bus_in_memory generate_def generate_custom_def
      sample_fdt_def Let_def)

theorem boot_loads_program_witness:
  "\<exists>m'. setup_boot sample_fdt example_machine sample_program (Some [9]) Supervisor = (Inr (), m') \<and>
     bus_read (ms_bus m') 0x80000001 = Some (6 :: u8) \<and> h_pc (ms_hart m') = 0x80000000"
proof -
  obtain m' where b: "setup_boot sample_fdt example_machine sample_program (Some [9]) Supervisor = (Inr (), m')"
    using sample_boot by (metis prod.collapse)
  have wf: "bus_wf (ms_bus example_machine)" "segs_wf (prog_segments sample_program)"
    "boot_sizes_ok sample_fdt sample_program (Some [9])"
    by (simp_all add: example_machine_simps example_bus_wf sample_program_def segs_wf_def
        boot_sizes_ok_def initrd_bytes_def sample_fdt_def)
  have img: "image_at (prog_segments sample_program) 0x80000001 = Some 6"
    by (simp add: image_at_def covers_def sample_program_def)
  from boot_loads_program [OF wf b refl]
  have "\<forall>x y. image_at (prog_segments sample_program) x = Some y \<longrightarrow>
      bus_read (ms_bus m') (word_of_nat x) = Some y"
    and "h_pc (ms_hart m') = entrypoint sample_program"
    by blast+
  with b spec [OF spec [OF this(1)], of "0x80000001" 6] img show ?thesis
    by (simp add: sample_program_def)
qed

end
