(* ===== verification/RV_Encoding.thy ===== *)
theory RV_Encoding
  imports RV_Parser
begin

text \<open>
  The instruction formats of the ISA manual as an encoder, and the parser as its inverse.
  First the bits of each field and immediate that the parser extracts; then the encoder, which
  assembles the fields of a format from the lowest bit upwards; then the round trip.
\<close>

unbundle bit_operations_syntax

section \<open>Bits of the extracted fields\<close>

lemma bit_instr_bits:
  assumes "0 < n" "n \<le> 32" "pos < 32"
  shows "bit (instr_bits w pos n) k \<longleftrightarrow> k < n \<and> bit w (pos + k)"
  using assms by (auto simp: instr_bits_def shr_def bit_simps dest: bit_imp_le_length)

lemma instr_bit_iff: "pos < 32 \<Longrightarrow> instr_bit w pos \<longleftrightarrow> bit w pos"
  by (simp add: instr_bit_def shl_def bit_iff_and_push_bit_not_eq_0)

definition fmask :: "nat \<Rightarrow> nat \<Rightarrow> u32" where
  "fmask p n = push_bit p (mask n)"

lemma bit_fmask [simp]: "bit (fmask p n) k \<longleftrightarrow> k < 32 \<and> p \<le> k \<and> k < p + n"
  by (auto simp: fmask_def bit_simps)

lemma field_masks:
  "0xFFF00000 = fmask 20 12" "0xFE000000 = fmask 25 7" "0x00000F80 = fmask 7 5"
  "0x80000000 = fmask 31 1" "0x00000080 = fmask 7 1" "0x7E000000 = fmask 25 6"
  "0x00000F00 = fmask 8 4" "0xFFFFF000 = fmask 12 20" "0x000FF000 = fmask 12 8"
  "0x00100000 = fmask 20 1" "0x7FE00000 = fmask 21 10"
  by (simp_all add: fmask_def mask_eq_exp_minus_1)

lemmas imm_bit_simps = sar_def shl_def bit_signed_iff bit_signed_drop_bit_iff bit_and_iff bit_or_iff
  bit_push_bit_iff

lemma bit_i_imm:
  "bit (i_imm w) k \<longleftrightarrow> k < 64 \<and> bit w (if k < 11 then 20 + k else 31)"
  unfolding i_imm_def field_masks by (cases "k = 11") (auto simp: imm_bit_simps min_def)

lemma bit_s_imm:
  "bit (s_imm w) k \<longleftrightarrow>
     k < 64 \<and> bit w (if k < 5 then 7 + k else if k < 11 then 20 + k else 31)"
  unfolding s_imm_def field_masks Let_def
  by (cases "k = 11") (auto simp: imm_bit_simps min_def)

lemma bit_b_imm:
  "bit (b_imm w) k \<longleftrightarrow>
     k < 64 \<and> k \<noteq> 0 \<and>
     bit w (if k < 5 then 7 + k else if k < 11 then 20 + k else if k = 11 then 7 else 31)"
  unfolding b_imm_def field_masks Let_def
  by (cases "k = 11"; cases "k = 12") (auto simp: imm_bit_simps min_def)

lemma bit_u_imm:
  "bit (u_imm w) k \<longleftrightarrow> k < 64 \<and> 12 \<le> k \<and> bit w (if k < 31 then k else 31)"
  unfolding u_imm_def field_masks by (auto simp: imm_bit_simps min_def)

lemma bit_j_imm:
  "bit (j_imm w) k \<longleftrightarrow>
     k < 64 \<and> k \<noteq> 0 \<and>
     bit w (if k < 11 then 20 + k else if k = 11 then 20 else if k < 20 then k else 31)"
  unfolding j_imm_def field_masks Let_def
  by (cases "k = 11"; cases "k = 20") (auto simp: imm_bit_simps min_def)

section \<open>Assembling fields\<close>

text \<open>Fields with their widths, from the lowest bit upwards.\<close>

fun assemble :: "(u32 \<times> nat) list \<Rightarrow> u32" where
  "assemble [] = 0"
| "assemble ((v, n) # fs) = take_bit n v OR push_bit n (assemble fs)"

lemma bit_assemble_Cons:
  "k < 32 \<Longrightarrow> bit (assemble ((v, n) # fs)) k = (if k < n then bit v k else bit (assemble fs) (k - n))"
  by (auto simp: bit_simps)

lemma instr_bits_skip:
  "n \<le> p \<Longrightarrow> 0 < m \<Longrightarrow> p + m \<le> 32 \<Longrightarrow>
     instr_bits (assemble ((v, n) # fs)) p m = instr_bits (assemble fs) (p - n) m"
  by (intro bit_word_eqI) (auto simp: bit_instr_bits bit_assemble_Cons simp del: assemble.simps)

lemma instr_bits_here:
  "p + m \<le> n \<Longrightarrow> 0 < m \<Longrightarrow> p + m \<le> 32 \<Longrightarrow>
     instr_bits (assemble ((v, n) # fs)) p m = take_bit m (drop_bit p v)"
  by (intro bit_word_eqI)
     (auto simp: bit_instr_bits bit_assemble_Cons bit_simps simp del: assemble.simps)

lemmas enc_fields = opcode_def funct3_def funct7_def rs1_bits_def rs2_bits_def imm_11_6_def fm_def
  instr_csr_def instr_rd_def instr_rs1_def instr_rs2_def instr_bits_skip instr_bits_here

text \<open>Register numbers.\<close>

definition reg_code :: "XRegister \<Rightarrow> u32" where
  "reg_code r = (if r = x0 then 0 else word_of_nat (Suc (xreg_index r)))"

lemma unat_reg_code: "unat (reg_code r) = (if r = x0 then 0 else Suc (xreg_index r))"
  using xreg_index_bound [of r] by (auto simp: reg_code_def unat_word_of_nat simp del: of_nat_Suc)

lemma parse_reg_code [simp]: "parse_xregister (reg_code r) = Some r"
  using xreg_index_bound [of r] XRegister_list_index [of r]
  by (auto simp: parse_xregister_def unat_reg_code XRegister_list_def)

lemma take_bit_reg_code [simp]: "take_bit 5 (reg_code r) = reg_code r"
proof -
  have "unat (reg_code r) < 2 ^ 5"
    using xreg_index_bound [of r] by (auto simp: unat_reg_code)
  then show ?thesis
    by (simp add: word_unat_eq_iff unsigned_take_bit_eq take_bit_nat_eq_self)
qed

definition csr_code :: "CSRegister \<Rightarrow> u32" where
  "csr_code r = word_of_nat (csr_addr r)"

lemma take_bit_csr_code [simp]: "take_bit 12 (csr_code r) = csr_code r"
proof -
  have "unat (csr_code r) < 2 ^ 12"
    using csr_addr_bound [of r] by (simp add: csr_code_def unat_word_of_nat)
  then show ?thesis
    by (simp add: word_unat_eq_iff unsigned_take_bit_eq take_bit_nat_eq_self)
qed

lemma parse_csr_code [simp]: "try_parse_csregister (csr_code r) = Some r"
  by (simp add: csr_code_def try_parse_csregister_addr)

section \<open>Immediates\<close>

text \<open>The value is the sign extension of its lowest \<open>n + 1\<close> bits.\<close>

definition fits :: "nat \<Rightarrow> i64 \<Rightarrow> bool" where
  "fits n imm \<longleftrightarrow> signed_take_bit n imm = imm"

lemma fits_bit:
  assumes "fits n imm" "n < k" "k < 64"
  shows "bit imm k = bit imm n"
proof -
  have "bit (signed_take_bit n imm) k = bit imm n"
    using assms(2,3) by (simp add: bit_signed_take_bit_iff min_def)
  then show ?thesis using assms(1) by (simp add: fits_def)
qed

definition enc_i :: "u32 \<Rightarrow> u32 \<Rightarrow> XRegister \<Rightarrow> XRegister \<Rightarrow> i64 \<Rightarrow> u32" where
  "enc_i op fn3 rd rs1 imm =
     assemble [(op, 7), (reg_code rd, 5), (fn3, 3), (reg_code rs1, 5), (ucast imm, 12)]"

definition enc_s :: "u32 \<Rightarrow> u32 \<Rightarrow> XRegister \<Rightarrow> XRegister \<Rightarrow> i64 \<Rightarrow> u32" where
  "enc_s op fn3 rs1 rs2 imm =
     assemble [(op, 7), (ucast imm, 5), (fn3, 3), (reg_code rs1, 5), (reg_code rs2, 5),
               (ucast (drop_bit 5 imm), 7)]"

definition enc_b :: "u32 \<Rightarrow> u32 \<Rightarrow> XRegister \<Rightarrow> XRegister \<Rightarrow> i64 \<Rightarrow> u32" where
  "enc_b op fn3 rs1 rs2 imm =
     assemble [(op, 7), (ucast (drop_bit 11 imm), 1), (ucast (drop_bit 1 imm), 4), (fn3, 3),
               (reg_code rs1, 5), (reg_code rs2, 5), (ucast (drop_bit 5 imm), 6),
               (ucast (drop_bit 12 imm), 1)]"

definition enc_u :: "u32 \<Rightarrow> XRegister \<Rightarrow> i64 \<Rightarrow> u32" where
  "enc_u op rd imm = assemble [(op, 7), (reg_code rd, 5), (ucast (drop_bit 12 imm), 20)]"

definition enc_j :: "u32 \<Rightarrow> XRegister \<Rightarrow> i64 \<Rightarrow> u32" where
  "enc_j op rd imm =
     assemble [(op, 7), (reg_code rd, 5), (ucast (drop_bit 12 imm), 8), (ucast (drop_bit 11 imm), 1),
               (ucast (drop_bit 1 imm), 10), (ucast (drop_bit 20 imm), 1)]"

definition enc_r :: "u32 \<Rightarrow> u32 \<Rightarrow> u32 \<Rightarrow> XRegister \<Rightarrow> XRegister \<Rightarrow> XRegister \<Rightarrow> u32" where
  "enc_r op fn3 fn7 rd rs1 rs2 =
     assemble [(op, 7), (reg_code rd, 5), (fn3, 3), (reg_code rs1, 5), (reg_code rs2, 5), (fn7, 7)]"

lemmas assembled_bits = bit_assemble_Cons bit_unsigned_iff bit_drop_bit_eq o_def less_diff_conv2

lemma i_imm_enc:
  assumes "fits 11 imm"
  shows "i_imm (enc_i op fn3 rd rs1 imm) = imm"
proof (rule bit_word_eqI)
  fix k assume "k < LENGTH(64)"
  then show "bit (i_imm (enc_i op fn3 rd rs1 imm)) k = bit imm k"
    using fits_bit [OF assms, of k] unfolding enc_i_def bit_i_imm
    by (cases "k < 11"; cases "k = 11") (simp_all add: assembled_bits del: assemble.simps)
qed

lemma s_imm_enc:
  assumes "fits 11 imm"
  shows "s_imm (enc_s op fn3 rs1 rs2 imm) = imm"
proof (rule bit_word_eqI)
  fix k assume "k < LENGTH(64)"
  then show "bit (s_imm (enc_s op fn3 rs1 rs2 imm)) k = bit imm k"
    using fits_bit [OF assms, of k] unfolding enc_s_def bit_s_imm
    by (cases "k < 5"; cases "k < 11"; cases "k = 11")
       (simp_all add: assembled_bits del: assemble.simps)
qed

lemma b_imm_enc:
  assumes "fits 12 imm" "\<not> bit imm 0"
  shows "b_imm (enc_b op fn3 rs1 rs2 imm) = imm"
proof (rule bit_word_eqI)
  fix k assume "k < LENGTH(64)"
  then show "bit (b_imm (enc_b op fn3 rs1 rs2 imm)) k = bit imm k"
    using fits_bit [OF assms(1), of k] assms(2) unfolding enc_b_def bit_b_imm
    by (cases "k = 0"; cases "k < 5"; cases "k < 11"; cases "k = 11"; cases "k = 12")
       (simp_all add: assembled_bits del: assemble.simps)
qed

lemma take_bit_0_bit: "take_bit n (w :: u64) = 0 \<Longrightarrow> k < n \<Longrightarrow> \<not> bit w k"
  by (metis bit_0_eq bit_take_bit_iff bot_apply bot_bool_def)

lemma u_imm_enc:
  assumes "fits 31 imm" "take_bit 12 imm = 0"
  shows "u_imm (enc_u op rd imm) = imm"
proof (rule bit_word_eqI)
  fix k assume "k < LENGTH(64)"
  then show "bit (u_imm (enc_u op rd imm)) k = bit imm k"
    using fits_bit [OF assms(1), of k] take_bit_0_bit [OF assms(2), of k]
    unfolding enc_u_def bit_u_imm
    by (cases "k < 12"; cases "k < 31"; cases "k = 31")
       (simp_all add: assembled_bits del: assemble.simps)
qed

lemma j_imm_enc:
  assumes "fits 20 imm" "\<not> bit imm 0"
  shows "j_imm (enc_j op rd imm) = imm"
proof (rule bit_word_eqI)
  fix k assume "k < LENGTH(64)"
  then show "bit (j_imm (enc_j op rd imm)) k = bit imm k"
    using fits_bit [OF assms(1), of k] assms(2) unfolding enc_j_def bit_j_imm
    by (cases "k = 0"; cases "k < 11"; cases "k = 11"; cases "k < 20"; cases "k = 20")
       (simp_all add: assembled_bits del: assemble.simps)
qed

section \<open>The encoder\<close>

text \<open>Opcode, funct3 and funct7 of each operation.\<close>

fun r_code :: "r_op \<Rightarrow> u32 \<times> u32 \<times> u32" where
  "r_code Add = (0x33, 0, 0)" | "r_code Sub = (0x33, 0, 0x20)" | "r_code Sll = (0x33, 1, 0)"
| "r_code Slt = (0x33, 2, 0)" | "r_code Sltu = (0x33, 3, 0)" | "r_code Xor = (0x33, 4, 0)"
| "r_code Srl = (0x33, 5, 0)" | "r_code Sra = (0x33, 5, 0x20)" | "r_code Or = (0x33, 6, 0)"
| "r_code And = (0x33, 7, 0)" | "r_code Rem = (0x33, 6, 1)" | "r_code Remu = (0x33, 7, 1)"
| "r_code Addw = (0x3B, 0, 0)" | "r_code Subw = (0x3B, 0, 0x20)" | "r_code Sllw = (0x3B, 1, 0)"
| "r_code Srlw = (0x3B, 5, 0)" | "r_code Sraw = (0x3B, 5, 0x20)" | "r_code Remw = (0x3B, 6, 1)"
| "r_code Remuw = (0x3B, 7, 1)"

fun i_code :: "i_op \<Rightarrow> u32 \<times> u32" where
  "i_code Addi = (0x13, 0)" | "i_code Slli = (0x13, 1)" | "i_code Slti = (0x13, 2)"
| "i_code Sltiu = (0x13, 3)" | "i_code Xori = (0x13, 4)" | "i_code Srli = (0x13, 5)"
| "i_code Srai = (0x13, 5)" | "i_code Ori = (0x13, 6)" | "i_code Andi = (0x13, 7)"
| "i_code Addiw = (0x1B, 0)" | "i_code Slliw = (0x1B, 1)" | "i_code Srliw = (0x1B, 5)"
| "i_code Sraiw = (0x1B, 5)"

fun load_code :: "load_op \<Rightarrow> u32" where
  "load_code Lb = 0" | "load_code Lh = 1" | "load_code Lw = 2" | "load_code Ld = 3"
| "load_code Lbu = 4" | "load_code Lhu = 5" | "load_code Lwu = 6"

fun store_code :: "store_op \<Rightarrow> u32" where
  "store_code Sb = 0" | "store_code Sh = 1" | "store_code Sw = 2" | "store_code Sd = 3"

fun branch_code :: "branch_op \<Rightarrow> u32" where
  "branch_code Beq = 0" | "branch_code Bne = 1" | "branch_code Blt = 4" | "branch_code Bge = 5"
| "branch_code Bltu = 6" | "branch_code Bgeu = 7"

fun csr_op_code :: "csr_op \<Rightarrow> u32" where
  "csr_op_code Csrrw = 1" | "csr_op_code Csrrs = 2" | "csr_op_code Csrrc = 3"

fun csri_op_code :: "csri_op \<Rightarrow> u32" where
  "csri_op_code Csrrwi = 5" | "csri_op_code Csrrsi = 6" | "csri_op_code Csrrci = 7"

definition enc_fence :: "u32 \<Rightarrow> FenceArgs \<Rightarrow> u32" where
  "enc_fence m a =
     assemble [(0x0F, 7), (0, 5), (0, 3), (0, 5),
       (of_bool (fence_w (fence_succ a)), 1), (of_bool (fence_r (fence_succ a)), 1),
       (of_bool (fence_o (fence_succ a)), 1), (of_bool (fence_i (fence_succ a)), 1),
       (of_bool (fence_w (fence_pred a)), 1), (of_bool (fence_r (fence_pred a)), 1),
       (of_bool (fence_o (fence_pred a)), 1), (of_bool (fence_i (fence_pred a)), 1), (m, 4)]"

definition enc_sys :: "u32 \<Rightarrow> u32 \<Rightarrow> u32" where
  "enc_sys rs2 fn7 = assemble [(0x73, 7), (0, 5), (0, 3), (0, 5), (rs2, 5), (fn7, 7)]"

fun encode :: "Instr \<Rightarrow> u32" where
  "encode (RType v a) =
     (case r_code v of (op, fn3, fn7) \<Rightarrow> enc_r op fn3 fn7 (r_rd a) (r_rs1 a) (r_rs2 a))"
| "encode (IType v a) = (case i_code v of (op, fn3) \<Rightarrow> enc_i op fn3 (i_rd a) (i_rs1 a) (i_imm_arg a))"
| "encode (Load v a) = enc_i 0x03 (load_code v) (i_rd a) (i_rs1 a) (i_imm_arg a)"
| "encode (Fence a) = enc_fence 0 a"
| "encode (FenceTso a) = enc_fence 8 a"
| "encode Ecall = enc_sys 0 0"
| "encode Ebreak = enc_sys 1 0"
| "encode (Store v a) = enc_s 0x23 (store_code v) (sb_rs1 a) (sb_rs2 a) (sb_imm a)"
| "encode (Branch v a) = enc_b 0x63 (branch_code v) (sb_rs1 a) (sb_rs2 a) (sb_imm a)"
| "encode (Lui a) = enc_u 0x37 (uj_rd a) (uj_imm a)"
| "encode (Auipc a) = enc_u 0x17 (uj_rd a) (uj_imm a)"
| "encode (Jal a) = enc_j 0x6F (uj_rd a) (uj_imm a)"
| "encode (Jalr a) = enc_i 0x67 0 (i_rd a) (i_rs1 a) (i_imm_arg a)"
| "encode (Csr v a) =
     assemble [(0x73, 7), (reg_code (csr_rd a), 5), (csr_op_code v, 3), (reg_code (csr_rs1 a), 5),
               (csr_code (csr_csr a), 12)]"
| "encode (Csri v a) =
     assemble [(0x73, 7), (reg_code (csri_rd a), 5), (csri_op_code v, 3), (ucast (csri_imm a), 5),
               (csr_code (csri_csr a), 12)]"
| "encode FenceI = assemble [(0x0F, 7), (0, 5), (1, 3), (0, 17)]"
| "encode Mret = enc_sys 2 0x18"
| "encode Sret = enc_sys 2 0x08"
| "encode Mnret = enc_sys 2 0x38"
| "encode Wfi = enc_sys 5 0x08"
| "encode (Unknown w) = w"
| "encode (UnknownCompressed w) = ucast w"

text \<open>
  The instructions with an encoding: the immediate fits its field, a jump offset is even, the
  upper immediates have no low bits, and a shift immediate is the shift amount in the lowest
  6 bits together with the function bits above them.
\<close>

fun shift_function :: "i_op \<Rightarrow> u64 option" where
  "shift_function Slli = Some 0" | "shift_function Srli = Some 0" | "shift_function Srai = Some 16"
| "shift_function Slliw = Some 0" | "shift_function Srliw = Some 0"
| "shift_function Sraiw = Some 16"
| "shift_function _ = None"

fun encodable :: "Instr \<Rightarrow> bool" where
  "encodable (RType v a) = True"
| "encodable (IType v a) =
     (fits 11 (i_imm_arg a) \<and>
      (case shift_function v of None \<Rightarrow> True | Some f \<Rightarrow> drop_bit 6 (i_imm_arg a) = f))"
| "encodable (Load v a) = fits 11 (i_imm_arg a)"
| "encodable (Store v a) = fits 11 (sb_imm a)"
| "encodable (Branch v a) = (fits 12 (sb_imm a) \<and> \<not> bit (sb_imm a) 0)"
| "encodable (Lui a) = (fits 31 (uj_imm a) \<and> take_bit 12 (uj_imm a) = 0)"
| "encodable (Auipc a) = (fits 31 (uj_imm a) \<and> take_bit 12 (uj_imm a) = 0)"
| "encodable (Jal a) = (fits 20 (uj_imm a) \<and> \<not> bit (uj_imm a) 0)"
| "encodable (Jalr a) = fits 11 (i_imm_arg a)"
| "encodable (Csri v a) = (take_bit 5 (csri_imm a) = csri_imm a)"
| "encodable (Unknown w) = False"
| "encodable (UnknownCompressed w) = False"
| "encodable _ = True"

section \<open>The round trip\<close>

lemmas op_defs = OP_ARITH_def OP_ARITH_W_def OP_ARITH_I_def OP_LOAD_def OP_ARITH_IW_def OP_SYNCH_def
  OP_SYS_def OP_STORE_def OP_BRANCH_def OP_LUI_def OP_AUIPC_def OP_JAL_def OP_JALR_def

lemma enc_r_fields:
  "opcode (enc_r op fn3 fn7 a b c) = take_bit 7 op" "funct3 (enc_r op fn3 fn7 a b c) = take_bit 3 fn3"
  "funct7 (enc_r op fn3 fn7 a b c) = take_bit 7 fn7" "instr_rd (enc_r op fn3 fn7 a b c) = a"
  "instr_rs1 (enc_r op fn3 fn7 a b c) = b" "instr_rs2 (enc_r op fn3 fn7 a b c) = c"
  by (simp_all add: enc_r_def enc_fields del: assemble.simps)

lemma enc_i_fields:
  "opcode (enc_i op fn3 a b imm) = take_bit 7 op" "funct3 (enc_i op fn3 a b imm) = take_bit 3 fn3"
  "instr_rd (enc_i op fn3 a b imm) = a" "instr_rs1 (enc_i op fn3 a b imm) = b"
  "imm_11_6 (enc_i op fn3 a b imm) = shl (take_bit 6 (drop_bit 6 (ucast imm))) 1"
  by (simp_all add: enc_i_def enc_fields del: assemble.simps)

lemma enc_s_fields:
  "opcode (enc_s op fn3 a b imm) = take_bit 7 op" "funct3 (enc_s op fn3 a b imm) = take_bit 3 fn3"
  "instr_rs1 (enc_s op fn3 a b imm) = a" "instr_rs2 (enc_s op fn3 a b imm) = b"
  by (simp_all add: enc_s_def enc_fields del: assemble.simps)

lemma enc_b_fields:
  "opcode (enc_b op fn3 a b imm) = take_bit 7 op" "funct3 (enc_b op fn3 a b imm) = take_bit 3 fn3"
  "instr_rs1 (enc_b op fn3 a b imm) = a" "instr_rs2 (enc_b op fn3 a b imm) = b"
  by (simp_all add: enc_b_def enc_fields del: assemble.simps)

lemma enc_u_fields:
  "opcode (enc_u op a imm) = take_bit 7 op" "instr_rd (enc_u op a imm) = a"
  by (simp_all add: enc_u_def enc_fields del: assemble.simps)

lemma enc_j_fields:
  "opcode (enc_j op a imm) = take_bit 7 op" "instr_rd (enc_j op a imm) = a"
  by (simp_all add: enc_j_def enc_fields del: assemble.simps)

lemma enc_sys_fields:
  "opcode (enc_sys b fn7) = 0x73" "funct3 (enc_sys b fn7) = 0" "rs1_bits (enc_sys b fn7) = 0"
  "rs2_bits (enc_sys b fn7) = take_bit 5 b" "funct7 (enc_sys b fn7) = take_bit 7 fn7"
  by (simp_all add: enc_sys_def enc_fields del: assemble.simps)

lemma parse_encode_r:
  "parse_uncompressed_instruction (encode (RType v a)) = RType v a"
  by (cases v)
     (simp_all add: parse_uncompressed_instruction_def parse_arith_def parse_arith_w_def r_instr_def
       enc_r_fields op_defs Let_def)

lemma shift_function_imm:
  "drop_bit 6 (imm :: u64) = 0 \<Longrightarrow> take_bit 6 (drop_bit 6 (ucast imm :: u32)) = 0"
  "drop_bit 6 (imm :: u64) = 16 \<Longrightarrow> take_bit 6 (drop_bit 6 (ucast imm :: u32)) = 16"
proof -
  have eq: "take_bit 6 (drop_bit 6 (ucast imm :: u32)) = ucast (take_bit 6 (drop_bit 6 imm))"
    by (rule bit_word_eqI) (auto simp: bit_simps)
  show "drop_bit 6 imm = 0 \<Longrightarrow> take_bit 6 (drop_bit 6 (ucast imm :: u32)) = 0"
    by (simp only: eq) simp
  show "drop_bit 6 imm = 16 \<Longrightarrow> take_bit 6 (drop_bit 6 (ucast imm :: u32)) = 16"
    by (simp only: eq) simp
qed

lemma parse_encode_i:
  assumes "encodable (IType v a)"
  shows "parse_uncompressed_instruction (encode (IType v a)) = IType v a"
  using assms
  by (cases v)
     (simp_all add: parse_uncompressed_instruction_def parse_arith_i_def parse_arith_iw_def
       i_args_def enc_i_fields i_imm_enc op_defs Let_def shift_function_imm shl_def)

lemma parse_encode_load:
  "encodable (Load v a) \<Longrightarrow> parse_uncompressed_instruction (encode (Load v a)) = Load v a"
  by (cases v)
     (simp_all add: parse_uncompressed_instruction_def parse_load_def i_args_def enc_i_fields
       i_imm_enc op_defs Let_def)

lemma parse_encode_store:
  "encodable (Store v a) \<Longrightarrow> parse_uncompressed_instruction (encode (Store v a)) = Store v a"
  by (cases v)
     (simp_all add: parse_uncompressed_instruction_def parse_store_def s_instr_def enc_s_fields
       s_imm_enc op_defs Let_def)

lemma parse_encode_branch:
  "encodable (Branch v a) \<Longrightarrow> parse_uncompressed_instruction (encode (Branch v a)) = Branch v a"
  by (cases v)
     (simp_all add: parse_uncompressed_instruction_def parse_branch_def b_instr_def enc_b_fields
       b_imm_enc op_defs Let_def)

lemma parse_encode_csr:
  "parse_uncompressed_instruction (encode (Csr v a)) = Csr v a"
  by (cases v)
     (simp_all add: parse_uncompressed_instruction_def parse_sys_def csr_instr_def enc_fields
       op_defs Let_def del: assemble.simps)

lemma csri_imm_cast:
  assumes "take_bit 5 (imm :: u64) = imm"
  shows "ucast (take_bit 5 (ucast imm :: u32)) = imm"
proof -
  have "ucast (take_bit 5 (ucast imm :: u32)) = take_bit 5 imm"
    by (rule bit_word_eqI) (auto simp: bit_simps)
  with assms show ?thesis by simp
qed

lemma parse_encode_csri:
  "encodable (Csri v a) \<Longrightarrow> parse_uncompressed_instruction (encode (Csri v a)) = Csri v a"
  by (cases v)
     (simp_all add: parse_uncompressed_instruction_def parse_sys_def csri_instr_def enc_fields
       op_defs Let_def csri_imm_cast del: assemble.simps)

lemma bit_enc_fence:
  "instr_bit (enc_fence m a) 20 = fence_w (fence_succ a)"
  "instr_bit (enc_fence m a) 21 = fence_r (fence_succ a)"
  "instr_bit (enc_fence m a) 22 = fence_o (fence_succ a)"
  "instr_bit (enc_fence m a) 23 = fence_i (fence_succ a)"
  "instr_bit (enc_fence m a) 24 = fence_w (fence_pred a)"
  "instr_bit (enc_fence m a) 25 = fence_r (fence_pred a)"
  "instr_bit (enc_fence m a) 26 = fence_o (fence_pred a)"
  "instr_bit (enc_fence m a) 27 = fence_i (fence_pred a)"
  by (simp_all add: enc_fence_def instr_bit_iff bit_assemble_Cons bit_of_bool_iff
      del: assemble.simps bit_0)

lemma enc_fence_fields:
  "opcode (enc_fence m a) = 0x0F" "funct3 (enc_fence m a) = 0" "fm (enc_fence m a) = take_bit 4 m"
  by (simp_all add: enc_fence_def enc_fields del: assemble.simps)

lemma parse_encode_fence:
  "parse_uncompressed_instruction (encode (Fence a)) = Fence a"
  "parse_uncompressed_instruction (encode (FenceTso a)) = FenceTso a"
  by (simp_all add: parse_uncompressed_instruction_def parse_synch_def fence_args_def bit_enc_fence
      enc_fence_fields op_defs Let_def)

lemma parse_encode_fence_i: "parse_uncompressed_instruction (encode FenceI) = FenceI"
  by (simp add: parse_uncompressed_instruction_def parse_synch_def op_defs Let_def enc_fields
      del: assemble.simps)

lemma parse_encode_sys:
  "parse_uncompressed_instruction (encode Ecall) = Ecall"
  "parse_uncompressed_instruction (encode Ebreak) = Ebreak"
  "parse_uncompressed_instruction (encode Mret) = Mret"
  "parse_uncompressed_instruction (encode Sret) = Sret"
  "parse_uncompressed_instruction (encode Mnret) = Mnret"
  "parse_uncompressed_instruction (encode Wfi) = Wfi"
  by (simp_all add: parse_uncompressed_instruction_def parse_sys_def enc_sys_fields op_defs Let_def)

lemma parse_encode_uj:
  "encodable (Lui u) \<Longrightarrow> parse_uncompressed_instruction (encode (Lui u)) = Lui u"
  "encodable (Auipc u) \<Longrightarrow> parse_uncompressed_instruction (encode (Auipc u)) = Auipc u"
  "encodable (Jal u) \<Longrightarrow> parse_uncompressed_instruction (encode (Jal u)) = Jal u"
  "encodable (Jalr a) \<Longrightarrow> parse_uncompressed_instruction (encode (Jalr a)) = Jalr a"
  by (simp_all add: parse_uncompressed_instruction_def u_args_def j_args_def i_args_def enc_u_fields
      enc_j_fields enc_i_fields u_imm_enc j_imm_enc i_imm_enc op_defs Let_def)

lemmas parse_encode_all = parse_encode_r parse_encode_i parse_encode_load parse_encode_store
  parse_encode_branch parse_encode_csr parse_encode_csri parse_encode_fence
  parse_encode_fence_i parse_encode_sys parse_encode_uj

lemma parse_encode_inverse: "encodable i \<Longrightarrow> parse_uncompressed_instruction (encode i) = i"
  by (cases i) (simp_all only: parse_encode_all encodable.simps(11,12))

section \<open>Properties\<close>

text \<open>
  C11: the parser is a left inverse of the encoding of the instruction formats: every instruction
  whose operands fit their fields parses back from its encoding.
\<close>

theorem parse_encode:
  assumes "encodable i"
  shows "parse_uncompressed_instruction (encode i) = i"
  using assms by (rule parse_encode_inverse)

theorem parse_encode_witness:
  "parse_uncompressed_instruction
     (encode (Branch Bltu \<lparr>sb_rs1 = x10, sb_rs2 = x11, sb_imm = - 4096\<rparr>)) =
   Branch Bltu \<lparr>sb_rs1 = x10, sb_rs2 = x11, sb_imm = - 4096\<rparr>"
  by (rule parse_encode) code_simp

text \<open>
  Each bit of the immediate of the five formats is the bit of the instruction that the format
  assigns to it, the sign bit extended upwards and the low bits of the branch, jump and upper
  formats zero.
\<close>

lemma immediate_bits:
  "(bit (i_imm w) k \<longleftrightarrow> k < 64 \<and> bit w (if k < 11 then 20 + k else 31)) \<and>
   (bit (s_imm w) k \<longleftrightarrow> k < 64 \<and> bit w (if k < 5 then 7 + k else if k < 11 then 20 + k else 31)) \<and>
   (bit (b_imm w) k \<longleftrightarrow> k < 64 \<and> k \<noteq> 0 \<and>
      bit w (if k < 5 then 7 + k else if k < 11 then 20 + k else if k = 11 then 7 else 31)) \<and>
   (bit (u_imm w) k \<longleftrightarrow> k < 64 \<and> 12 \<le> k \<and> bit w (if k < 31 then k else 31)) \<and>
   (bit (j_imm w) k \<longleftrightarrow> k < 64 \<and> k \<noteq> 0 \<and>
      bit w (if k < 11 then 20 + k else if k = 11 then 20 else if k < 20 then k else 31))"
  by (intro conjI bit_i_imm bit_s_imm bit_b_imm bit_u_imm bit_j_imm)

end
