(* ===== verification/SDK_Path.thy ===== *)
theory SDK_Path
  imports RV_Prelude
begin

text \<open>
  Storage paths of the kernel SDK (\<^verbatim>\<open>kernel_sdk/host/src/path.rs\<close>). A path is its sequence of bytes;
  \<open>RefPath\<close> and \<open>OwnedPath\<close> are bytes that have passed \<open>validate_path\<close> or come from \<open>concat\<close>. The
  validator is compared with the grammar that the documentation of the trait gives.
\<close>

section \<open>Validation\<close>

type_synonym bytes = "u8 list"

text \<open>A byte string of the source.\<close>

definition ascii :: "string \<Rightarrow> bytes" where
  "ascii s = map of_char s"

definition PATH_SEPARATOR :: u8 where
  "PATH_SEPARATOR = 47"

text \<open>The length of \<open>/durable\<close> is taken off the limit of the host.\<close>

definition DURABLE_STORAGE_PREFIX_INNER :: bytes where
  "DURABLE_STORAGE_PREFIX_INNER = ascii ''/durable''"

definition PATH_MAX_SIZE :: nat where
  "PATH_MAX_SIZE = 250 - length DURABLE_STORAGE_PREFIX_INNER"

datatype PathError =
    PathEmpty
  | PathTooLong
  | InvalidStart
  | InvalidEmptyStep
  | InvalidByteInStep
  | ReadOnly

definition len_steps :: "bytes \<Rightarrow> nat" where
  "len_steps path = length (filter (\<lambda>b. b = PATH_SEPARATOR) path)"

definition is_ascii_alphanumeric :: "u8 \<Rightarrow> bool" where
  "is_ascii_alphanumeric b \<longleftrightarrow> 48 \<le> b \<and> b \<le> 57 \<or> 65 \<le> b \<and> b \<le> 90 \<or> 97 \<le> b \<and> b \<le> 122"

definition is_allowed_step_byte :: "u8 \<Rightarrow> bool" where
  "is_allowed_step_byte b \<longleftrightarrow> is_ascii_alphanumeric b \<or> b = 46 \<or> b = 95 \<or> b = 45"

text \<open>The loop over adjacent pairs of bytes, from the byte before the next one.\<close>

fun validate_steps :: "u8 \<Rightarrow> bytes \<Rightarrow> PathError + unit" where
  "validate_steps prev [] = Inr ()"
| "validate_steps prev (c # cs) =
     (if c = PATH_SEPARATOR then
        (if prev = PATH_SEPARATOR then Inl InvalidEmptyStep else validate_steps c cs)
      else if \<not> is_allowed_step_byte c then Inl InvalidByteInStep
      else validate_steps c cs)"

definition validate_path_internal :: "bytes \<Rightarrow> PathError + unit" where
  "validate_path_internal path =
     (case path of
        [] \<Rightarrow> Inl PathEmpty
      | c # cs \<Rightarrow>
          if last path = PATH_SEPARATOR then Inl InvalidEmptyStep
          else if length path > PATH_MAX_SIZE then Inl PathTooLong
          else if c = PATH_SEPARATOR then validate_steps c cs
          else Inl InvalidStart)"

definition READONLY :: bytes where
  "READONLY = ascii ''/readonly''"

definition validate_path :: "bytes \<Rightarrow> PathError + unit" where
  "validate_path path =
     (case validate_path_internal path of
        Inr _ \<Rightarrow>
          if path = READONLY \<or> take 10 path = READONLY @ [PATH_SEPARATOR]
          then Inl ReadOnly else Inr ()
      | Inl e \<Rightarrow> Inl e)"

text \<open>\<open>TryFrom\<close> for both kinds of paths.\<close>

definition path_try_from :: "bytes \<Rightarrow> PathError + bytes" where
  "path_try_from path = (case validate_path path of Inl e \<Rightarrow> Inl e | Inr _ \<Rightarrow> Inr path)"

definition path_concat :: "bytes \<Rightarrow> bytes \<Rightarrow> PathError + bytes" where
  "path_concat prefix suffix =
     (let bytes = prefix @ suffix
      in if length bytes \<le> PATH_MAX_SIZE then Inr bytes else Inl PathTooLong)"

section \<open>The grammar\<close>

text \<open>A step is a non-empty sequence of allowed bytes; a path is a non-empty sequence of steps.\<close>

definition step_ok :: "bytes \<Rightarrow> bool" where
  "step_ok s \<longleftrightarrow> s \<noteq> [] \<and> list_all is_allowed_step_byte s"

definition path_of :: "bytes list \<Rightarrow> bytes" where
  "path_of steps = concat (map (\<lambda>s. PATH_SEPARATOR # s) steps)"

definition path_ok :: "bytes \<Rightarrow> bool" where
  "path_ok p \<longleftrightarrow> validate_path_internal p = Inr ()"

text \<open>\<open>split('/').skip(1)\<close>\<close>

fun split_steps :: "bytes \<Rightarrow> bytes \<Rightarrow> bytes list" where
  "split_steps acc [] = [rev acc]"
| "split_steps acc (c # cs) =
     (if c = PATH_SEPARATOR then rev acc # split_steps [] cs else split_steps (c # acc) cs)"

definition path_steps :: "bytes \<Rightarrow> bytes list" where
  "path_steps path = drop 1 (split_steps [] path)"

lemma PATH_MAX_SIZE_eq: "PATH_MAX_SIZE = 242"
  by (simp add: PATH_MAX_SIZE_def DURABLE_STORAGE_PREFIX_INNER_def ascii_def)

lemma separator_not_allowed [simp]: "\<not> is_allowed_step_byte PATH_SEPARATOR"
  by code_simp

lemma path_of_simps [simp]:
  "path_of [] = []" "path_of (s # ss) = PATH_SEPARATOR # s @ path_of ss"
  "path_of (ss @ ss') = path_of ss @ path_of ss'"
  by (simp_all add: path_of_def)

lemma step_ok_no_separator: "step_ok s \<Longrightarrow> list_all (\<lambda>c. c \<noteq> PATH_SEPARATOR) s"
  using separator_not_allowed by (auto simp: step_ok_def list_all_iff)

lemma validate_steps_append:
  "list_all is_allowed_step_byte s \<Longrightarrow> validate_steps prev (s @ cs) = validate_steps (last (prev # s)) cs"
proof (induction s arbitrary: prev)
  case (Cons c s)
  then have "c \<noteq> PATH_SEPARATOR" using separator_not_allowed by auto
  with Cons show ?case by auto
qed simp

lemma step_ok_last: "step_ok s \<Longrightarrow> last s \<noteq> PATH_SEPARATOR"
  using step_ok_no_separator by (auto simp: step_ok_def list_all_iff)

lemma validate_steps_path_of:
  assumes "list_all step_ok ss" "prev \<noteq> PATH_SEPARATOR"
  shows "validate_steps prev (path_of ss) = Inr ()"
  using assms
proof (induction ss arbitrary: prev)
  case (Cons s ss)
  then have s: "step_ok s" "list_all is_allowed_step_byte s" "s \<noteq> []" by (auto simp: step_ok_def)
  with Cons step_ok_last [OF s(1)] show ?case by (simp add: validate_steps_append)
qed simp

lemma validate_steps_grammar:
  assumes "validate_steps prev cs = Inr ()" "last (prev # cs) \<noteq> PATH_SEPARATOR"
  shows "\<exists>s ss. cs = s @ path_of ss \<and> list_all is_allowed_step_byte s \<and> list_all step_ok ss \<and>
    (prev = PATH_SEPARATOR \<longrightarrow> s \<noteq> [])"
  using assms
proof (induction cs arbitrary: prev)
  case Nil
  then have "[] = [] @ path_of [] \<and> list_all is_allowed_step_byte [] \<and> list_all step_ok [] \<and>
      (prev = PATH_SEPARATOR \<longrightarrow> [] \<noteq> [])" by simp
  then show ?case by blast
next
  case (Cons c cs)
  then have "validate_steps c cs = Inr ()" "last (c # cs) \<noteq> PATH_SEPARATOR"
    by (auto split: if_splits)
  from Cons.IH [OF this] obtain s ss where IH: "cs = s @ path_of ss" "list_all is_allowed_step_byte s"
    "list_all step_ok ss" "c = PATH_SEPARATOR \<longrightarrow> s \<noteq> []" by blast
  show ?case
  proof (cases "c = PATH_SEPARATOR")
    case True
    with Cons.prems(1) have "prev \<noteq> PATH_SEPARATOR" by auto
    moreover have "c # cs = [] @ path_of (s # ss)" "list_all step_ok (s # ss)"
      using True IH by (simp_all add: step_ok_def)
    ultimately show ?thesis by (metis append_Nil list.pred_inject(1))
  next
    case False
    with Cons.prems(1) have "is_allowed_step_byte c" by (auto split: if_splits)
    with IH have "c # cs = (c # s) @ path_of ss" "list_all is_allowed_step_byte (c # s)" by simp_all
    with IH(3) show ?thesis by blast
  qed
qed

lemma last_path_of:
  assumes "list_all step_ok ss" "ss \<noteq> []"
  shows "last (path_of ss) \<noteq> PATH_SEPARATOR"
proof -
  obtain ss' s where ss: "ss = ss' @ [s]" using assms(2) by (metis rev_exhaust)
  with assms(1) have s: "step_ok s" by simp
  then have "last (path_of ss) = last s" by (simp add: ss step_ok_def)
  with step_ok_last [OF s] show ?thesis by simp
qed

lemma path_ok_grammar:
  "path_ok p \<longleftrightarrow> length p \<le> PATH_MAX_SIZE \<and> (\<exists>ss. ss \<noteq> [] \<and> list_all step_ok ss \<and> p = path_of ss)"
proof
  assume "path_ok p"
  then obtain cs where p: "p = PATH_SEPARATOR # cs" "length p \<le> PATH_MAX_SIZE"
      "validate_steps PATH_SEPARATOR cs = Inr ()" "last (PATH_SEPARATOR # cs) \<noteq> PATH_SEPARATOR"
    by (auto simp: path_ok_def validate_path_internal_def split: list.splits if_splits)
  from validate_steps_grammar [OF p(3,4)] obtain s ss where
    "cs = s @ path_of ss" "list_all is_allowed_step_byte s" "list_all step_ok ss" "s \<noteq> []" by auto
  with p show "length p \<le> PATH_MAX_SIZE \<and> (\<exists>ss. ss \<noteq> [] \<and> list_all step_ok ss \<and> p = path_of ss)"
    by (auto intro!: exI [of _ "s # ss"] simp: step_ok_def)
next
  assume "length p \<le> PATH_MAX_SIZE \<and> (\<exists>ss. ss \<noteq> [] \<and> list_all step_ok ss \<and> p = path_of ss)"
  then obtain s ss where p: "p = path_of (s # ss)" "step_ok s" "list_all step_ok ss" "length p \<le> PATH_MAX_SIZE"
    by (metis list.exhaust list.pred_inject(2))
  then have "last p \<noteq> PATH_SEPARATOR" using last_path_of [of "s # ss"] by simp
  with p step_ok_last [OF p(2)] show "path_ok p"
    by (auto simp: path_ok_def validate_path_internal_def validate_steps_append validate_steps_path_of step_ok_def)
qed

lemma split_steps_append:
  "list_all (\<lambda>c. c \<noteq> PATH_SEPARATOR) s \<Longrightarrow> split_steps acc (s @ cs) = split_steps (rev s @ acc) cs"
  by (induction s arbitrary: acc) auto

lemma path_steps_path_of:
  assumes "list_all step_ok ss" "ss \<noteq> []"
  shows "path_steps (path_of ss) = ss"
proof -
  have "split_steps acc (path_of ss) = rev acc # ss" if "list_all step_ok ss" for ss acc
    using that
    by (induction ss arbitrary: acc) (auto simp: split_steps_append dest: step_ok_no_separator)
  with assms show ?thesis by (simp add: path_steps_def)
qed

text \<open>Valid paths are determined by their steps.\<close>

lemma path_of_steps:
  assumes "path_ok p"
  shows "path_of (path_steps p) = p" "path_steps p \<noteq> []" "list_all step_ok (path_steps p)"
  using assms path_steps_path_of by (auto simp: path_ok_grammar)

lemma path_ok_concat:
  assumes "path_ok p" "path_ok q" "length (p @ q) \<le> PATH_MAX_SIZE"
  shows "path_ok (p @ q)" "path_steps (p @ q) = path_steps p @ path_steps q"
proof -
  let ?ss = "path_steps p @ path_steps q"
  have "list_all step_ok ?ss" "?ss \<noteq> []" "p @ q = path_of ?ss"
    using path_of_steps [OF assms(1)] path_of_steps [OF assms(2)] by simp_all
  with assms(3) path_steps_path_of [of ?ss] show "path_ok (p @ q)" "path_steps (p @ q) = ?ss"
    unfolding path_ok_grammar by auto
qed

text \<open>The paths that may be written: their first step is not \<open>readonly\<close>.\<close>

definition writable :: "bytes \<Rightarrow> bool" where
  "writable p \<longleftrightarrow> validate_path p = Inr ()"

lemma first_step:
  assumes "step_ok s"
  shows "takeWhile (\<lambda>c. c \<noteq> PATH_SEPARATOR) (s @ path_of ss) = s"
proof -
  have "takeWhile (\<lambda>c. c \<noteq> PATH_SEPARATOR) (path_of ss) = []" by (cases ss) simp_all
  then show ?thesis
    using step_ok_no_separator [OF assms] by (simp add: takeWhile_append2 list_all_iff)
qed

lemma writable_steps:
  "writable p \<longleftrightarrow> path_ok p \<and> hd (path_steps p) \<noteq> tl READONLY"
proof (cases "path_ok p")
  case False
  then show ?thesis by (auto simp: writable_def validate_path_def path_ok_def split: sum.splits)
next
  case True
  then obtain s ss where p: "path_steps p = s # ss" "step_ok s" "list_all step_ok ss" "p = PATH_SEPARATOR # s @ path_of ss"
    using path_of_steps [OF True] by (cases "path_steps p") auto
  let ?r = "tl READONLY"
  have r: "READONLY = PATH_SEPARATOR # ?r" "length ?r = 8" "takeWhile (\<lambda>c. c \<noteq> PATH_SEPARATOR) ?r = ?r"
    "step_ok ?r" "READONLY \<noteq> []" by code_simp+
  have "p = READONLY \<or> take 10 p = READONLY @ [PATH_SEPARATOR] \<longleftrightarrow> s = ?r"
  proof
    assume "s = ?r"
    with p r show "p = READONLY \<or> take 10 p = READONLY @ [PATH_SEPARATOR]" by (cases ss) auto
  next
    assume "p = READONLY \<or> take 10 p = READONLY @ [PATH_SEPARATOR]"
    then have "tl p = ?r \<or> tl (take 10 p) = tl (READONLY @ [PATH_SEPARATOR])" by auto
    then have "s @ path_of ss = ?r \<or> take 9 (s @ path_of ss) = ?r @ [PATH_SEPARATOR]"
      using r(5) by (simp add: p(4))
    then consider "s @ path_of ss = ?r" | "take 9 (s @ path_of ss) = ?r @ [PATH_SEPARATOR]" by blast
    then show "s = ?r"
    proof cases
      case 1
      with first_step [OF p(2), of ss] r(3) show ?thesis by simp
    next
      case 2
      then have "s @ path_of ss = ?r @ PATH_SEPARATOR # drop 9 (s @ path_of ss)"
        by (metis append.assoc append_Cons append_Nil append_take_drop_id)
      then have "takeWhile (\<lambda>c. c \<noteq> PATH_SEPARATOR) (s @ path_of ss) = ?r"
        using r(3) step_ok_no_separator [OF r(4)] by (simp add: takeWhile_append2 list_all_iff)
      with first_step [OF p(2), of ss] show ?thesis by simp
    qed
  qed
  with True p(1) show ?thesis by (auto simp: writable_def validate_path_def path_ok_def)
qed

lemma writable_concat:
  assumes "writable p" "path_ok q" "length (p @ q) \<le> PATH_MAX_SIZE"
  shows "writable (p @ q)"
  using assms path_ok_concat [of p q] path_of_steps(2) [of p] by (simp add: writable_steps)

section \<open>Properties\<close>


text \<open>
  C18: \<open>concat\<close> builds its result without validating it again, and this is sound: joining a path to
  another one gives a valid path whose steps are those of the two, or fails because it is too long.
\<close>

theorem concat_valid:
  assumes "validate_path p = Inr ()" "validate_path q = Inr ()"
  shows "case path_concat p q of
      Inl e \<Rightarrow> e = PathTooLong \<and> length p + length q > 242
    | Inr r \<Rightarrow> validate_path r = Inr () \<and> path_steps r = path_steps p @ path_steps q"
proof -
  have p: "writable p" "path_ok p" and q: "path_ok q"
    using assms writable_steps by (auto simp: writable_def)
  show ?thesis
    using writable_concat [OF p(1) q] path_ok_concat(2) [OF p(2) q]
    by (simp add: path_concat_def writable_def PATH_MAX_SIZE_eq)
qed

theorem concat_valid_witness:
  "case path_concat [47, 97] [47, 98, 46] of
      Inl e \<Rightarrow> e = PathTooLong \<and> length [47, 97 :: u8] + length [47, 98, 46 :: u8] > 242
    | Inr r \<Rightarrow> validate_path r = Inr () \<and> path_steps r = path_steps [47, 97] @ path_steps [47, 98, 46]"
  by (rule concat_valid) code_simp+

end
