(* ===== verification/SDK_Store.thy ===== *)
theory SDK_Store
  imports SDK_Path "HOL-Library.Finite_Map" "HOL-Library.Sublist"
begin

text \<open>
  The durable store that backs the in-memory host of the kernel SDK
  (\<^verbatim>\<open>kernel_sdk/mock/src/state/store.rs\<close>): a tree of nodes with optional values, in which a node with
  a value also has a marker among its children. The operations are compared with an abstract view:
  the value and the existence of a node at every sequence of steps.
\<close>

section \<open>Nodes\<close>

datatype node = Node (node_value: "bytes option") (node_inner: "(bytes, node) fmap")

text \<open>\<open>Node::default()\<close> and the comparison with it.\<close>

definition node_default :: node where
  "node_default = Node None fmempty"

definition is_default :: "node \<Rightarrow> bool" where
  "is_default n \<longleftrightarrow> node_value n = None \<and> fmdom (node_inner n) = {||}"

definition VALUE_NAME :: bytes where
  "VALUE_NAME = [64]"

text \<open>
  The part of the struct \<open>Store\<close> that the storage functions use, and the outbox. A reference into
  the tree that is then written through is an update function.
\<close>

record store =
  durable :: node
  outbox :: "u32 \<rightharpoonup> bytes list"

definition outbox_at :: "store \<Rightarrow> u32 \<Rightarrow> bytes list" where
  "outbox_at st level = (case outbox st level of Some msgs \<Rightarrow> msgs | None \<Rightarrow> [])"

definition outbox_insert :: "store \<Rightarrow> u32 \<Rightarrow> bytes \<Rightarrow> store" where
  "outbox_insert st level message =
     (case outbox st level of
        Some l \<Rightarrow> st\<lparr>outbox := (outbox st)(level \<mapsto> l @ [message])\<rparr>
      | None \<Rightarrow> st\<lparr>outbox := (outbox st)(level \<mapsto> [message])\<rparr>)"

fun node_from_steps :: "node \<Rightarrow> bytes list \<Rightarrow> node option" where
  "node_from_steps n [] = Some n"
| "node_from_steps n (next # steps) =
     (case fmlookup (node_inner n) next of
        None \<Rightarrow> None
      | Some n' \<Rightarrow> node_from_steps n' steps)"

definition node_from_path :: "store \<Rightarrow> bytes \<Rightarrow> node option" where
  "node_from_path st path = node_from_steps (durable st) (path_steps path)"

fun node_update :: "(node \<Rightarrow> node) \<Rightarrow> node \<Rightarrow> bytes list \<Rightarrow> node option" where
  "node_update f n [] = Some (f n)"
| "node_update f n (next # steps) =
     (case fmlookup (node_inner n) next of
        None \<Rightarrow> None
      | Some n' \<Rightarrow>
          map_option (\<lambda>n'. Node (node_value n) (fmupd next n' (node_inner n))) (node_update f n' steps))"

fun insert_steps :: "node \<Rightarrow> bytes list \<Rightarrow> node \<Rightarrow> node" where
  "insert_steps n [] insertee = insertee"
| "insert_steps n (next # steps) insertee =
     (let child = (case fmlookup (node_inner n) next of None \<Rightarrow> node_default | Some c \<Rightarrow> c)
      in Node (node_value n) (fmupd next (insert_steps child steps insertee) (node_inner n)))"

definition node_insert :: "store \<Rightarrow> bytes \<Rightarrow> node \<Rightarrow> store" where
  "node_insert st path insertee = st\<lparr>durable := insert_steps (durable st) (path_steps path) insertee\<rparr>"

text \<open>The loop of \<open>node_delete\<close>: delete the last step, then the parents that are left empty.\<close>

definition remove_child :: "bytes \<Rightarrow> node \<Rightarrow> node" where
  "remove_child s n = Node (node_value n) (fmdrop s (node_inner n))"

function delete_steps :: "node \<Rightarrow> bytes list \<Rightarrow> node" where
  "delete_steps n steps =
     (if steps = [] then n
      else case node_update (remove_child (last steps)) n (butlast steps) of
             None \<Rightarrow> n
           | Some n' \<Rightarrow>
               (case node_from_steps n' (butlast steps) of
                  None \<Rightarrow> n'
                | Some parent \<Rightarrow>
                    if \<not> is_default parent then n' else delete_steps n' (butlast steps)))"
  by pat_completeness auto

termination
  by (relation "measure (\<lambda>(n, steps). length steps)") auto

declare delete_steps.simps [simp del]

definition node_delete :: "store \<Rightarrow> bytes \<Rightarrow> store" where
  "node_delete st path = st\<lparr>durable := delete_steps (durable st) (path_steps path)\<rparr>"

definition maybe_get_value :: "store \<Rightarrow> bytes \<Rightarrow> bytes option" where
  "maybe_get_value st path = Option.bind (node_from_path st path) node_value"

text \<open>\<open>None\<close> is the panic of \<open>get_value\<close> where there is no value.\<close>

definition get_value :: "store \<Rightarrow> bytes \<Rightarrow> bytes option" where
  "get_value st path = maybe_get_value st path"

definition with_value :: "bytes \<Rightarrow> node \<Rightarrow> node" where
  "with_value v n = Node (Some v) (fmupd VALUE_NAME node_default (node_inner n))"

definition set_value :: "store \<Rightarrow> bytes \<Rightarrow> bytes \<Rightarrow> store" where
  "set_value st path v =
     (case node_update (with_value v) (durable st) (path_steps path) of
        Some n \<Rightarrow> st\<lparr>durable := n\<rparr>
      | None \<Rightarrow> node_insert st path (with_value v node_default))"

definition without_value :: "node \<Rightarrow> node" where
  "without_value n = Node None (fmdrop VALUE_NAME (node_inner n))"

definition delete_value :: "store \<Rightarrow> bytes \<Rightarrow> store" where
  "delete_value st path =
     (case node_update without_value (durable st) (path_steps path) of
        Some n \<Rightarrow> st\<lparr>durable := n\<rparr>
      | None \<Rightarrow> st)"

definition has_entry :: "store \<Rightarrow> bytes \<Rightarrow> bool" where
  "has_entry st path = (case node_from_path st path of Some n \<Rightarrow> node_value n \<noteq> None | None \<Rightarrow> False)"

section \<open>The abstract view\<close>

definition vals :: "node \<Rightarrow> bytes list \<Rightarrow> bytes option" where
  "vals n ss = Option.bind (node_from_steps n ss) node_value"

lemma node_from_steps_append:
  "node_from_steps n (ss @ ss') = Option.bind (node_from_steps n ss) (\<lambda>n'. node_from_steps n' ss')"
  by (induction n ss rule: node_from_steps.induct) (auto split: option.split)

lemma node_update_None: "node_update f n ss = None \<longleftrightarrow> node_from_steps n ss = None"
  by (induction f n ss rule: node_update.induct) (auto split: option.split)

text \<open>What an update at \<open>ss\<close> does to the node at \<open>x\<close>.\<close>

lemma node_update_same:
  "node_update f n ss = Some n' \<Longrightarrow>
     node_from_steps n' (ss @ x) = Option.bind (node_from_steps n ss) (\<lambda>m. node_from_steps (f m) x)"
proof (induction f n ss arbitrary: n' rule: node_update.induct)
  case (2 f n s ss)
  then show ?case by (auto split: option.splits)
qed simp

text \<open>The parts of a node that an update below it leaves alone.\<close>

definition marker :: "node \<Rightarrow> bytes option \<times> node option" where
  "marker n = (node_value n, fmlookup (node_inner n) VALUE_NAME)"

lemma node_update_other:
  assumes "node_update f n ss = Some n'" "\<not> prefix ss x"
  shows "node_from_steps n' x = None \<longleftrightarrow> node_from_steps n x = None"
    and "vals n' x = vals n x"
    and "VALUE_NAME \<notin> set ss \<Longrightarrow>
      map_option marker (node_from_steps n' x) = map_option marker (node_from_steps n x)"
    and "\<not> prefix x ss \<Longrightarrow> node_from_steps n' x = node_from_steps n x"
proof -
  have "(node_from_steps n' x = None \<longleftrightarrow> node_from_steps n x = None) \<and> vals n' x = vals n x \<and>
    (VALUE_NAME \<notin> set ss \<longrightarrow>
      map_option marker (node_from_steps n' x) = map_option marker (node_from_steps n x)) \<and>
    (\<not> prefix x ss \<longrightarrow> node_from_steps n' x = node_from_steps n x)"
    using assms
  proof (induction f n ss arbitrary: n' x rule: node_update.induct)
    case (2 f n s ss)
    then obtain c c' where c: "fmlookup (node_inner n) s = Some c" "node_update f c ss = Some c'"
      "n' = Node (node_value n) (fmupd s c' (node_inner n))"
      by (auto split: option.splits)
    show ?case
    proof (cases x)
      case Nil
      with c show ?thesis by (auto simp: vals_def marker_def)
    next
      case (Cons y ys)
      show ?thesis
      proof (cases "y = s")
        case True
        with 2(3) Cons have "\<not> prefix ss ys" by simp
        from 2(1) [OF c(1,2) this] c True Cons show ?thesis by (auto simp: vals_def)
      next
        case False
        with c Cons show ?thesis by (simp add: vals_def)
      qed
    qed
  qed simp
  then show "node_from_steps n' x = None \<longleftrightarrow> node_from_steps n x = None" "vals n' x = vals n x"
    "VALUE_NAME \<notin> set ss \<Longrightarrow>
      map_option marker (node_from_steps n' x) = map_option marker (node_from_steps n x)"
    "\<not> prefix x ss \<Longrightarrow> node_from_steps n' x = node_from_steps n x"
    by blast+
qed

lemma insert_steps_same: "node_from_steps (insert_steps n ss i) (ss @ x) = node_from_steps i x"
  by (induction n ss i rule: insert_steps.induct) (auto simp: Let_def)

lemma node_from_default: "node_from_steps node_default x = (if x = [] then Some node_default else None)"
  by (cases x) (simp_all add: node_default_def)

lemma insert_steps_other:
  assumes "\<not> prefix ss x"
  shows "node_from_steps (insert_steps n ss i) x = None \<longleftrightarrow> node_from_steps n x = None \<and> \<not> prefix x ss"
    and "vals (insert_steps n ss i) x = vals n x"
    and "VALUE_NAME \<notin> set ss \<Longrightarrow> node_from_steps (insert_steps n ss i) x = Some m \<Longrightarrow>
      marker m = (case node_from_steps n x of Some m' \<Rightarrow> marker m' | None \<Rightarrow> (None, None))"
proof -
  have "(node_from_steps (insert_steps n ss i) x = None \<longleftrightarrow> node_from_steps n x = None \<and> \<not> prefix x ss) \<and>
    vals (insert_steps n ss i) x = vals n x \<and>
    (VALUE_NAME \<notin> set ss \<longrightarrow> node_from_steps (insert_steps n ss i) x = Some m \<longrightarrow>
      marker m = (case node_from_steps n x of Some m' \<Rightarrow> marker m' | None \<Rightarrow> (None, None)))"
    using assms
  proof (induction n ss i arbitrary: x rule: insert_steps.induct)
    case (2 n s ss i)
    define c where "c = (case fmlookup (node_inner n) s of None \<Rightarrow> node_default | Some c \<Rightarrow> c)"
    have ins: "insert_steps n (s # ss) i = Node (node_value n) (fmupd s (insert_steps c ss i) (node_inner n))"
      by (simp add: c_def Let_def)
    show ?case
    proof (cases x)
      case Nil
      then show ?thesis by (auto simp: ins vals_def marker_def)
    next
      case (Cons y ys)
      show ?thesis
      proof (cases "y = s")
        case True
        with 2(2) Cons have np: "\<not> prefix ss ys" by simp
        note IH = 2(1) [OF c_def np]
        show ?thesis
        proof (cases "fmlookup (node_inner n) s")
          case None
          then have "c = node_default" by (simp add: c_def)
          moreover have "marker node_default = (None, None)" "node_value node_default = None"
            by (simp_all add: marker_def node_default_def)
          ultimately show ?thesis
            using IH True Cons None by (cases "ys = []") (auto simp: ins vals_def node_from_default)
        next
          case (Some c0)
          then have "c = c0" by (simp add: c_def)
          with IH True Cons Some show ?thesis by (auto simp: ins vals_def)
        qed
      next
        case False
        with Cons show ?thesis by (auto simp: ins vals_def split: option.splits)
      qed
    qed
  qed simp
  then show "node_from_steps (insert_steps n ss i) x = None \<longleftrightarrow> node_from_steps n x = None \<and> \<not> prefix x ss"
    "vals (insert_steps n ss i) x = vals n x"
    "VALUE_NAME \<notin> set ss \<Longrightarrow> node_from_steps (insert_steps n ss i) x = Some m \<Longrightarrow>
      marker m = (case node_from_steps n x of Some m' \<Rightarrow> marker m' | None \<Rightarrow> (None, None))"
    by blast+
qed

section \<open>The invariant\<close>

text \<open>A node has the marker exactly if it has a value.\<close>

definition marked :: "node \<Rightarrow> bool" where
  "marked n \<longleftrightarrow> marker n = (node_value n, if node_value n = None then None else Some node_default)"

definition node_wf :: "node \<Rightarrow> bool" where
  "node_wf n \<longleftrightarrow> (\<forall>ss m. list_all step_ok ss \<longrightarrow> node_from_steps n ss = Some m \<longrightarrow> marked m)"

definition store_wf :: "store \<Rightarrow> bool" where
  "store_wf st \<longleftrightarrow> node_wf (durable st)"

lemma steps_not_marker: "list_all step_ok ss \<Longrightarrow> VALUE_NAME \<notin> set ss"
proof -
  have "\<not> step_ok VALUE_NAME" by code_simp
  then show "list_all step_ok ss \<Longrightarrow> VALUE_NAME \<notin> set ss" by (auto simp: list_all_iff)
qed

lemma marked_cong: "marker m = marker m' \<Longrightarrow> marked m = marked m'"
  by (auto simp: marked_def marker_def)

lemma node_wf_update:
  assumes "node_wf n" "list_all step_ok ss" "node_update f n ss = Some n'"
    and below: "\<And>m x. node_from_steps n ss = Some m \<Longrightarrow> list_all step_ok x \<Longrightarrow>
      (\<And>y k. list_all step_ok y \<Longrightarrow> node_from_steps m y = Some k \<Longrightarrow> marked k) \<Longrightarrow>
      (case node_from_steps (f m) x of Some k \<Rightarrow> marked k | None \<Rightarrow> True)"
  shows "node_wf n'"
  unfolding node_wf_def
proof (intro allI impI)
  fix x k assume x: "list_all step_ok x" "node_from_steps n' x = Some k"
  show "marked k"
  proof (cases "prefix ss x")
    case True
    then obtain y where y: "x = ss @ y" by (auto simp: prefix_def)
    with node_update_same [OF assms(3), of y] x(2) obtain m where
      m: "node_from_steps n ss = Some m" "node_from_steps (f m) y = Some k"
      by (cases "node_from_steps n ss") auto
    have "marked k'" if "list_all step_ok z" "node_from_steps m z = Some k'" for z k'
    proof -
      have "list_all step_ok (ss @ z)" "node_from_steps n (ss @ z) = Some k'"
        using assms(2) that m(1) by (simp_all add: node_from_steps_append)
      with assms(1) show ?thesis unfolding node_wf_def by blast
    qed
    with below [OF m(1), of y] x(1) y m(2) show ?thesis by simp
  next
    case False
    have "map_option marker (node_from_steps n' x) = map_option marker (node_from_steps n x)"
      by (rule node_update_other(3) [OF assms(3) False steps_not_marker [OF assms(2)]])
    with x(2) obtain k' where "node_from_steps n x = Some k'" "marker k' = marker k"
      by (cases "node_from_steps n x") auto
    with assms(1) x(1) marked_cong [of k' k] show ?thesis by (auto simp: node_wf_def)
  qed
qed

lemma node_wf_insert:
  assumes "node_wf n" "list_all step_ok ss" "node_wf i"
  shows "node_wf (insert_steps n ss i)"
  unfolding node_wf_def
proof (intro allI impI)
  fix x k assume x: "list_all step_ok x" "node_from_steps (insert_steps n ss i) x = Some k"
  show "marked k"
  proof (cases "prefix ss x")
    case True
    then obtain y where "x = ss @ y" by (auto simp: prefix_def)
    with x insert_steps_same [of n ss i y] assms(3) show ?thesis by (auto simp: node_wf_def)
  next
    case False
    have "marker k = (case node_from_steps n x of Some m' \<Rightarrow> marker m' | None \<Rightarrow> (None, None))"
      by (rule insert_steps_other(3) [OF False steps_not_marker [OF assms(2)] x(2)])
    then show ?thesis
    proof (cases "node_from_steps n x")
      case None
      with \<open>marker k = _\<close> show ?thesis by (simp add: marked_def marker_def)
    next
      case (Some k')
      with \<open>marker k = _\<close> assms(1) x(1) marked_cong [of k k'] show ?thesis by (auto simp: node_wf_def)
    qed
  qed
qed

section \<open>Effects of the operations\<close>

lemma with_value_below:
  "node_from_steps (with_value v m) x =
     (if x = [] then Some (with_value v m)
      else if hd x = VALUE_NAME then (if tl x = [] then Some node_default else None)
      else node_from_steps m x)"
  by (cases x) (simp_all add: with_value_def node_from_default)

lemma without_value_below:
  "node_from_steps (without_value m) x =
     (if x = [] then Some (without_value m) else if hd x = VALUE_NAME then None else node_from_steps m x)"
  by (cases x) (simp_all add: without_value_def)

lemma marked_with_value: "marked (with_value v m)"
  by (simp add: marked_def marker_def with_value_def)

lemma marked_without_value: "marked (without_value m)"
  by (simp add: marked_def marker_def without_value_def)

lemma step_ok_hd: "list_all step_ok x \<Longrightarrow> x \<noteq> [] \<Longrightarrow> hd x \<noteq> VALUE_NAME"
  using steps_not_marker [of x] by (cases x) auto

lemma not_marker_hd: "VALUE_NAME \<notin> set x \<Longrightarrow> x \<noteq> [] \<Longrightarrow> hd x \<noteq> VALUE_NAME"
  by (cases x) auto

lemma set_value_effect:
  assumes "list_all step_ok (path_steps p)" "VALUE_NAME \<notin> set x"
  shows "vals (durable (set_value st p v)) x =
      (if x = path_steps p then Some v else vals (durable st) x)"
    and "node_from_steps (durable (set_value st p v)) x = None \<longleftrightarrow>
      node_from_steps (durable st) x = None \<and> \<not> prefix x (path_steps p)"
proof -
  let ?n = "durable st" let ?ss = "path_steps p"
  have "vals (durable (set_value st p v)) x = (if x = ?ss then Some v else vals ?n x) \<and>
    (node_from_steps (durable (set_value st p v)) x = None \<longleftrightarrow>
      node_from_steps ?n x = None \<and> \<not> prefix x ?ss)"
  proof (cases "node_update (with_value v) ?n ?ss")
    case None
    then have none: "node_from_steps ?n ?ss = None" by (simp add: node_update_None)
    have d: "durable (set_value st p v) = insert_steps ?n ?ss (with_value v node_default)"
      using None by (simp add: set_value_def node_insert_def)
    show ?thesis
    proof (cases "prefix ?ss x")
      case True
      then obtain y where y: "x = ?ss @ y" by (auto simp: prefix_def)
      have "node_from_steps (insert_steps ?n ?ss (with_value v node_default)) x =
          (if y = [] then Some (with_value v node_default) else None)"
        unfolding y insert_steps_same using assms(2) y not_marker_hd [of y]
        by (simp add: with_value_below node_from_default)
      moreover have "node_from_steps ?n x = None" using none y by (simp add: node_from_steps_append)
      ultimately show ?thesis using y by (simp add: d vals_def with_value_def)
    next
      case False
      then have "x \<noteq> ?ss" by auto
      with insert_steps_other(1,2) [OF False] show ?thesis by (simp add: d)
    qed
  next
    case (Some n')
    have d: "durable (set_value st p v) = n'" using Some by (simp add: set_value_def)
    from Some obtain m where m: "node_from_steps ?n ?ss = Some m"
      using node_update_None [of "with_value v" ?n ?ss] by auto
    show ?thesis
    proof (cases "prefix ?ss x")
      case True
      then obtain y where y: "x = ?ss @ y" by (auto simp: prefix_def)
      have "node_from_steps n' x = (if y = [] then Some (with_value v m) else node_from_steps m y)"
        using node_update_same [OF Some, of y] m assms(2) y not_marker_hd [of y]
        by (simp add: with_value_below)
      moreover have "node_from_steps ?n x = node_from_steps m y"
        using m y by (simp add: node_from_steps_append)
      ultimately show ?thesis using y by (simp add: d vals_def with_value_def)
    next
      case False
      then have "x \<noteq> ?ss" by auto
      moreover have "node_from_steps ?n x \<noteq> None" if "prefix x ?ss"
        using that m
        by (cases "node_from_steps ?n x") (auto simp: prefix_def node_from_steps_append)
      ultimately show ?thesis using node_update_other(1,2) [OF Some False] by (auto simp: d)
    qed
  qed
  then show "vals (durable (set_value st p v)) x = (if x = ?ss then Some v else vals ?n x)"
    "node_from_steps (durable (set_value st p v)) x = None \<longleftrightarrow>
      node_from_steps ?n x = None \<and> \<not> prefix x ?ss"
    by blast+
qed

lemma delete_value_effect:
  assumes "list_all step_ok (path_steps p)" "VALUE_NAME \<notin> set x"
  shows "vals (durable (delete_value st p)) x =
      (if x = path_steps p then None else vals (durable st) x)"
    and "node_from_steps (durable (delete_value st p)) x = None \<longleftrightarrow> node_from_steps (durable st) x = None"
proof -
  let ?n = "durable st" let ?ss = "path_steps p"
  have "vals (durable (delete_value st p)) x = (if x = ?ss then None else vals ?n x) \<and>
    (node_from_steps (durable (delete_value st p)) x = None \<longleftrightarrow> node_from_steps ?n x = None)"
  proof (cases "node_update without_value ?n ?ss")
    case None
    then have "delete_value st p = st" by (simp add: delete_value_def)
    moreover have "node_from_steps ?n ?ss = None" using None by (simp add: node_update_None)
    ultimately show ?thesis by (simp add: vals_def)
  next
    case (Some n')
    have d: "durable (delete_value st p) = n'" using Some by (simp add: delete_value_def)
    from Some obtain m where m: "node_from_steps ?n ?ss = Some m"
      using node_update_None [of without_value ?n ?ss] by auto
    show ?thesis
    proof (cases "prefix ?ss x")
      case True
      then obtain y where y: "x = ?ss @ y" by (auto simp: prefix_def)
      have "node_from_steps n' x = (if y = [] then Some (without_value m) else node_from_steps m y)"
        using node_update_same [OF Some, of y] m assms(2) y not_marker_hd [of y]
        by (simp add: without_value_below)
      moreover have "node_from_steps ?n x = node_from_steps m y"
        using m y by (simp add: node_from_steps_append)
      ultimately show ?thesis using y by (simp add: d vals_def without_value_def)
    next
      case False
      then have "x \<noteq> ?ss" by auto
      then show ?thesis using node_update_other(1,2) [OF Some False] by (simp add: d)
    qed
  qed
  then show "vals (durable (delete_value st p)) x = (if x = ?ss then None else vals ?n x)"
    "node_from_steps (durable (delete_value st p)) x = None \<longleftrightarrow> node_from_steps ?n x = None"
    by blast+
qed

lemma remove_child_below:
  "node_from_steps (remove_child s m) x =
     (if x = [] then Some (remove_child s m) else if hd x = s then None else node_from_steps m x)"
  by (cases x) (simp_all add: remove_child_def)

text \<open>One round of the loop.\<close>

lemma remove_child_effect:
  assumes "node_update (remove_child s) n ps = Some n'"
  shows "vals n' x = (if prefix (ps @ [s]) x then None else vals n x)"
    and "node_from_steps n' x = None \<longleftrightarrow> node_from_steps n x = None \<or> prefix (ps @ [s]) x"
proof -
  from assms obtain m where m: "node_from_steps n ps = Some m"
    using node_update_None [of "remove_child s" n ps] by auto
  have "vals n' x = (if prefix (ps @ [s]) x then None else vals n x) \<and>
    (node_from_steps n' x = None \<longleftrightarrow> node_from_steps n x = None \<or> prefix (ps @ [s]) x)"
  proof (cases "prefix ps x")
    case True
    then obtain y where y: "x = ps @ y" by (auto simp: prefix_def)
    have "node_from_steps n' x =
        (if y = [] then Some (remove_child s m) else if hd y = s then None else node_from_steps m y)"
      using node_update_same [OF assms, of y] m y by (simp add: remove_child_below)
    moreover have "node_from_steps n x = node_from_steps m y"
      using m y by (simp add: node_from_steps_append)
    moreover have "prefix (ps @ [s]) x \<longleftrightarrow> y \<noteq> [] \<and> hd y = s" using y by (cases y) auto
    ultimately show ?thesis by (auto simp: vals_def remove_child_def)
  next
    case False
    then have "\<not> prefix (ps @ [s]) x" by (meson append_prefixD)
    with node_update_other(1,2) [OF assms False] show ?thesis by simp
  qed
  then show "vals n' x = (if prefix (ps @ [s]) x then None else vals n x)"
    "node_from_steps n' x = None \<longleftrightarrow> node_from_steps n x = None \<or> prefix (ps @ [s]) x"
    by blast+
qed

lemma vals_below_default:
  assumes "node_from_steps n ps = Some m" "is_default m" "prefix ps x"
  shows "vals n x = None"
proof -
  have "m = node_default"
    using assms(2) by (cases m) (auto simp: is_default_def node_default_def fmap_ext fmdom'_notD
        fmlookup_dom_iff intro!: fmap_ext)
  moreover have "node_value node_default = None" by (simp add: node_default_def)
  ultimately show ?thesis
    using assms by (auto simp: prefix_def vals_def node_from_steps_append node_from_default)
qed

lemma delete_steps_Nil [simp]: "delete_steps n [] = n"
  by (simp add: delete_steps.simps)

lemma delete_steps_effect:
  assumes "ss \<noteq> []"
  shows "vals (delete_steps n ss) x = (if prefix ss x then None else vals n x)"
    and "node_from_steps (delete_steps n ss) x \<noteq> None \<Longrightarrow> node_from_steps n x \<noteq> None \<and> \<not> prefix ss x"
proof -
  have "vals (delete_steps n ss) x = (if prefix ss x then None else vals n x) \<and>
    (node_from_steps (delete_steps n ss) x \<noteq> None \<longrightarrow> node_from_steps n x \<noteq> None \<and> \<not> prefix ss x)"
    if "ss \<noteq> []" for ss
    using that
  proof (induction n ss rule: delete_steps.induct)
    case (1 n ss)
    let ?ps = "butlast ss" let ?s = "last ss"
    have ss: "ss = ?ps @ [?s]" using 1(2) by simp
    show ?case
    proof (cases "node_update (remove_child ?s) n ?ps")
      case None
      then have "node_from_steps n (?ps @ [?s] @ z) = None" for z
        by (simp add: node_update_None node_from_steps_append)
      then have "node_from_steps n x = None" if "prefix ss x"
        using that ss by (metis append.assoc prefix_def)
      with None 1(2) show ?thesis by (auto simp: delete_steps.simps [of n ss] vals_def)
    next
      case (Some n')
      note eff = remove_child_effect [OF Some, folded ss]
      obtain parent where parent: "node_from_steps n' ?ps = Some parent"
        using node_update_same [OF Some, of "[]"] Some node_update_None [of "remove_child ?s" n ?ps] by auto
      show ?thesis
      proof (cases "is_default parent \<and> ?ps \<noteq> []")
        case False
        then have "delete_steps n ss = n'"
          using 1(2) Some parent
          by (cases "?ps = []") (auto simp: delete_steps.simps [of n ss])
        with eff show ?thesis by auto
      next
        case True
        then have del: "delete_steps n ss = delete_steps n' ?ps"
          using 1(2) Some parent by (simp add: delete_steps.simps [of n ss])
        have IH: "vals (delete_steps n' ?ps) x = (if prefix ?ps x then None else vals n' x) \<and>
          (node_from_steps (delete_steps n' ?ps) x \<noteq> None \<longrightarrow> node_from_steps n' x \<noteq> None \<and> \<not> prefix ?ps x)"
          using 1 Some parent True by simp
        have "vals n' x = None" if "prefix ?ps x"
          using vals_below_default [OF parent _ that] True by simp
        with IH eff del show ?thesis by (auto split: if_splits)
      qed
    qed
  qed
  with assms show "vals (delete_steps n ss) x = (if prefix ss x then None else vals n x)"
    "node_from_steps (delete_steps n ss) x \<noteq> None \<Longrightarrow> node_from_steps n x \<noteq> None \<and> \<not> prefix ss x"
    by blast+
qed

text \<open>The invariant is kept by all operations on valid paths.\<close>

lemma node_wf_delete:
  assumes "node_wf n" "list_all step_ok ss"
  shows "node_wf (delete_steps n ss)"
  using assms
proof (induction n ss rule: delete_steps.induct)
  case (1 n ss)
  show ?case
  proof (cases "ss = [] \<or> node_update (remove_child (last ss)) n (butlast ss) = None")
    case True
    with 1(2) show ?thesis by (auto simp: delete_steps.simps [of n ss])
  next
    case False
    then obtain n' where n': "node_update (remove_child (last ss)) n (butlast ss) = Some n'" and ss: "ss \<noteq> []" by auto
    have "last ss \<noteq> VALUE_NAME" using steps_not_marker [OF 1(3)] last_in_set [OF ss] by metis
    moreover have "list_all step_ok (butlast ss)" using 1(3) by (auto simp: list_all_iff dest: in_set_butlastD)
    ultimately have ok: "list_all step_ok (butlast ss)" "last ss \<noteq> VALUE_NAME" by simp_all
    have "node_wf n'"
    proof (rule node_wf_update [OF 1(2) ok(1) n'])
      fix m x assume x: "list_all step_ok x"
        and m: "\<And>y k. list_all step_ok y \<Longrightarrow> node_from_steps m y = Some k \<Longrightarrow> marked k"
      from m [of "[]" m] have "marked (remove_child (last ss) m)"
        using ok(2) by (simp add: marked_def marker_def remove_child_def)
      with m [OF x] show "case node_from_steps (remove_child (last ss) m) x of Some k \<Rightarrow> marked k | None \<Rightarrow> True"
        by (simp add: remove_child_below split: option.split)
    qed
    with 1(1) [OF ss n'] ok(1) n' ss show ?thesis
      by (simp add: delete_steps.simps [of n ss] split: option.split)
  qed
qed

lemma node_wf_marked: "node_wf n \<Longrightarrow> marked n"
  unfolding node_wf_def by (metis list.pred_inject(1) node_from_steps.simps(1))

lemma store_wf_set_value:
  assumes "store_wf st" "list_all step_ok (path_steps p)"
  shows "store_wf (set_value st p v)"
proof (cases "node_update (with_value v) (durable st) (path_steps p)")
  case None
  have "node_wf (with_value v node_default)"
    unfolding node_wf_def
    by (auto simp: with_value_below node_from_default marked_with_value dest: step_ok_hd split: if_splits)
  with None assms node_wf_insert show ?thesis by (simp add: store_wf_def set_value_def node_insert_def)
next
  case (Some n')
  have "node_wf n'"
  proof (rule node_wf_update [OF assms(1) [unfolded store_wf_def] assms(2) Some])
    fix m x assume x: "list_all step_ok x"
      and m: "\<And>y k. list_all step_ok y \<Longrightarrow> node_from_steps m y = Some k \<Longrightarrow> marked k"
    show "case node_from_steps (with_value v m) x of Some k \<Rightarrow> marked k | None \<Rightarrow> True"
      using m [OF x] step_ok_hd [OF x] by (simp add: with_value_below marked_with_value split: option.split)
  qed
  with Some show ?thesis by (simp add: store_wf_def set_value_def)
qed

lemma store_wf_delete_value:
  assumes "store_wf st" "list_all step_ok (path_steps p)"
  shows "store_wf (delete_value st p)"
proof (cases "node_update without_value (durable st) (path_steps p)")
  case None
  with assms show ?thesis by (simp add: delete_value_def)
next
  case (Some n')
  have "node_wf n'"
  proof (rule node_wf_update [OF assms(1) [unfolded store_wf_def] assms(2) Some])
    fix m x assume x: "list_all step_ok x"
      and m: "\<And>y k. list_all step_ok y \<Longrightarrow> node_from_steps m y = Some k \<Longrightarrow> marked k"
    show "case node_from_steps (without_value m) x of Some k \<Rightarrow> marked k | None \<Rightarrow> True"
      using m [OF x] step_ok_hd [OF x] by (simp add: without_value_below marked_without_value split: option.split)
  qed
  with Some show ?thesis by (simp add: store_wf_def delete_value_def)
qed

lemma store_wf_node_delete:
  "store_wf st \<Longrightarrow> list_all step_ok (path_steps p) \<Longrightarrow> store_wf (node_delete st p)"
  using node_wf_delete by (simp add: store_wf_def node_delete_def)

lemma node_wf_below:
  assumes "node_wf n" "node_from_steps n ss = Some m" "list_all step_ok ss"
  shows "node_wf m"
  unfolding node_wf_def
proof (intro allI impI)
  fix x k assume "list_all step_ok x" "node_from_steps m x = Some k"
  with assms(2,3) have "list_all step_ok (ss @ x)" "node_from_steps n (ss @ x) = Some k"
    by (simp_all add: node_from_steps_append)
  with assms(1) show "marked k" unfolding node_wf_def by blast
qed

lemma store_wf_node_insert:
  "store_wf st \<Longrightarrow> list_all step_ok (path_steps p) \<Longrightarrow> node_wf i \<Longrightarrow> store_wf (node_insert st p i)"
  using node_wf_insert by (simp add: store_wf_def node_insert_def)

end
