(* ===== verification/SDK_Runtime.thy ===== *)
theory SDK_Runtime
  imports SDK_Store
begin

text \<open>
  The storage functions of the host: the error codes (\<^verbatim>\<open>kernel_sdk/core/src/lib.rs\<close>,
  \<^verbatim>\<open>kernel_sdk/host/src/lib.rs\<close>), the host functions on the in-memory store
  (\<^verbatim>\<open>kernel_sdk/mock/src/state/in_memory_store.rs\<close>) and the storage functions of the trait \<open>Runtime\<close>
  (\<^verbatim>\<open>kernel_sdk/host/src/runtime.rs\<close>), which read and write values in chunks. A host function
  returns a code, negative for an error, and the bytes it writes to the memory of the kernel.
\<close>

section \<open>Error codes\<close>

datatype HostError =
    StoreKeyTooLarge
  | StoreInvalidKey
  | StoreNotAValue
  | StoreInvalidAccess
  | StoreValueSizeExceeded
  | MemoryInvalidAccess
  | InputOutputTooLarge
  | GenericInvalidAccess
  | StoreReadonlyValue
  | StoreNotANode
  | FullOutbox

fun error_code :: "HostError \<Rightarrow> int" where
  "error_code StoreKeyTooLarge = -1"
| "error_code StoreInvalidKey = -2"
| "error_code StoreNotAValue = -3"
| "error_code StoreInvalidAccess = -4"
| "error_code StoreValueSizeExceeded = -5"
| "error_code MemoryInvalidAccess = -6"
| "error_code InputOutputTooLarge = -7"
| "error_code GenericInvalidAccess = -8"
| "error_code StoreReadonlyValue = -9"
| "error_code StoreNotANode = -10"
| "error_code FullOutbox = -11"

text \<open>\<open>From<i32>\<close> and \<open>From<i64>\<close>; the codes are integers in the range of their type.\<close>

definition error_from :: "int \<Rightarrow> HostError" where
  "error_from code =
     (if code = -1 then StoreKeyTooLarge else if code = -2 then StoreInvalidKey
      else if code = -3 then StoreNotAValue else if code = -5 then StoreValueSizeExceeded
      else if code = -4 then StoreInvalidAccess else if code = -6 then MemoryInvalidAccess
      else if code = -7 then InputOutputTooLarge else if code = -8 then GenericInvalidAccess
      else if code = -9 then StoreReadonlyValue else if code = -10 then StoreNotANode
      else if code = -11 then FullOutbox else GenericInvalidAccess)"

definition error_from_i64 :: "int \<Rightarrow> HostError" where
  "error_from_i64 code =
     (if - (2 ^ 31) \<le> code \<and> code < 2 ^ 31 then error_from code else GenericInvalidAccess)"

definition error_wrap :: "int \<Rightarrow> HostError + nat" where
  "error_wrap code = (if code \<ge> 0 then Inr (nat code) else Inl (error_from code))"

lemma error_from_code [simp]: "error_from (error_code e) = e"
  by (cases e) (simp_all add: error_from_def)

lemma error_wrap_code [simp]: "error_wrap (error_code e) = Inl e"
  by (cases e) (simp_all add: error_wrap_def error_from_def)

lemma error_wrap_nat [simp]: "error_wrap (int n) = Inr n"
  by (simp add: error_wrap_def)

section \<open>Host functions on the in-memory store\<close>

definition MAX_FILE_CHUNK_SIZE :: nat where
  "MAX_FILE_CHUNK_SIZE = 2048"

definition key_error :: "PathError \<Rightarrow> HostError" where
  "key_error e = (case e of PathTooLong \<Rightarrow> StoreKeyTooLarge | _ \<Rightarrow> StoreInvalidKey)"

definition store_validate_path :: "bytes \<Rightarrow> HostError + bytes" where
  "store_validate_path s =
     (case path_try_from s of Inl e \<Rightarrow> Inl (key_error e) | Inr _ \<Rightarrow> Inr s)"

definition validate_path_maybe_readonly :: "bytes \<Rightarrow> HostError + bytes" where
  "validate_path_maybe_readonly s =
     (if length s > length (READONLY @ [PATH_SEPARATOR]) \<and>
         take (length (READONLY @ [PATH_SEPARATOR])) s = READONLY @ [PATH_SEPARATOR]
      then (case path_try_from (drop (length READONLY) s) of Inl e \<Rightarrow> Inl (key_error e) | Inr _ \<Rightarrow> Inr s)
      else if s = READONLY then Inr READONLY
      else (case path_try_from s of Inl e \<Rightarrow> Inl (key_error e) | Inr _ \<Rightarrow> Inr s))"

definition inner_len :: "node \<Rightarrow> nat" where
  "inner_len n = fcard (fmdom (node_inner n))"

definition handle_store_list_size :: "store \<Rightarrow> bytes \<Rightarrow> HostError + int" where
  "handle_store_list_size st pfx =
     (case store_validate_path pfx of
        Inl e \<Rightarrow> Inl e
      | Inr pfx \<Rightarrow>
          (case node_from_path st pfx of
             Some n \<Rightarrow> Inr (int (inner_len n)) | None \<Rightarrow> Inl StoreNotANode))"

definition handle_store_has :: "store \<Rightarrow> bytes \<Rightarrow> HostError + int" where
  "handle_store_has st raw_path =
     (case store_validate_path raw_path of
        Inl e \<Rightarrow> Inl e
      | Inr path \<Rightarrow>
          (let has_value = has_entry st path;
               has_subvalue =
                 (case handle_store_list_size st raw_path of Inr n \<Rightarrow> n | Inl _ \<Rightarrow> 0) > of_bool has_value
           in Inr (if has_value then (if has_subvalue then 3 else 1)
                   else (if has_subvalue then 2 else 0))))"

definition handle_store_read :: "store \<Rightarrow> bytes \<Rightarrow> nat \<Rightarrow> nat \<Rightarrow> HostError + bytes" where
  "handle_store_read st path offset max_bytes =
     (case validate_path_maybe_readonly path of
        Inl e \<Rightarrow> Inl e
      | Inr path \<Rightarrow>
          (case maybe_get_value st path of
             None \<Rightarrow> Inl StoreNotAValue
           | Some bytes \<Rightarrow>
               if offset > length bytes then Inl StoreInvalidAccess
               else
                 (let num_bytes = min MAX_FILE_CHUNK_SIZE (min max_bytes (length bytes - offset))
                  in Inr (take num_bytes (drop offset bytes)))))"

definition handle_store_write :: "store \<Rightarrow> bytes \<Rightarrow> nat \<Rightarrow> bytes \<Rightarrow> HostError + store" where
  "handle_store_write st path offset bytes =
     (if length bytes > MAX_FILE_CHUNK_SIZE then Inl InputOutputTooLarge
      else case store_validate_path path of
        Inl e \<Rightarrow> Inl e
      | Inr path \<Rightarrow>
          (let v = (case maybe_get_value st path of Some v \<Rightarrow> v | None \<Rightarrow> [])
           in if offset > length v then Inl StoreInvalidAccess
              else
                (let v' = (if offset < length v \<and> offset + length bytes \<le> length v
                           then take offset v @ bytes @ drop (offset + length bytes) v
                           else take offset v @ bytes)
                 in Inr (set_value st path v'))))"

definition handle_store_delete :: "store \<Rightarrow> bytes \<Rightarrow> HostError + store" where
  "handle_store_delete st pfx =
     (case store_validate_path pfx of
        Inl e \<Rightarrow> Inl e | Inr durable_prefix \<Rightarrow> Inr (node_delete st durable_prefix))"

definition handle_store_delete_value :: "store \<Rightarrow> bytes \<Rightarrow> HostError + store" where
  "handle_store_delete_value st pfx =
     (case store_validate_path pfx of
        Inl e \<Rightarrow> Inl e | Inr durable_prefix \<Rightarrow> Inr (delete_value st durable_prefix))"

definition handle_store_move :: "store \<Rightarrow> bytes \<Rightarrow> bytes \<Rightarrow> HostError + store" where
  "handle_store_move st from_path to_path =
     (case store_validate_path from_path of
        Inl e \<Rightarrow> Inl e
      | Inr from_durable_prefix \<Rightarrow>
          (case store_validate_path to_path of
             Inl e \<Rightarrow> Inl e
           | Inr to_durable_prefix \<Rightarrow>
               (case node_from_path st from_durable_prefix of
                  None \<Rightarrow> Inl StoreNotANode
                | Some from_node \<Rightarrow>
                    Inr (node_insert (node_delete st from_durable_prefix) to_durable_prefix from_node))))"

definition handle_store_copy :: "store \<Rightarrow> bytes \<Rightarrow> bytes \<Rightarrow> HostError + store" where
  "handle_store_copy st from_path to_path =
     (case store_validate_path from_path of
        Inl e \<Rightarrow> Inl e
      | Inr from_durable_prefix \<Rightarrow>
          (case store_validate_path to_path of
             Inl e \<Rightarrow> Inl e
           | Inr to_durable_prefix \<Rightarrow>
               (case node_from_path st from_durable_prefix of
                  None \<Rightarrow> Inl StoreNotANode
                | Some from_node \<Rightarrow> Inr (node_insert st to_durable_prefix from_node))))"

text \<open>\<open>as i32\<close>\<close>

definition as_i32 :: "nat \<Rightarrow> int" where
  "as_i32 n = sint (word_of_nat n :: i32)"

definition handle_store_value_size :: "store \<Rightarrow> bytes \<Rightarrow> HostError + int" where
  "handle_store_value_size st path =
     (case store_validate_path path of
        Inl e \<Rightarrow> Inl e
      | Inr path \<Rightarrow>
          (case maybe_get_value st path of
             None \<Rightarrow> Inl StoreNotAValue | Some v \<Rightarrow> Inr (as_i32 (length v))))"

text \<open>\<open>unwrap_or_else(Error::code)\<close>, and its variant for the functions that change the store.\<close>

definition code_of :: "HostError + int \<Rightarrow> int" where
  "code_of r = (case r of Inl e \<Rightarrow> error_code e | Inr c \<Rightarrow> c)"

definition code_of_unit :: "store \<Rightarrow> HostError + store \<Rightarrow> int \<times> store" where
  "code_of_unit st r = (case r of Inl e \<Rightarrow> (error_code e, st) | Inr st' \<Rightarrow> (0, st'))"

definition core_store_has :: "store \<Rightarrow> bytes \<Rightarrow> int" where
  "core_store_has st path = code_of (handle_store_has st path)"

text \<open>The code is the number of bytes; the bytes are those copied to the destination.\<close>

definition core_store_read :: "store \<Rightarrow> bytes \<Rightarrow> nat \<Rightarrow> nat \<Rightarrow> int \<times> bytes" where
  "core_store_read st path offset max_bytes =
     (case handle_store_read st path offset max_bytes of
        Inr bytes \<Rightarrow> (int (length bytes), bytes)
      | Inl e \<Rightarrow> (error_code e, []))"

definition core_store_write :: "store \<Rightarrow> bytes \<Rightarrow> nat \<Rightarrow> bytes \<Rightarrow> int \<times> store" where
  "core_store_write st path offset bytes = code_of_unit st (handle_store_write st path offset bytes)"

definition core_store_delete :: "store \<Rightarrow> bytes \<Rightarrow> int \<times> store" where
  "core_store_delete st path = code_of_unit st (handle_store_delete st path)"

definition core_store_delete_value :: "store \<Rightarrow> bytes \<Rightarrow> int \<times> store" where
  "core_store_delete_value st path = code_of_unit st (handle_store_delete_value st path)"

definition core_store_list_size :: "store \<Rightarrow> bytes \<Rightarrow> int" where
  "core_store_list_size st path = code_of (handle_store_list_size st path)"

definition core_store_move :: "store \<Rightarrow> bytes \<Rightarrow> bytes \<Rightarrow> int \<times> store" where
  "core_store_move st from_path to_path = code_of_unit st (handle_store_move st from_path to_path)"

definition core_store_copy :: "store \<Rightarrow> bytes \<Rightarrow> bytes \<Rightarrow> int \<times> store" where
  "core_store_copy st from_path to_path = code_of_unit st (handle_store_copy st from_path to_path)"

definition core_store_value_size :: "store \<Rightarrow> bytes \<Rightarrow> int" where
  "core_store_value_size st path = code_of (handle_store_value_size st path)"

section \<open>The trait Runtime\<close>

datatype RuntimeError = PathNotFound | StoreListIndexOutOfBounds | HostErr HostError | DecodingError

datatype ValueType = Value | Subtree | ValueWithSubtree

definition store_has :: "store \<Rightarrow> bytes \<Rightarrow> RuntimeError + ValueType option" where
  "store_has st path =
     (case error_wrap (core_store_has st path) of
        Inl e \<Rightarrow> Inl (HostErr e)
      | Inr value_type \<Rightarrow>
          if value_type = 0 then Inr None
          else if value_type = 1 then Inr (Some Value)
          else if value_type = 2 then Inr (Some Subtree)
          else if value_type = 3 then Inr (Some ValueWithSubtree)
          else Inl (HostErr GenericInvalidAccess))"

definition check_path_has_value :: "store \<Rightarrow> bytes \<Rightarrow> RuntimeError + unit" where
  "check_path_has_value st path =
     (case store_has st path of
        Inr (Some Value) \<Rightarrow> Inr ()
      | Inr (Some ValueWithSubtree) \<Rightarrow> Inr ()
      | _ \<Rightarrow> Inl PathNotFound)"

definition check_path_exists :: "store \<Rightarrow> bytes \<Rightarrow> RuntimeError + unit" where
  "check_path_exists st path =
     (case store_has st path of Inr (Some _) \<Rightarrow> Inr () | _ \<Rightarrow> Inl PathNotFound)"

text \<open>The number of bytes read and the bytes at the beginning of the buffer of length \<open>n\<close>.\<close>

definition store_read_slice :: "store \<Rightarrow> bytes \<Rightarrow> nat \<Rightarrow> nat \<Rightarrow> RuntimeError + nat \<times> bytes" where
  "store_read_slice st path from_offset n =
     (case core_store_read st path from_offset n of
        (code, bytes) \<Rightarrow>
          (case error_wrap code of Inr i \<Rightarrow> Inr (i, bytes) | Inl e \<Rightarrow> Inl (HostErr e)))"

definition store_read :: "store \<Rightarrow> bytes \<Rightarrow> nat \<Rightarrow> nat \<Rightarrow> RuntimeError + bytes" where
  "store_read st path from_offset max_bytes =
     (case check_path_has_value st path of
        Inl e \<Rightarrow> Inl e
      | Inr _ \<Rightarrow>
          (case store_read_slice st path from_offset (min MAX_FILE_CHUNK_SIZE max_bytes) of
             Inl e \<Rightarrow> Inl e
           | Inr (sz, bytes) \<Rightarrow> Inr (take sz bytes)))"

definition store_value_size :: "store \<Rightarrow> bytes \<Rightarrow> RuntimeError + nat" where
  "store_value_size st path =
     (case check_path_exists st path of
        Inl e \<Rightarrow> Inl e
      | Inr _ \<Rightarrow>
          (case error_wrap (core_store_value_size st path) of
             Inr sz \<Rightarrow> Inr sz | Inl e \<Rightarrow> Inl (HostErr e)))"

text \<open>The loop of \<open>store_read_all\<close>; it ends only if every chunk that is read is non-empty.\<close>

partial_function (option) read_chunks ::
  "store \<Rightarrow> bytes \<Rightarrow> nat \<Rightarrow> bytes \<Rightarrow> (RuntimeError + bytes) option" where
  "read_chunks st path len buffer =
     (if length buffer < len then
        (case core_store_read st path (length buffer) (min MAX_FILE_CHUNK_SIZE (len - length buffer)) of
           (code, chunk) \<Rightarrow>
             (case error_wrap code of
                Inl e \<Rightarrow> Some (Inl (HostErr e))
              | Inr _ \<Rightarrow> read_chunks st path len (buffer @ chunk)))
      else Some (Inr buffer))"

definition store_read_all :: "store \<Rightarrow> bytes \<Rightarrow> (RuntimeError + bytes) option" where
  "store_read_all st path =
     (case store_value_size st path of
        Inl e \<Rightarrow> Some (Inl e) | Inr len \<Rightarrow> read_chunks st path len [])"

text \<open>The closure \<open>write\<close> of \<open>store_write\<close>, and its loop.\<close>

definition write_chunk :: "store \<Rightarrow> bytes \<Rightarrow> bytes \<Rightarrow> nat \<Rightarrow> (RuntimeError + unit) \<times> store" where
  "write_chunk st path bytes offset =
     (case core_store_write st path offset bytes of
        (code, st') \<Rightarrow>
          (case error_wrap code of Inr _ \<Rightarrow> (Inr (), st') | Inl e \<Rightarrow> (Inl (HostErr e), st')))"

function write_chunks :: "store \<Rightarrow> bytes \<Rightarrow> bytes \<Rightarrow> nat \<Rightarrow> (RuntimeError + unit) \<times> store" where
  "write_chunks st path src at_offset =
     (if length src > MAX_FILE_CHUNK_SIZE then
        (case write_chunk st path (take MAX_FILE_CHUNK_SIZE src) at_offset of
           (Inl e, st') \<Rightarrow> (Inl e, st')
         | (Inr _, st') \<Rightarrow>
             write_chunks st' path (drop MAX_FILE_CHUNK_SIZE src) (at_offset + MAX_FILE_CHUNK_SIZE))
      else if src \<noteq> [] then write_chunk st path src at_offset
      else (Inr (), st))"
  by pat_completeness auto

termination
  by (relation "measure (\<lambda>(st, path, src, n). length src)") (auto simp: MAX_FILE_CHUNK_SIZE_def)

declare write_chunks.simps [simp del]

definition store_write :: "store \<Rightarrow> bytes \<Rightarrow> bytes \<Rightarrow> nat \<Rightarrow> (RuntimeError + unit) \<times> store" where
  "store_write st path src at_offset =
     (if length src \<le> MAX_FILE_CHUNK_SIZE then write_chunk st path src at_offset
      else write_chunks st path src at_offset)"

text \<open>The result of a host function that returns no value.\<close>

definition unit_result :: "int \<times> store \<Rightarrow> (RuntimeError + unit) \<times> store" where
  "unit_result r =
     (case r of
        (code, st) \<Rightarrow> (case error_wrap code of Inr _ \<Rightarrow> (Inr (), st) | Inl e \<Rightarrow> (Inl (HostErr e), st)))"

definition store_delete_value :: "store \<Rightarrow> bytes \<Rightarrow> (RuntimeError + unit) \<times> store" where
  "store_delete_value st path = unit_result (core_store_delete_value st path)"

definition store_write_all :: "store \<Rightarrow> bytes \<Rightarrow> bytes \<Rightarrow> (RuntimeError + unit) \<times> store" where
  "store_write_all st path v =
     (case store_delete_value st path of
        (Inl e, st') \<Rightarrow> (Inl e, st') | (Inr _, st') \<Rightarrow> store_write st' path v 0)"

definition store_delete :: "store \<Rightarrow> bytes \<Rightarrow> (RuntimeError + unit) \<times> store" where
  "store_delete st path =
     (case check_path_exists st path of
        Inl e \<Rightarrow> (Inl e, st) | Inr _ \<Rightarrow> unit_result (core_store_delete st path))"

definition store_count_subkeys :: "store \<Rightarrow> bytes \<Rightarrow> RuntimeError + nat" where
  "store_count_subkeys st path =
     (let count = core_store_list_size st path
      in if count \<ge> 0 then Inr (nat count) else Inl (HostErr (error_from_i64 count)))"

definition store_move :: "store \<Rightarrow> bytes \<Rightarrow> bytes \<Rightarrow> (RuntimeError + unit) \<times> store" where
  "store_move st from_path to_path =
     (case check_path_exists st from_path of
        Inl e \<Rightarrow> (Inl e, st) | Inr _ \<Rightarrow> unit_result (core_store_move st from_path to_path))"

definition store_copy :: "store \<Rightarrow> bytes \<Rightarrow> bytes \<Rightarrow> (RuntimeError + unit) \<times> store" where
  "store_copy st from_path to_path =
     (case check_path_exists st from_path of
        Inl e \<Rightarrow> (Inl e, st) | Inr _ \<Rightarrow> unit_result (core_store_copy st from_path to_path))"

definition mark_for_reboot :: "store \<Rightarrow> (RuntimeError + unit) \<times> store" where
  "mark_for_reboot st = store_write st (ascii ''/kernel/env/reboot'') [0] 0"

text \<open>The flags of the host.\<close>

definition has_flag :: "store \<Rightarrow> bytes \<Rightarrow> RuntimeError + bool" where
  "has_flag st path = (case store_has st path of Inl e \<Rightarrow> Inl e | Inr v \<Rightarrow> Inr (v \<noteq> None))"

definition last_run_aborted :: "store \<Rightarrow> RuntimeError + bool" where
  "last_run_aborted st = has_flag st (ascii ''/readonly/kernel/env/stuck'')"

definition upgrade_failed :: "store \<Rightarrow> RuntimeError + bool" where
  "upgrade_failed st = has_flag st (ascii ''/readonly/kernel/env/upgrade_error'')"

definition restart_forced :: "store \<Rightarrow> RuntimeError + bool" where
  "restart_forced st = has_flag st (ascii ''/readonly/kernel/env/too_many_reboot'')"

section \<open>Laws\<close>

lemma valid_path:
  assumes "writable p"
  shows "store_validate_path p = Inr p" "validate_path_maybe_readonly p = Inr p"
    and "list_all step_ok (path_steps p)" "path_steps p \<noteq> []"
proof -
  show v: "store_validate_path p = Inr p"
    using assms by (simp add: store_validate_path_def path_try_from_def writable_def)
  have "path_ok p" using assms by (simp add: writable_steps)
  then show "list_all step_ok (path_steps p)" "path_steps p \<noteq> []" by (simp_all add: path_of_steps)
  have "p \<noteq> READONLY \<and> take 10 p \<noteq> READONLY @ [PATH_SEPARATOR]" "length READONLY = 9"
    using assms
    by (auto simp: writable_def validate_path_def READONLY_def ascii_def split: sum.splits if_splits)
  then show "validate_path_maybe_readonly p = Inr p"
    using assms by (simp add: validate_path_maybe_readonly_def path_try_from_def writable_def)
qed

lemma maybe_get_value_vals: "maybe_get_value st p = vals (durable st) (path_steps p)"
  by (simp add: maybe_get_value_def vals_def node_from_path_def)

lemma has_entry_vals: "has_entry st p \<longleftrightarrow> vals (durable st) (path_steps p) \<noteq> None"
  by (auto simp: has_entry_def vals_def node_from_path_def split: option.splits)

text \<open>No node but the marker lies below the path.\<close>

definition bare :: "node \<Rightarrow> bytes list \<Rightarrow> bool" where
  "bare n ss \<longleftrightarrow> (\<forall>s. s \<noteq> VALUE_NAME \<longrightarrow> node_from_steps n (ss @ [s]) = None)"

lemma inner_len_0: "inner_len m = 0 \<longleftrightarrow> (\<forall>s. fmlookup (node_inner m) s = None)"
  by (auto simp: inner_len_def fmdom_notI fset_eq_iff)

lemma inner_len_1:
  assumes "fmlookup (node_inner m) VALUE_NAME \<noteq> None"
  shows "inner_len m > 1 \<longleftrightarrow> (\<exists>s. s \<noteq> VALUE_NAME \<and> fmlookup (node_inner m) s \<noteq> None)"
proof -
  let ?D = "fmdom (node_inner m)"
  have "VALUE_NAME |\<in>| ?D" using assms by (simp add: fmlookup_dom_iff)
  then have "inner_len m = Suc (fcard (?D |-| {|VALUE_NAME|}))"
    unfolding inner_len_def by (metis fcard_Suc_fminus1)
  moreover have "fcard (?D |-| {|VALUE_NAME|}) = 0 \<longleftrightarrow> ?D |-| {|VALUE_NAME|} = {||}" by (rule fcard_0_eq)
  ultimately have "inner_len m > 1 \<longleftrightarrow> ?D |-| {|VALUE_NAME|} \<noteq> {||}" by linarith
  also have "\<dots> \<longleftrightarrow> (\<exists>s. s |\<in>| ?D \<and> s \<noteq> VALUE_NAME)" by auto
  finally show ?thesis by (auto simp: fmlookup_dom_iff)
qed

lemma list_size_eq:
  assumes "writable p"
  shows "handle_store_list_size st p =
    (case node_from_steps (durable st) (path_steps p) of
       Some n \<Rightarrow> Inr (int (inner_len n)) | None \<Rightarrow> Inl StoreNotANode)"
  by (simp add: handle_store_list_size_def valid_path(1) [OF assms] node_from_path_def)

lemma wf_marked_at:
  "store_wf st \<Longrightarrow> list_all step_ok ss \<Longrightarrow> node_from_steps (durable st) ss = Some m \<Longrightarrow> marked m"
  unfolding store_wf_def node_wf_def by metis

lemma bare_at:
  "node_from_steps n ss = Some m \<Longrightarrow>
     bare n ss \<longleftrightarrow> (\<forall>s. s \<noteq> VALUE_NAME \<longrightarrow> fmlookup (node_inner m) s = None)"
  by (auto simp: bare_def node_from_steps_append split: option.splits)

text \<open>The number of children exceeds the marker exactly if there is another child.\<close>

lemma has_subvalue_bare:
  assumes "marked m" "node_from_steps n ss = Some m"
  shows "int (inner_len m) > of_bool (node_value m \<noteq> None) \<longleftrightarrow> \<not> bare n ss"
proof (cases "node_value m")
  case None
  with assms(1) have "fmlookup (node_inner m) VALUE_NAME = None" by (simp add: marked_def marker_def)
  then have "bare n ss \<longleftrightarrow> inner_len m = 0"
    unfolding bare_at [OF assms(2)] inner_len_0 by metis
  with None show ?thesis by simp
next
  case (Some w)
  with assms(1) have "fmlookup (node_inner m) VALUE_NAME \<noteq> None" by (simp add: marked_def marker_def)
  then have "bare n ss \<longleftrightarrow> \<not> inner_len m > 1"
    using inner_len_1 [of m] bare_at [OF assms(2)] by metis
  with Some show ?thesis by simp
qed

lemma handle_has_eq:
  assumes "store_wf st" "writable p"
  shows "handle_store_has st p = Inr
    (if vals (durable st) (path_steps p) \<noteq> None then if bare (durable st) (path_steps p) then 1 else 3
     else if bare (durable st) (path_steps p) then 0 else 2)"
proof (cases "node_from_steps (durable st) (path_steps p)")
  case None
  then have "bare (durable st) (path_steps p)" "vals (durable st) (path_steps p) = None"
    by (simp_all add: bare_def node_from_steps_append vals_def)
  with None show ?thesis
    unfolding handle_store_has_def list_size_eq [OF assms(2)] valid_path(1) [OF assms(2)] has_entry_vals Let_def
    by simp
next
  case (Some m)
  have v: "vals (durable st) (path_steps p) = node_value m" using Some by (simp add: vals_def)
  have "marked m" by (rule wf_marked_at [OF assms(1) valid_path(3) [OF assms(2)] Some])
  from has_subvalue_bare [OF this Some] Some v show ?thesis
    unfolding handle_store_has_def list_size_eq [OF assms(2)] valid_path(1) [OF assms(2)] has_entry_vals Let_def
    by (cases "node_value m") simp_all
qed

lemma store_has_eq:
  assumes "store_wf st" "writable p"
  shows "store_has st p = Inr
    (if vals (durable st) (path_steps p) \<noteq> None
     then Some (if bare (durable st) (path_steps p) then Value else ValueWithSubtree)
     else if bare (durable st) (path_steps p) then None else Some Subtree)"
  unfolding store_has_def core_store_has_def handle_has_eq [OF assms] code_of_def
  by (simp add: error_wrap_def)

text \<open>The effect of storing a value: the value at its path, new nodes only on the way to it.\<close>

definition stored :: "store \<Rightarrow> bytes list \<Rightarrow> bytes \<Rightarrow> store \<Rightarrow> bool" where
  "stored st ss v st' \<longleftrightarrow> store_wf st' \<and> outbox st' = outbox st \<and>
     (\<forall>x. VALUE_NAME \<notin> set x \<longrightarrow>
        vals (durable st') x = (if x = ss then Some v else vals (durable st) x) \<and>
        (node_from_steps (durable st') x = None \<longleftrightarrow> node_from_steps (durable st) x = None \<and> \<not> prefix x ss))"

lemma stored_set_value:
  assumes "store_wf st" "writable p"
  shows "stored st (path_steps p) v (set_value st p v)"
proof -
  note ok = valid_path(3) [OF assms(2)]
  have "outbox (set_value st p v) = outbox st"
    by (simp add: set_value_def node_insert_def split: option.split)
  with store_wf_set_value [OF assms(1) ok] set_value_effect [OF ok] show ?thesis
    unfolding stored_def by metis
qed

lemma stored_trans: "stored st ss v st1 \<Longrightarrow> stored st1 ss w st2 \<Longrightarrow> stored st ss w st2"
  unfolding stored_def by (auto split: if_splits)

lemma stored_after_delete_value:
  assumes "store_wf st" "writable p" "stored (delete_value st p) (path_steps p) v st'"
  shows "stored st (path_steps p) v st'"
proof -
  have "outbox (delete_value st p) = outbox st" by (simp add: delete_value_def split: option.split)
  with assms(3) delete_value_effect [OF valid_path(3) [OF assms(2)]] show ?thesis
    unfolding stored_def by (auto split: if_splits)
qed

definition value_or_empty :: "store \<Rightarrow> bytes list \<Rightarrow> bytes" where
  "value_or_empty st ss = (case vals (durable st) ss of Some v \<Rightarrow> v | None \<Rightarrow> [])"

lemma write_chunk_append:
  assumes "writable p" "length bs \<le> MAX_FILE_CHUNK_SIZE"
  shows "write_chunk st p bs (length (value_or_empty st (path_steps p))) =
    (Inr (), set_value st p (value_or_empty st (path_steps p) @ bs))"
  using assms(2)
  by (simp add: write_chunk_def core_store_write_def handle_store_write_def valid_path(1) [OF assms(1)]
      maybe_get_value_vals value_or_empty_def code_of_unit_def error_wrap_def Let_def split: option.split)

lemma value_or_empty_stored:
  assumes "stored st (path_steps p) v st'" "writable p"
  shows "value_or_empty st' (path_steps p) = v"
  using assms steps_not_marker [OF valid_path(3) [OF assms(2)]]
  by (simp add: stored_def value_or_empty_def)

lemma write_chunks_append:
  assumes "store_wf st" "writable p" "src \<noteq> []" "n = length (value_or_empty st (path_steps p))"
  shows "\<exists>st'. write_chunks st p src n = (Inr (), st') \<and>
    stored st (path_steps p) (value_or_empty st (path_steps p) @ src) st'"
  using assms
proof (induction "length src" arbitrary: st src n rule: less_induct)
  case less
  let ?v = "value_or_empty st (path_steps p)"
  let ?C = MAX_FILE_CHUNK_SIZE
  show ?case
  proof (cases "length src > ?C")
    case False
    with less.prems stored_set_value [OF less.prems(1,2), of "?v @ src"] show ?thesis
      by (simp add: write_chunks.simps [of st] write_chunk_append)
  next
    case True
    let ?st = "set_value st p (?v @ take ?C src)"
    have st: "stored st (path_steps p) (?v @ take ?C src) ?st" by (rule stored_set_value [OF less.prems(1,2)])
    have v: "value_or_empty ?st (path_steps p) = ?v @ take ?C src"
      by (rule value_or_empty_stored [OF st less.prems(2)])
    have wf: "store_wf ?st" using st by (simp add: stored_def)
    have w: "write_chunks st p src n = write_chunks ?st p (drop ?C src) (n + ?C)"
      using True less.prems(2,4) by (simp add: write_chunks.simps [of st] write_chunk_append)
    have n: "n + ?C = length (value_or_empty ?st (path_steps p))"
      unfolding v using True less.prems(4) by simp
    have "length (drop ?C src) < length src" "drop ?C src \<noteq> []"
      using True by (simp_all add: MAX_FILE_CHUNK_SIZE_def)
    from less.hyps [OF this(1) wf less.prems(2) this(2) n] obtain st' where
      "write_chunks ?st p (drop ?C src) (n + ?C) = (Inr (), st')" "stored ?st (path_steps p) (?v @ src) st'"
      by (auto simp: v)
    with w stored_trans [OF st] show ?thesis by auto
  qed
qed

lemma write_all_stored:
  assumes "store_wf st" "writable p"
  shows "\<exists>st'. store_write_all st p v = (Inr (), st') \<and> stored st (path_steps p) v st'"
proof -
  let ?st = "delete_value st p"
  note ok = valid_path(3) [OF assms(2)]
  have wf: "store_wf ?st" by (rule store_wf_delete_value [OF assms(1) ok])
  have empty: "value_or_empty ?st (path_steps p) = []"
    using delete_value_effect(1) [OF ok steps_not_marker [OF ok]] by (simp add: value_or_empty_def)
  have "store_delete_value st p = (Inr (), ?st)"
    by (simp add: store_delete_value_def core_store_delete_value_def handle_store_delete_value_def
        valid_path(1) [OF assms(2)] code_of_unit_def unit_result_def error_wrap_def)
  then have w: "store_write_all st p v = store_write ?st p v 0" by (simp add: store_write_all_def)
  have "\<exists>st'. store_write ?st p v 0 = (Inr (), st') \<and> stored ?st (path_steps p) v st'"
  proof (cases "length v \<le> MAX_FILE_CHUNK_SIZE")
    case True
    with write_chunk_append [OF assms(2) True, of ?st] stored_set_value [OF wf assms(2), of v] empty
    show ?thesis by (simp add: store_write_def)
  next
    case False
    then have "v \<noteq> []" by auto
    with write_chunks_append [OF wf assms(2), of v 0] False empty show ?thesis by (simp add: store_write_def)
  qed
  with w stored_after_delete_value [OF assms] show ?thesis by auto
qed

text \<open>Reading a value back.\<close>

lemma core_read_eq:
  assumes "writable p" "vals (durable st) (path_steps p) = Some v" "k \<le> length v"
  shows "core_store_read st p k n =
    (let bs = take (min MAX_FILE_CHUNK_SIZE (min n (length v - k))) (drop k v) in (int (length bs), bs))"
  using assms(2,3)
  by (simp add: core_store_read_def handle_store_read_def valid_path(2) [OF assms(1)] maybe_get_value_vals
      Let_def)

lemma read_chunks_eq:
  assumes "writable p" "vals (durable st) (path_steps p) = Some v" "k \<le> length v"
  shows "read_chunks st p (length v) (take k v) = Some (Inr v)"
  using assms(3)
proof (induction "length v - k" arbitrary: k rule: less_induct)
  case less
  show ?case
  proof (cases "k = length v")
    case True
    then show ?thesis by (simp add: read_chunks.simps)
  next
    case False
    define j where "j = min MAX_FILE_CHUNK_SIZE (length v - k)"
    have j: "0 < j" "k + j \<le> length v" using False less.prems by (auto simp: j_def MAX_FILE_CHUNK_SIZE_def)
    have "take k v @ take j (drop k v) = take (k + j) v" by (simp add: take_add)
    moreover have "length v - (k + j) < length v - k" using j by linarith
    then have "read_chunks st p (length v) (take (k + j) v) = Some (Inr v)" using less.hyps j(2) by blast
    moreover have "core_store_read st p k j = (int (length (take j (drop k v))), take j (drop k v))"
      using core_read_eq [OF assms(1,2) less.prems, of j] by (simp add: Let_def j_def)
    ultimately show ?thesis
      using False less.prems by (simp add: read_chunks.simps [of st p "length v" "take k v"] flip: j_def)
  qed
qed

lemma check_exists_eq:
  assumes "store_wf st" "writable p"
  shows "check_path_exists st p =
    (if vals (durable st) (path_steps p) = None \<and> bare (durable st) (path_steps p)
     then Inl PathNotFound else Inr ())"
  by (simp add: check_path_exists_def store_has_eq [OF assms])

lemma as_i32_small: "n < 2 ^ 31 \<Longrightarrow> as_i32 n = int n"
  by (simp add: as_i32_def signed_of_nat signed_take_bit_int_eq_self)

lemma read_all_value:
  assumes "store_wf st" "writable p" "vals (durable st) (path_steps p) = Some v" "length v < 2 ^ 31"
  shows "store_read_all st p = Some (Inr v)"
proof -
  have "store_value_size st p = Inr (length v)"
    using assms(3,4)
    by (simp add: store_value_size_def check_exists_eq [OF assms(1,2)] core_store_value_size_def
        handle_store_value_size_def valid_path(1) [OF assms(2)] maybe_get_value_vals code_of_def as_i32_small)
  with read_chunks_eq [OF assms(2,3), of 0] show ?thesis by (simp add: store_read_all_def)
qed

lemma read_all_no_value:
  assumes "store_wf st" "writable p" "vals (durable st) (path_steps p) = None"
  shows "\<exists>e. store_read_all st p = Some (Inl e)"
  using assms(3)
  by (simp add: store_read_all_def store_value_size_def check_exists_eq [OF assms(1,2)]
      core_store_value_size_def handle_store_value_size_def valid_path(1) [OF assms(2)]
      maybe_get_value_vals code_of_def error_wrap_def)

text \<open>Deleting a subtree.\<close>

lemma delete_eq:
  assumes "store_wf st" "writable p"
    and "vals (durable st) (path_steps p) \<noteq> None \<or> \<not> bare (durable st) (path_steps p)"
  shows "store_delete st p = (Inr (), node_delete st p)"
  using assms(3)
  by (auto simp: store_delete_def check_exists_eq [OF assms(1,2)] core_store_delete_def
      handle_store_delete_def valid_path(1) [OF assms(2)] code_of_unit_def unit_result_def error_wrap_def)

lemma node_delete_effect:
  assumes "store_wf st" "writable p"
  shows "store_wf (node_delete st p)" "outbox (node_delete st p) = outbox st"
    and "vals (durable (node_delete st p)) x = (if prefix (path_steps p) x then None else vals (durable st) x)"
    and "node_from_steps (durable (node_delete st p)) x \<noteq> None \<Longrightarrow>
      node_from_steps (durable st) x \<noteq> None \<and> \<not> prefix (path_steps p) x"
  using store_wf_node_delete [OF assms(1) valid_path(3) [OF assms(2)]]
    delete_steps_effect [OF valid_path(4) [OF assms(2)], of "durable st" x]
  by (simp_all add: node_delete_def)

section \<open>Properties\<close>

definition empty_store :: store where
  "empty_store = \<lparr>durable = node_default, outbox = Map.empty\<rparr>"

lemma empty_store_wf: "store_wf empty_store"
proof -
  have "marked node_default" by (simp add: marked_def marker_def node_default_def)
  then show ?thesis by (simp add: store_wf_def node_wf_def empty_store_def node_from_default)
qed

text \<open>
  C13: a value of any size below \<open>2 ^ 31\<close> bytes that is written with \<open>store_write_all\<close> is read back by
  \<open>store_read_all\<close>, although both go through chunks of 2048 bytes and whatever was stored before;
  both end, and the values at all other valid paths are unchanged.
\<close>

theorem store_write_read:
  assumes "store_wf st" "validate_path p = Inr ()" "length v < 2 ^ 31"
  shows "\<exists>st'. store_write_all st p v = (Inr (), st') \<and> store_wf st' \<and> store_read_all st' p = Some (Inr v) \<and>
    (\<forall>q. validate_path q = Inr () \<and> q \<noteq> p \<longrightarrow> maybe_get_value st' q = maybe_get_value st q)"
proof -
  have p: "writable p" using assms(2) by (simp add: writable_def)
  obtain st' where st': "store_write_all st p v = (Inr (), st')" "stored st (path_steps p) v st'"
    using write_all_stored [OF assms(1) p] by blast
  have wf: "store_wf st'" using st'(2) by (simp add: stored_def)
  have "vals (durable st') (path_steps p) = Some v"
    using st'(2) steps_not_marker [OF valid_path(3) [OF p]] by (simp add: stored_def)
  from read_all_value [OF wf p this assms(3)] have "store_read_all st' p = Some (Inr v)" .
  moreover have "maybe_get_value st' q = maybe_get_value st q" if q: "validate_path q = Inr ()" "q \<noteq> p" for q
  proof -
    have "writable q" using q(1) by (simp add: writable_def)
    then have "path_steps q \<noteq> path_steps p" "VALUE_NAME \<notin> set (path_steps q)"
      using q(2) p path_of_steps(1) [of p] path_of_steps(1) [of q] steps_not_marker [OF valid_path(3)]
      by (auto simp: writable_steps)
    with st'(2) show ?thesis by (simp add: stored_def maybe_get_value_vals)
  qed
  ultimately show ?thesis using st'(1) wf by blast
qed

theorem store_write_read_witness:
  "\<exists>st'. store_write_all empty_store (ascii ''/a/b'') (replicate 5000 7) = (Inr (), st') \<and>
     store_read_all st' (ascii ''/a/b'') = Some (Inr (replicate 5000 7))"
proof -
  have "validate_path (ascii ''/a/b'') = Inr ()" by code_simp
  from store_write_read [OF empty_store_wf this, of "replicate 5000 7"] show ?thesis by auto
qed

text \<open>
  C14: \<open>store_delete\<close> on a path where \<open>store_has\<close> finds nothing fails with \<open>PathNotFound\<close> and keeps
  the store; on every other valid path it succeeds, removes the values at the path and at every path
  below it and no other, however many empty parents it cleans up, and leaves nothing at the path.
\<close>

theorem store_delete_subtree:
  assumes "store_wf st" "validate_path p = Inr ()"
  shows "(store_has st p = Inr None \<longrightarrow> store_delete st p = (Inl PathNotFound, st)) \<and>
    (store_has st p \<noteq> Inr None \<longrightarrow>
      (\<exists>st'. store_delete st p = (Inr (), st') \<and> store_wf st' \<and> store_has st' p = Inr None \<and>
        (\<forall>q. validate_path q = Inr () \<longrightarrow> maybe_get_value st' q =
           (if prefix (path_steps p) (path_steps q) then None else maybe_get_value st q))))"
proof -
  have p: "writable p" using assms(2) by (simp add: writable_def)
  let ?v = "vals (durable st) (path_steps p)" and ?b = "bare (durable st) (path_steps p)"
  show ?thesis
  proof (cases "?v = None \<and> ?b")
    case True
    then show ?thesis by (simp add: store_delete_def check_exists_eq [OF assms(1) p] store_has_eq [OF assms(1) p])
  next
    case False
    then have d: "store_delete st p = (Inr (), node_delete st p)" "store_has st p \<noteq> Inr None"
      using delete_eq [OF assms(1) p] store_has_eq [OF assms(1) p] by auto
    note eff = node_delete_effect [OF assms(1) p]
    have "bare (durable (node_delete st p)) (path_steps p)"
      unfolding bare_def using eff(4) by (metis prefixI)
    then have "store_has (node_delete st p) p = Inr None"
      using eff(3) [of "path_steps p"] by (simp add: store_has_eq [OF eff(1) p])
    with d eff show ?thesis by (simp add: maybe_get_value_vals)
  qed
qed

definition one_value :: store where
  "one_value = set_value empty_store (ascii ''/a/b'') [1]"

theorem store_delete_subtree_witness:
  "maybe_get_value one_value (ascii ''/a/b'') = Some [1] \<and>
   fst (store_delete one_value (ascii ''/a'')) = Inr () \<and>
   maybe_get_value (snd (store_delete one_value (ascii ''/a''))) (ascii ''/a/b'') = None \<and>
   store_delete one_value (ascii ''/b'') = (Inl PathNotFound, one_value)"
proof -
  have wf: "store_wf one_value"
    unfolding one_value_def by (rule store_wf_set_value [OF empty_store_wf]) code_simp
  have valid: "validate_path (ascii ''/a'') = Inr ()" "validate_path (ascii ''/a/b'') = Inr ()"
      "validate_path (ascii ''/b'') = Inr ()"
    and pre: "prefix (path_steps (ascii ''/a'')) (path_steps (ascii ''/a/b''))"
    and v: "maybe_get_value one_value (ascii ''/a/b'') = Some [1]"
    and has: "store_has one_value (ascii ''/a'') \<noteq> Inr None" "store_has one_value (ascii ''/b'') = Inr None"
    by code_simp+
  from store_delete_subtree [OF wf valid(1)] has(1) obtain st' where
    "store_delete one_value (ascii ''/a'') = (Inr (), st')" "maybe_get_value st' (ascii ''/a/b'') = None"
    using valid(2) pre by auto
  with v store_delete_subtree [OF wf valid(3)] has(2) show ?thesis by simp
qed

end
