(* ===== verification/EVM_Linked_List.thy ===== *)
theory EVM_Linked_List
  imports SDK_Runtime
begin

text \<open>
  The doubly linked list in durable storage of the EVM kernel
  (\<^verbatim>\<open>etherlink/kernel_evm/kernel/src/linked_list.rs\<close>), with the storage helpers
  (\<^verbatim>\<open>kernel/src/storage.rs\<close>) and the RLP helpers (\<^verbatim>\<open>ethereum/src/rlp_helpers.rs\<close>) it uses. The list is
  generic over the host, as in the source, and over its elements; its identifiers are the hashes
  of 32 bytes of the delayed inbox. The operations are shown to implement operations on a heap of
  pointers, and these to implement a list.
\<close>

section \<open>RLP items\<close>

text \<open>
  The crates \<open>rlp\<close> and \<open>hex\<close> are external: the bytes of an item, the item that a decoder sees in
  bytes, and the text of a hash are parameters, as is the encoding of the elements.
\<close>

datatype rlp = RData bytes | RList "rlp list"

datatype DecoderError =
    RlpExpectedToBeList
  | RlpInvalidLength
  | RlpIncorrectListLen
  | RlpExpectedToBeData
  | Custom string

record 'e crates =
  hex_encode :: "bytes \<Rightarrow> bytes"
  rlp_bytes :: "rlp \<Rightarrow> bytes"
  rlp_view :: "bytes \<Rightarrow> DecoderError + rlp"
  elt_encode :: "'e \<Rightarrow> rlp"
  elt_decode :: "rlp \<Rightarrow> DecoderError + 'e"

definition is_empty_item :: "rlp \<Rightarrow> bool" where
  "is_empty_item x \<longleftrightarrow> x = RData [] \<or> x = RList []"

text \<open>\<open>as_val\<close> for bytes.\<close>

definition as_bytes :: "rlp \<Rightarrow> DecoderError + bytes" where
  "as_bytes x = (case x of RData b \<Rightarrow> Inr b | RList _ \<Rightarrow> Inl RlpExpectedToBeData)"

definition decode_field :: "(rlp \<Rightarrow> DecoderError + 'a) \<Rightarrow> rlp \<Rightarrow> string \<Rightarrow> DecoderError + 'a" where
  "decode_field dec x field_name = (case dec x of Inl _ \<Rightarrow> Inl (Custom field_name) | Inr v \<Rightarrow> Inr v)"

definition decode_option :: "(rlp \<Rightarrow> DecoderError + 'a) \<Rightarrow> rlp \<Rightarrow> string \<Rightarrow> DecoderError + 'a option" where
  "decode_option dec x field_name =
     (if is_empty_item x then Inr None
      else case decode_field dec x field_name of Inl e \<Rightarrow> Inl e | Inr v \<Rightarrow> Inr (Some v))"

definition append_option :: "('a \<Rightarrow> rlp) \<Rightarrow> 'a option \<Rightarrow> rlp" where
  "append_option enc v = (case v of Some v \<Rightarrow> enc v | None \<Rightarrow> RData [])"

text \<open>The hash of a transaction.\<close>

definition TRANSACTION_HASH_SIZE :: nat where
  "TRANSACTION_HASH_SIZE = 32"

definition hash_encode :: "bytes \<Rightarrow> rlp" where
  "hash_encode h = RData h"

definition hash_decode :: "rlp \<Rightarrow> DecoderError + bytes" where
  "hash_decode x =
     (case as_bytes x of
        Inl e \<Rightarrow> Inl e
      | Inr h \<Rightarrow>
          if length h = TRANSACTION_HASH_SIZE then Inr h
          else Inl (Custom ''expected a vec of 32 elements''))"

section \<open>Pointers and lists\<close>

record Pointer =
  ptr_id :: bytes
  ptr_previous :: "bytes option"
  ptr_next :: "bytes option"

record LinkedListPointer =
  llp_front :: Pointer
  llp_back :: Pointer

record LinkedList =
  ll_path :: bytes
  pointers :: "LinkedListPointer option"

definition pointer_encode :: "Pointer \<Rightarrow> rlp" where
  "pointer_encode p =
     RList [hash_encode (ptr_id p), append_option hash_encode (ptr_previous p),
            append_option hash_encode (ptr_next p)]"

text \<open>Sequencing of decoders.\<close>

definition dbind :: "'x + 'a \<Rightarrow> ('a \<Rightarrow> 'x + 'b) \<Rightarrow> 'x + 'b" where
  "dbind r f = (case r of Inl e \<Rightarrow> Inl e | Inr v \<Rightarrow> f v)"

definition pointer_decode :: "rlp \<Rightarrow> DecoderError + Pointer" where
  "pointer_decode x =
     (case x of
        RData _ \<Rightarrow> Inl RlpExpectedToBeList
      | RList items \<Rightarrow>
          (case items of
             [i, p, n] \<Rightarrow>
               dbind (decode_field hash_decode i ''id'') (\<lambda>key.
               dbind (decode_option hash_decode p ''previous'') (\<lambda>previous.
               dbind (decode_option hash_decode n ''next'') (\<lambda>next.
               Inr \<lparr>ptr_id = key, ptr_previous = previous, ptr_next = next\<rparr>)))
           | _ \<Rightarrow> Inl RlpInvalidLength))"

definition list_pointer_encode :: "LinkedListPointer \<Rightarrow> rlp" where
  "list_pointer_encode p = RList [pointer_encode (llp_front p), pointer_encode (llp_back p)]"

definition list_pointer_decode :: "rlp \<Rightarrow> DecoderError + LinkedListPointer" where
  "list_pointer_decode x =
     (case x of
        RData _ \<Rightarrow> Inl RlpExpectedToBeList
      | RList items \<Rightarrow>
          (case items of
             [f, b] \<Rightarrow>
               dbind (decode_field pointer_decode f ''front'') (\<lambda>front.
               dbind (decode_field pointer_decode b ''back'') (\<lambda>back.
               Inr \<lparr>llp_front = front, llp_back = back\<rparr>))
           | _ \<Rightarrow> Inl RlpInvalidLength))"

definition decode_path :: "rlp \<Rightarrow> string \<Rightarrow> DecoderError + bytes" where
  "decode_path x field_name =
     dbind (decode_field as_bytes x field_name) (\<lambda>path.
       case path_try_from path of Inl _ \<Rightarrow> Inl (Custom ''not a path'') | Inr p \<Rightarrow> Inr p)"

definition list_encode :: "LinkedList \<Rightarrow> rlp" where
  "list_encode l = RList [RData (ll_path l), append_option list_pointer_encode (pointers l)]"

definition list_decode :: "rlp \<Rightarrow> DecoderError + LinkedList" where
  "list_decode x =
     (case x of
        RData _ \<Rightarrow> Inl RlpExpectedToBeList
      | RList items \<Rightarrow>
          (case items of
             [p, ps] \<Rightarrow>
               dbind (decode_path p ''path'') (\<lambda>path.
               dbind (decode_option list_pointer_decode ps ''pointers'') (\<lambda>pointers.
               Inr \<lparr>ll_path = path, pointers = pointers\<rparr>))
           | _ \<Rightarrow> Inl RlpIncorrectListLen))"

section \<open>Storage helpers\<close>

text \<open>
  The functions of the trait \<open>Runtime\<close> that the list calls. A read of the host that does not end is
  \<open>None\<close>; results are computations that may not end, fail or return.
\<close>

record 'h runtime =
  rt_has :: "'h \<Rightarrow> bytes \<Rightarrow> RuntimeError + ValueType option"
  rt_read_all :: "'h \<Rightarrow> bytes \<Rightarrow> (RuntimeError + bytes) option"
  rt_write_all :: "'h \<Rightarrow> bytes \<Rightarrow> bytes \<Rightarrow> (RuntimeError + unit) \<times> 'h"
  rt_delete :: "'h \<Rightarrow> bytes \<Rightarrow> (RuntimeError + unit) \<times> 'h"

datatype ll_error = PathErr PathError | RuntimeErr RuntimeError | DecoderErr DecoderError

type_synonym 'a res = "(ll_error + 'a) option"

abbreviation ok :: "'a \<Rightarrow> 'a res" where
  "ok v \<equiv> Some (Inr v)"

definition rbind2 :: "'a res \<Rightarrow> ('a \<Rightarrow> 'b res) \<Rightarrow> 'b res" where
  "rbind2 r f = (case r of None \<Rightarrow> None | Some (Inl e) \<Rightarrow> Some (Inl e) | Some (Inr v) \<Rightarrow> f v)"

text \<open>Sequencing of computations on the host: an error keeps the effects so far.\<close>

definition sbind :: "'a res \<times> 's \<Rightarrow> ('a \<Rightarrow> 's \<Rightarrow> 'b res \<times> 's) \<Rightarrow> 'b res \<times> 's" where
  "sbind r f =
     (case r of
        (None, s) \<Rightarrow> (None, s)
      | (Some (Inl e), s) \<Rightarrow> (Some (Inl e), s)
      | (Some (Inr v), s) \<Rightarrow> f v s)"

definition of_path :: "PathError + 'a \<Rightarrow> 'a res" where
  "of_path r = (case r of Inl e \<Rightarrow> Some (Inl (PathErr e)) | Inr v \<Rightarrow> ok v)"

definition of_runtime :: "RuntimeError + 'a \<Rightarrow> 'a res" where
  "of_runtime r = (case r of Inl e \<Rightarrow> Some (Inl (RuntimeErr e)) | Inr v \<Rightarrow> ok v)"

definition of_decoder :: "DecoderError + 'a \<Rightarrow> 'a res" where
  "of_decoder r = (case r of Inl e \<Rightarrow> Some (Inl (DecoderErr e)) | Inr v \<Rightarrow> ok v)"

definition store_rlp :: "'h runtime \<Rightarrow> 'e crates \<Rightarrow> rlp \<Rightarrow> 'h \<Rightarrow> bytes \<Rightarrow> unit res \<times> 'h" where
  "store_rlp rt cr src host path =
     (case rt_write_all rt host path (rlp_bytes cr src) of (r, host) \<Rightarrow> (of_runtime r, host))"

definition read_rlp ::
  "'h runtime \<Rightarrow> 'e crates \<Rightarrow> (rlp \<Rightarrow> DecoderError + 'a) \<Rightarrow> 'h \<Rightarrow> bytes \<Rightarrow> 'a res" where
  "read_rlp rt cr dec host path =
     (case rt_read_all rt host path of
        None \<Rightarrow> None
      | Some r \<Rightarrow>
          rbind2 (of_runtime r) (\<lambda>bytes.
          rbind2 (of_decoder (rlp_view cr bytes)) (\<lambda>x. of_decoder (dec x))))"

definition read_optional_rlp ::
  "'h runtime \<Rightarrow> 'e crates \<Rightarrow> (rlp \<Rightarrow> DecoderError + 'a) \<Rightarrow> 'h \<Rightarrow> bytes \<Rightarrow> 'a option res" where
  "read_optional_rlp rt cr dec host path =
     rbind2 (of_runtime (rt_has rt host path)) (\<lambda>v.
       if v = Some Value then rbind2 (read_rlp rt cr dec host path) (\<lambda>elt. ok (Some elt))
       else ok None)"

section \<open>Operations on pointers\<close>

text \<open>The path of a hash below the path of the list, with a suffix.\<close>

definition entry_path :: "'e crates \<Rightarrow> bytes \<Rightarrow> bytes \<Rightarrow> bytes \<Rightarrow> bytes res" where
  "entry_path cr key rest pfx =
     rbind2 (of_path (path_try_from (ascii ''/'' @ hex_encode cr key @ rest)))
       (\<lambda>path. of_path (path_concat pfx path))"

definition pointer_path :: "'e crates \<Rightarrow> bytes \<Rightarrow> bytes \<Rightarrow> bytes res" where
  "pointer_path cr key pfx = entry_path cr key (ascii ''/pointer'') pfx"

definition ptr_path :: "'e crates \<Rightarrow> Pointer \<Rightarrow> bytes \<Rightarrow> bytes res" where
  "ptr_path cr p pfx = pointer_path cr (ptr_id p) pfx"

definition data_path :: "'e crates \<Rightarrow> Pointer \<Rightarrow> bytes \<Rightarrow> bytes res" where
  "data_path cr p pfx = entry_path cr (ptr_id p) (ascii ''/data'') pfx"

text \<open>Continue with a path, or fail without touching the host.\<close>

definition with_path :: "bytes res \<Rightarrow> 's \<Rightarrow> (bytes \<Rightarrow> 'a res \<times> 's) \<Rightarrow> 'a res \<times> 's" where
  "with_path p s f = sbind (p, s) (\<lambda>path _. f path)"

definition save_data :: "'h runtime \<Rightarrow> 'e crates \<Rightarrow> Pointer \<Rightarrow> 'h \<Rightarrow> bytes \<Rightarrow> 'e \<Rightarrow> unit res \<times> 'h" where
  "save_data rt cr p host pfx data =
     with_path (data_path cr p pfx) host (\<lambda>path. store_rlp rt cr (elt_encode cr data) host path)"

definition get_data :: "'h runtime \<Rightarrow> 'e crates \<Rightarrow> Pointer \<Rightarrow> 'h \<Rightarrow> bytes \<Rightarrow> 'e res" where
  "get_data rt cr p host pfx =
     rbind2 (data_path cr p pfx) (\<lambda>path. read_rlp rt cr (elt_decode cr) host path)"

definition pointer_read :: "'h runtime \<Rightarrow> 'e crates \<Rightarrow> 'h \<Rightarrow> bytes \<Rightarrow> bytes \<Rightarrow> Pointer option res" where
  "pointer_read rt cr host pfx key =
     rbind2 (pointer_path cr key pfx) (\<lambda>path. read_optional_rlp rt cr pointer_decode host path)"

definition pointer_save :: "'h runtime \<Rightarrow> 'e crates \<Rightarrow> Pointer \<Rightarrow> 'h \<Rightarrow> bytes \<Rightarrow> unit res \<times> 'h" where
  "pointer_save rt cr p host pfx =
     with_path (ptr_path cr p pfx) host (\<lambda>path. store_rlp rt cr (pointer_encode p) host path)"

definition remove_with_data :: "'h runtime \<Rightarrow> 'e crates \<Rightarrow> Pointer \<Rightarrow> 'h \<Rightarrow> bytes \<Rightarrow> unit res \<times> 'h" where
  "remove_with_data rt cr p host pfx =
     with_path (entry_path cr (ptr_id p) [] pfx) host (\<lambda>path.
       case rt_delete rt host path of (r, host) \<Rightarrow> (of_runtime r, host))"

section \<open>Operations on lists\<close>

definition metadata_path :: "bytes \<Rightarrow> bytes res" where
  "metadata_path root =
     rbind2 (of_path (path_try_from (ascii ''/meta''))) (\<lambda>meta_path. of_path (path_concat root meta_path))"

definition list_save :: "'h runtime \<Rightarrow> 'e crates \<Rightarrow> LinkedList \<Rightarrow> 'h \<Rightarrow> unit res \<times> 'h" where
  "list_save rt cr l host =
     with_path (metadata_path (ll_path l)) host (\<lambda>path. store_rlp rt cr (list_encode l) host path)"

definition list_read :: "'h runtime \<Rightarrow> 'e crates \<Rightarrow> 'h \<Rightarrow> bytes \<Rightarrow> LinkedList option res" where
  "list_read rt cr host path =
     rbind2 (metadata_path path) (\<lambda>path. read_optional_rlp rt cr list_decode host path)"

definition list_new :: "'h runtime \<Rightarrow> 'e crates \<Rightarrow> bytes \<Rightarrow> 'h \<Rightarrow> LinkedList res" where
  "list_new rt cr path host =
     rbind2 (list_read rt cr host path) (\<lambda>l.
       ok (case l of Some l \<Rightarrow> l | None \<Rightarrow> \<lparr>ll_path = path, pointers = None\<rparr>))"

definition list_is_empty :: "LinkedList \<Rightarrow> bool" where
  "list_is_empty l \<longleftrightarrow> pointers l = None"

text \<open>The state of a method with a mutable receiver is the list and the host.\<close>

type_synonym 'h lstate = "LinkedList \<times> 'h"

text \<open>A call that changes only the host.\<close>

definition on_host :: "unit res \<times> 'h \<Rightarrow> LinkedList \<Rightarrow> unit res \<times> 'h lstate" where
  "on_host r l = (case r of (v, host) \<Rightarrow> (v, (l, host)))"

definition list_push :: "'h runtime \<Rightarrow> 'e crates \<Rightarrow> 'h lstate \<Rightarrow> bytes \<Rightarrow> 'e \<Rightarrow> unit res \<times> 'h lstate" where
  "list_push rt cr s key elt =
     (case s of
        (l, host) \<Rightarrow>
          sbind (pointer_read rt cr host (ll_path l) key, s) (\<lambda>existing s.
          if existing \<noteq> None then (ok (), s)
          else
            sbind
              (case pointers l of
                 Some ps \<Rightarrow>
                   (let penultimate = (llp_back ps)\<lparr>ptr_next := Some key\<rparr>;
                        back = \<lparr>ptr_id = key, ptr_previous = Some (ptr_id penultimate), ptr_next = None\<rparr>
                    in sbind (on_host (pointer_save rt cr penultimate host (ll_path l)) l) (\<lambda>_ (l, host).
                       sbind (on_host (pointer_save rt cr back host (ll_path l)) l) (\<lambda>_ (l, host).
                       sbind (on_host (save_data rt cr back host (ll_path l) elt) l) (\<lambda>_ (l, host).
                       (ok (), (l\<lparr>pointers := Some \<lparr>llp_front = llp_front ps, llp_back = back\<rparr>\<rparr>, host))))))
               | None \<Rightarrow>
                   (let back = \<lparr>ptr_id = key, ptr_previous = None, ptr_next = None\<rparr>
                    in sbind (on_host (pointer_save rt cr back host (ll_path l)) l) (\<lambda>_ (l, host).
                       sbind (on_host (save_data rt cr back host (ll_path l) elt) l) (\<lambda>_ (l, host).
                       (ok (), (l\<lparr>pointers := Some \<lparr>llp_front = back, llp_back = back\<rparr>\<rparr>, host))))))
              (\<lambda>_ (l, host). on_host (list_save rt cr l host) l)))"

definition list_find :: "'h runtime \<Rightarrow> 'e crates \<Rightarrow> 'h lstate \<Rightarrow> bytes \<Rightarrow> 'e option res" where
  "list_find rt cr s key =
     (case s of
        (l, host) \<Rightarrow>
          rbind2 (pointer_read rt cr host (ll_path l) key) (\<lambda>pointer.
            case pointer of
              None \<Rightarrow> ok None
            | Some p \<Rightarrow>
                rbind2 (data_path cr p (ll_path l)) (\<lambda>path.
                  read_optional_rlp rt cr (elt_decode cr) host path)))"

text \<open>The pointer that an optional hash refers to.\<close>

definition read_neighbour ::
  "'h runtime \<Rightarrow> 'e crates \<Rightarrow> 'h \<Rightarrow> bytes \<Rightarrow> bytes option \<Rightarrow> Pointer option res" where
  "read_neighbour rt cr host pfx key =
     (case key of Some key \<Rightarrow> pointer_read rt cr host pfx key | None \<Rightarrow> ok None)"

text \<open>The update of the neighbours and of the pointers of the list.\<close>

definition unlink ::
  "'h runtime \<Rightarrow> 'e crates \<Rightarrow> LinkedListPointer \<Rightarrow> Pointer option \<Rightarrow> Pointer option \<Rightarrow> 'h lstate \<Rightarrow>
     unit res \<times> 'h lstate" where
  "unlink rt cr ps previous nxt s =
     (case s of
        (l, host) \<Rightarrow>
          (case (previous, nxt) of
             (None, None) \<Rightarrow> (ok (), (l\<lparr>pointers := None\<rparr>, host))
           | (None, Some nxt) \<Rightarrow>
               (let new_front = nxt\<lparr>ptr_previous := None\<rparr>
                in sbind (on_host (pointer_save rt cr new_front host (ll_path l)) l) (\<lambda>_ (l, host).
                   (ok (), (l\<lparr>pointers := Some \<lparr>llp_front = new_front, llp_back = llp_back ps\<rparr>\<rparr>, host))))
           | (Some previous, None) \<Rightarrow>
               (let new_back = previous\<lparr>ptr_next := None\<rparr>
                in sbind (on_host (pointer_save rt cr new_back host (ll_path l)) l) (\<lambda>_ (l, host).
                   (ok (), (l\<lparr>pointers := Some \<lparr>llp_front = llp_front ps, llp_back = new_back\<rparr>\<rparr>, host))))
           | (Some previous, Some nxt) \<Rightarrow>
               (let new_previous = previous\<lparr>ptr_next := Some (ptr_id nxt)\<rparr>;
                    new_next = nxt\<lparr>ptr_previous := Some (ptr_id previous)\<rparr>
                in sbind (on_host (pointer_save rt cr new_previous host (ll_path l)) l) (\<lambda>_ (l, host).
                   sbind (on_host (pointer_save rt cr new_next host (ll_path l)) l) (\<lambda>_ (l, host).
                   (ok (), (l, host)))))))"

definition list_remove :: "'h runtime \<Rightarrow> 'e crates \<Rightarrow> 'h lstate \<Rightarrow> bytes \<Rightarrow> 'e option res \<times> 'h lstate" where
  "list_remove rt cr s key =
     (case s of
        (l, host) \<Rightarrow>
          (case pointers l of
             None \<Rightarrow> (ok None, s)
           | Some ps \<Rightarrow>
               sbind (pointer_read rt cr host (ll_path l) key, s) (\<lambda>pointer s.
                 case pointer of
                   None \<Rightarrow> (ok None, s)
                 | Some pointer \<Rightarrow>
                     sbind (read_neighbour rt cr host (ll_path l) (ptr_previous pointer), s) (\<lambda>previous s.
                     sbind (read_neighbour rt cr host (ll_path l) (ptr_next pointer), s) (\<lambda>nxt s.
                     sbind (get_data rt cr pointer host (ll_path l), s) (\<lambda>data s.
                     sbind (on_host (remove_with_data rt cr pointer host (ll_path l)) l) (\<lambda>_ s.
                     sbind (unlink rt cr ps previous nxt s) (\<lambda>_ (l, host).
                     sbind (on_host (list_save rt cr l host) l) (\<lambda>_ s.
                     (ok (Some data), s))))))))))"

definition list_first :: "'h runtime \<Rightarrow> 'e crates \<Rightarrow> 'h lstate \<Rightarrow> 'e option res" where
  "list_first rt cr s =
     (case s of
        (l, host) \<Rightarrow>
          (case pointers l of
             None \<Rightarrow> ok None
           | Some ps \<Rightarrow> rbind2 (get_data rt cr (llp_front ps) host (ll_path l)) (\<lambda>e. ok (Some e))))"

definition list_first_with_id :: "'h runtime \<Rightarrow> 'e crates \<Rightarrow> 'h lstate \<Rightarrow> (bytes \<times> 'e) option res" where
  "list_first_with_id rt cr s =
     (case s of
        (l, host) \<Rightarrow>
          (case pointers l of
             None \<Rightarrow> ok None
           | Some ps \<Rightarrow>
               rbind2 (get_data rt cr (llp_front ps) host (ll_path l))
                 (\<lambda>e. ok (Some (ptr_id (llp_front ps), e)))))"

definition list_pop_first :: "'h runtime \<Rightarrow> 'e crates \<Rightarrow> 'h lstate \<Rightarrow> 'e option res \<times> 'h lstate" where
  "list_pop_first rt cr s =
     (case pointers (fst s) of
        None \<Rightarrow> (ok None, s)
      | Some ps \<Rightarrow> list_remove rt cr s (ptr_id (llp_front ps)))"

definition list_delete :: "'h runtime \<Rightarrow> 'e crates \<Rightarrow> 'h lstate \<Rightarrow> unit res \<times> 'h lstate" where
  "list_delete rt cr s =
     (case s of
        (l, host) \<Rightarrow>
          sbind (of_runtime (rt_has rt host (ll_path l)), s) (\<lambda>v s.
          sbind
            (if v \<noteq> None
             then on_host (case rt_delete rt host (ll_path l) of (r, host) \<Rightarrow> (of_runtime r, host)) l
             else (ok (), s))
            (\<lambda>_ (l, host). (ok (), (l\<lparr>pointers := None\<rparr>, host)))))"

section \<open>The in-memory host\<close>

definition memory_runtime :: "store runtime" where
  "memory_runtime =
     \<lparr>rt_has = store_has, rt_read_all = store_read_all, rt_write_all = store_write_all,
      rt_delete = store_delete\<rparr>"

section \<open>Assumptions on the external crates\<close>

text \<open>An RLP item takes at most nine bytes for each header.\<close>

fun rlp_weight :: "rlp \<Rightarrow> nat" where
  "rlp_weight (RData b) = 9 + length b"
| "rlp_weight (RList xs) = 9 + sum_list (map rlp_weight xs)"

definition is_hash :: "bytes \<Rightarrow> bool" where
  "is_hash k \<longleftrightarrow> length k = TRANSACTION_HASH_SIZE"

text \<open>
  \<open>hex\<close> writes two digits for each byte and different bytes differently; \<open>rlp\<close> decodes what it has
  encoded, with headers of at most nine bytes (items under two gigabytes); elements decode from their encoding.
\<close>

definition crates_ok :: "'e crates \<Rightarrow> bool" where
  "crates_ok cr \<longleftrightarrow>
     (\<forall>k. is_hash k \<longrightarrow> step_ok (hex_encode cr k) \<and> length (hex_encode cr k) = 2 * length k) \<and>
     (\<forall>k k'. is_hash k \<longrightarrow> is_hash k' \<longrightarrow> hex_encode cr k = hex_encode cr k' \<longrightarrow> k = k') \<and>
     (\<forall>x. rlp_weight x < 2 ^ 31 \<longrightarrow>
        rlp_view cr (rlp_bytes cr x) = Inr x \<and> length (rlp_bytes cr x) \<le> rlp_weight x) \<and>
     (\<forall>e. elt_decode cr (elt_encode cr e) = Inr e)"

definition ptr_ok :: "Pointer \<Rightarrow> bool" where
  "ptr_ok p \<longleftrightarrow> is_hash (ptr_id p) \<and> (case ptr_previous p of None \<Rightarrow> True | Some k \<Rightarrow> is_hash k) \<and>
     (case ptr_next p of None \<Rightarrow> True | Some k \<Rightarrow> is_hash k)"

definition ends_ok :: "LinkedListPointer option \<Rightarrow> bool" where
  "ends_ok ps \<longleftrightarrow> (case ps of None \<Rightarrow> True | Some ps \<Rightarrow> ptr_ok (llp_front ps) \<and> ptr_ok (llp_back ps))"

definition elt_fits :: "'e crates \<Rightarrow> 'e \<Rightarrow> bool" where
  "elt_fits cr e \<longleftrightarrow> rlp_weight (elt_encode cr e) < 2 ^ 31"

lemma hash_roundtrip: "is_hash k \<Longrightarrow> hash_decode (hash_encode k) = Inr k"
  by (simp add: hash_decode_def hash_encode_def as_bytes_def is_hash_def)

lemma hash_option_roundtrip:
  "(case v of None \<Rightarrow> True | Some k \<Rightarrow> is_hash k) \<Longrightarrow>
     decode_option hash_decode (append_option hash_encode v) field = Inr v"
proof (cases v)
  case None
  then show ?thesis by (simp add: decode_option_def append_option_def is_empty_item_def)
next
  case (Some k)
  moreover assume "case v of None \<Rightarrow> True | Some k \<Rightarrow> is_hash k"
  ultimately have "is_hash k" "\<not> is_empty_item (hash_encode k)"
    by (auto simp: is_empty_item_def hash_encode_def is_hash_def TRANSACTION_HASH_SIZE_def)
  with Some show ?thesis by (simp add: decode_option_def append_option_def decode_field_def hash_roundtrip)
qed

lemma pointer_roundtrip: "ptr_ok p \<Longrightarrow> pointer_decode (pointer_encode p) = Inr p"
  by (simp add: ptr_ok_def pointer_decode_def pointer_encode_def dbind_def decode_field_def
      hash_roundtrip hash_option_roundtrip)

lemma list_roundtrip:
  assumes "ends_ok (pointers l)" "writable (ll_path l)"
  shows "list_decode (list_encode l) = Inr l"
proof (cases "pointers l")
  case None
  with assms show ?thesis
    by (simp add: list_decode_def list_encode_def decode_path_def decode_field_def as_bytes_def dbind_def
        path_try_from_def writable_def decode_option_def append_option_def is_empty_item_def)
next
  case (Some ps)
  with assms have "pointer_decode (pointer_encode (llp_front ps)) = Inr (llp_front ps)"
    "pointer_decode (pointer_encode (llp_back ps)) = Inr (llp_back ps)"
    by (simp_all add: ends_ok_def pointer_roundtrip)
  with Some assms show ?thesis
    by (simp add: list_decode_def list_encode_def decode_path_def decode_field_def as_bytes_def dbind_def
        path_try_from_def writable_def decode_option_def append_option_def is_empty_item_def
        list_pointer_decode_def list_pointer_encode_def)
qed

lemma pointer_weight: "ptr_ok p \<Longrightarrow> rlp_weight (pointer_encode p) \<le> 132"
  by (auto simp: pointer_encode_def hash_encode_def append_option_def ptr_ok_def is_hash_def
      TRANSACTION_HASH_SIZE_def split: option.splits)

lemma list_weight:
  assumes "ends_ok (pointers l)" "writable (ll_path l)"
  shows "rlp_weight (list_encode l) \<le> 1000"
proof -
  have "length (ll_path l) \<le> 242"
    using assms(2) by (simp add: writable_steps path_ok_grammar PATH_MAX_SIZE_eq)
  with assms(1) pointer_weight show ?thesis
    by (fastforce simp: list_encode_def append_option_def list_pointer_encode_def ends_ok_def
        split: option.splits dest: pointer_weight)
qed

section \<open>Paths of a list\<close>

definition ptr_steps :: "'e crates \<Rightarrow> bytes \<Rightarrow> bytes \<Rightarrow> bytes list" where
  "ptr_steps cr root k = path_steps root @ [hex_encode cr k, ascii ''pointer'']"

definition dat_steps :: "'e crates \<Rightarrow> bytes \<Rightarrow> bytes \<Rightarrow> bytes list" where
  "dat_steps cr root k = path_steps root @ [hex_encode cr k, ascii ''data'']"

definition dir_steps :: "'e crates \<Rightarrow> bytes \<Rightarrow> bytes \<Rightarrow> bytes list" where
  "dir_steps cr root k = path_steps root @ [hex_encode cr k]"

definition meta_steps :: "bytes \<Rightarrow> bytes list" where
  "meta_steps root = path_steps root @ [ascii ''meta'']"

text \<open>A path that leaves room for the paths of the entries.\<close>

definition root_ok :: "bytes \<Rightarrow> bool" where
  "root_ok root \<longleftrightarrow> writable root \<and> length root \<le> 169"

lemma join_path:
  assumes "root_ok root" "list_all step_ok ss" "ss \<noteq> []" "hd ss \<noteq> tl READONLY" "length (path_of ss) \<le> 73"
  shows "\<exists>p. rbind2 (of_path (path_try_from (path_of ss))) (\<lambda>path. of_path (path_concat root path)) = ok p \<and>
    writable p \<and> path_steps p = path_steps root @ ss"
proof -
  have "path_ok (path_of ss)" using assms by (auto simp: path_ok_grammar PATH_MAX_SIZE_eq)
  then have w: "writable (path_of ss)" "path_steps (path_of ss) = ss"
    using assms by (simp_all add: writable_steps path_steps_path_of)
  have root: "writable root" "path_ok root" "length (root @ path_of ss) \<le> PATH_MAX_SIZE"
    using assms by (auto simp: root_ok_def writable_steps PATH_MAX_SIZE_eq)
  with w writable_concat [OF root(1) \<open>path_ok (path_of ss)\<close> root(3)]
    path_ok_concat(2) [OF root(2) \<open>path_ok (path_of ss)\<close> root(3)]
  show ?thesis
    by (simp add: rbind2_def of_path_def path_try_from_def writable_def path_concat_def Let_def)
qed

lemma entry_steps_ok:
  assumes "crates_ok cr" "is_hash k"
  shows "list_all step_ok [hex_encode cr k]" "list_all step_ok [hex_encode cr k, ascii ''pointer'']"
    and "list_all step_ok [hex_encode cr k, ascii ''data'']" "length (hex_encode cr k) = 64"
proof -
  have "step_ok (hex_encode cr k)" and len: "length (hex_encode cr k) = 64"
    using assms by (auto simp: crates_ok_def is_hash_def TRANSACTION_HASH_SIZE_def)
  moreover have "step_ok (ascii ''pointer'')" "step_ok (ascii ''data'')" by code_simp+
  ultimately show "list_all step_ok [hex_encode cr k]" "list_all step_ok [hex_encode cr k, ascii ''pointer'']"
    "list_all step_ok [hex_encode cr k, ascii ''data'']" "length (hex_encode cr k) = 64"
    by simp_all
qed

lemma hex_not_readonly:
  assumes "crates_ok cr" "is_hash k"
  shows "hex_encode cr k \<noteq> tl READONLY" "hex_encode cr k \<noteq> ascii ''meta''"
  using entry_steps_ok(4) [OF assms] by (auto simp: READONLY_def ascii_def)

lemma entry_paths:
  assumes "crates_ok cr" "root_ok root" "is_hash k"
  shows "\<exists>p. pointer_path cr k root = ok p \<and> writable p \<and> path_steps p = ptr_steps cr root k"
    and "\<exists>p. entry_path cr k (ascii ''/data'') root = ok p \<and> writable p \<and> path_steps p = dat_steps cr root k"
    and "\<exists>p. entry_path cr k [] root = ok p \<and> writable p \<and> path_steps p = dir_steps cr root k"
proof -
  note st = entry_steps_ok [OF assms(1,3)] and ro = hex_not_readonly(1) [OF assms(1,3)]
  let ?h = "hex_encode cr k"
  have a: "ascii ''/'' @ ?h @ ascii ''/pointer'' = path_of [?h, ascii ''pointer'']"
    "ascii ''/'' @ ?h @ ascii ''/data'' = path_of [?h, ascii ''data'']"
    "ascii ''/'' @ ?h @ [] = path_of [?h]"
    by (simp_all add: ascii_def PATH_SEPARATOR_def)
  have l: "length (path_of [?h, ascii ''pointer'']) \<le> 73" "length (path_of [?h, ascii ''data'']) \<le> 73"
    "length (path_of [?h]) \<le> 73"
    using st(4) by (simp_all add: ascii_def)
  show "\<exists>p. pointer_path cr k root = ok p \<and> writable p \<and> path_steps p = ptr_steps cr root k"
    using join_path [OF assms(2) st(2) _ _ l(1)] ro
    unfolding pointer_path_def entry_path_def a ptr_steps_def by simp
  show "\<exists>p. entry_path cr k (ascii ''/data'') root = ok p \<and> writable p \<and> path_steps p = dat_steps cr root k"
    using join_path [OF assms(2) st(3) _ _ l(2)] ro unfolding entry_path_def a dat_steps_def by simp
  show "\<exists>p. entry_path cr k [] root = ok p \<and> writable p \<and> path_steps p = dir_steps cr root k"
    using join_path [OF assms(2) st(1) _ _ l(3)] ro unfolding entry_path_def a dir_steps_def by simp
qed

lemma meta_path:
  assumes "root_ok root"
  shows "\<exists>p. metadata_path root = ok p \<and> writable p \<and> path_steps p = meta_steps root"
proof -
  have "ascii ''/meta'' = path_of [ascii ''meta'']" "list_all step_ok [ascii ''meta'']"
    "ascii ''meta'' \<noteq> tl READONLY" "length (path_of [ascii ''meta'']) \<le> 73" by code_simp+
  with join_path [OF assms, of "[ascii ''meta'']"] show ?thesis
    unfolding metadata_path_def meta_steps_def by simp
qed

text \<open>The paths of different entries do not overlap.\<close>

lemma steps_apart:
  assumes "crates_ok cr" "is_hash k" "is_hash k'"
  shows "ptr_steps cr root k = ptr_steps cr root k' \<longleftrightarrow> k = k'"
    and "dat_steps cr root k = dat_steps cr root k' \<longleftrightarrow> k = k'"
    and "ptr_steps cr root k \<noteq> dat_steps cr root k'" "ptr_steps cr root k \<noteq> meta_steps root"
    and "dat_steps cr root k \<noteq> meta_steps root"
    and "prefix (dir_steps cr root k) (ptr_steps cr root k') \<longleftrightarrow> k = k'"
    and "prefix (dir_steps cr root k) (dat_steps cr root k') \<longleftrightarrow> k = k'"
    and "\<not> prefix (dir_steps cr root k) (meta_steps root)"
    and "\<not> strict_prefix (ptr_steps cr root k') (ptr_steps cr root k)"
    and "\<not> strict_prefix (dat_steps cr root k') (ptr_steps cr root k)"
    and "\<not> strict_prefix (ptr_steps cr root k') (dat_steps cr root k)"
    and "\<not> strict_prefix (dat_steps cr root k') (dat_steps cr root k)"
    and "\<not> strict_prefix (meta_steps root) (ptr_steps cr root k)"
    and "\<not> strict_prefix (meta_steps root) (dat_steps cr root k)"
    and "\<not> strict_prefix (ptr_steps cr root k) (meta_steps root)"
    and "\<not> strict_prefix (dat_steps cr root k) (meta_steps root)"
    and "strict_prefix (dir_steps cr root k) (ptr_steps cr root k)"
proof -
  have inj: "hex_encode cr k = hex_encode cr k' \<longleftrightarrow> k = k'" using assms unfolding crates_ok_def by blast
  have ne: "ascii ''pointer'' \<noteq> ascii ''data''" by code_simp
  note m = hex_not_readonly(2) [OF assms(1,2)] hex_not_readonly(2) [OF assms(1,3)]
  note d = ptr_steps_def dat_steps_def dir_steps_def meta_steps_def strict_prefix_def
  show "ptr_steps cr root k = ptr_steps cr root k' \<longleftrightarrow> k = k'"
    "dat_steps cr root k = dat_steps cr root k' \<longleftrightarrow> k = k'"
    "ptr_steps cr root k \<noteq> dat_steps cr root k'" "ptr_steps cr root k \<noteq> meta_steps root"
    "dat_steps cr root k \<noteq> meta_steps root"
    "prefix (dir_steps cr root k) (ptr_steps cr root k') \<longleftrightarrow> k = k'"
    "prefix (dir_steps cr root k) (dat_steps cr root k') \<longleftrightarrow> k = k'"
    "\<not> prefix (dir_steps cr root k) (meta_steps root)"
    "\<not> strict_prefix (ptr_steps cr root k') (ptr_steps cr root k)"
    "\<not> strict_prefix (dat_steps cr root k') (ptr_steps cr root k)"
    "\<not> strict_prefix (ptr_steps cr root k') (dat_steps cr root k)"
    "\<not> strict_prefix (dat_steps cr root k') (dat_steps cr root k)"
    "\<not> strict_prefix (meta_steps root) (ptr_steps cr root k)"
    "\<not> strict_prefix (meta_steps root) (dat_steps cr root k)"
    "\<not> strict_prefix (ptr_steps cr root k) (meta_steps root)"
    "\<not> strict_prefix (dat_steps cr root k) (meta_steps root)"
    "strict_prefix (dir_steps cr root k) (ptr_steps cr root k)"
    using inj ne m by (auto simp: d)
qed

section \<open>The contract of a host\<close>

text \<open>
  \<open>val\<close> is the value at a sequence of steps and \<open>sub\<close> tells whether something lies below it. The
  laws are those of a tree of values.
\<close>

locale durable_host =
  fixes rt :: "'h runtime" and inv :: "'h \<Rightarrow> bool"
    and val :: "'h \<Rightarrow> bytes list \<Rightarrow> bytes option" and sub :: "'h \<Rightarrow> bytes list \<Rightarrow> bool"
  assumes has: "inv h \<Longrightarrow> writable p \<Longrightarrow> rt_has rt h p = Inr
      (if val h (path_steps p) \<noteq> None then Some (if sub h (path_steps p) then ValueWithSubtree else Value)
       else if sub h (path_steps p) then Some Subtree else None)"
    and read_all: "inv h \<Longrightarrow> writable p \<Longrightarrow> val h (path_steps p) = Some v \<Longrightarrow> length v < 2 ^ 31 \<Longrightarrow>
      rt_read_all rt h p = Some (Inr v)"
    and read_none: "inv h \<Longrightarrow> writable p \<Longrightarrow> val h (path_steps p) = None \<Longrightarrow>
      \<exists>e. rt_read_all rt h p = Some (Inl e)"
    and write_all: "inv h \<Longrightarrow> writable p \<Longrightarrow>
      \<exists>h'. rt_write_all rt h p v = (Inr (), h') \<and> inv h' \<and>
        (\<forall>ss. list_all step_ok ss \<longrightarrow> val h' ss = (if ss = path_steps p then Some v else val h ss) \<and>
           (sub h' ss \<longleftrightarrow> sub h ss \<or> strict_prefix ss (path_steps p)))"
    and delete: "inv h \<Longrightarrow> writable p \<Longrightarrow> val h (path_steps p) \<noteq> None \<or> sub h (path_steps p) \<Longrightarrow>
      \<exists>h'. rt_delete rt h p = (Inr (), h') \<and> inv h' \<and>
        (\<forall>ss. list_all step_ok ss \<longrightarrow> val h' ss = (if prefix (path_steps p) ss then None else val h ss) \<and>
           (sub h' ss \<longrightarrow> sub h ss))"
    and below: "inv h \<Longrightarrow> list_all step_ok (ss @ ts) \<Longrightarrow> ts \<noteq> [] \<Longrightarrow>
      val h (ss @ ts) \<noteq> None \<or> sub h (ss @ ts) \<Longrightarrow> sub h ss"
begin

lemma read_rlp_val:
  assumes "inv h" "writable p" "crates_ok cr" "val h (path_steps p) = Some (rlp_bytes cr x)"
    and "rlp_weight x < 2 ^ 31"
  shows "read_rlp rt cr dec h p = of_decoder (dec x)"
proof -
  have "rlp_view cr (rlp_bytes cr x) = Inr x" "length (rlp_bytes cr x) < 2 ^ 31"
    using assms(3,5) by (auto simp: crates_ok_def intro: le_less_trans)
  with read_all [OF assms(1,2,4)] show ?thesis
    by (simp add: read_rlp_def rbind2_def of_runtime_def of_decoder_def)
qed

lemma read_optional_val:
  assumes "inv h" "writable p" "crates_ok cr" "\<not> sub h (path_steps p)"
    and "val h (path_steps p) = map_option (\<lambda>v. rlp_bytes cr (enc v)) x"
    and "\<And>v. x = Some v \<Longrightarrow> rlp_weight (enc v) < 2 ^ 31 \<and> dec (enc v) = Inr v"
  shows "read_optional_rlp rt cr dec h p = ok x"
proof (cases x)
  case None
  with assms(4,5) has [OF assms(1,2)] show ?thesis
    by (simp add: read_optional_rlp_def rbind2_def of_runtime_def)
next
  case (Some v)
  with assms(4,5) has [OF assms(1,2)] read_rlp_val [OF assms(1-3), of "enc v" dec] assms(6) show ?thesis
    by (simp add: read_optional_rlp_def rbind2_def of_runtime_def of_decoder_def)
qed

lemma store_rlp_val:
  assumes "inv h" "writable p"
  shows "\<exists>h'. store_rlp rt cr x h p = (ok (), h') \<and> inv h' \<and>
    (\<forall>ss. list_all step_ok ss \<longrightarrow>
       val h' ss = (if ss = path_steps p then Some (rlp_bytes cr x) else val h ss) \<and>
       (sub h' ss \<longleftrightarrow> sub h ss \<or> strict_prefix ss (path_steps p)))"
  using write_all [OF assms, of "rlp_bytes cr x"] by (auto simp: store_rlp_def of_runtime_def)

end

text \<open>The in-memory store meets the contract.\<close>

interpretation memory_host: durable_host memory_runtime store_wf
  "\<lambda>st ss. vals (durable st) ss" "\<lambda>st ss. \<not> bare (durable st) ss"
proof
  fix h p v assume a: "store_wf h" "writable p"
  show "rt_has memory_runtime h p = Inr
      (if vals (durable h) (path_steps p) \<noteq> None
       then Some (if \<not> bare (durable h) (path_steps p) then ValueWithSubtree else Value)
       else if \<not> bare (durable h) (path_steps p) then Some Subtree else None)"
    by (simp add: memory_runtime_def store_has_eq [OF a])
  show "\<exists>h'. rt_write_all memory_runtime h p v = (Inr (), h') \<and> store_wf h' \<and>
        (\<forall>ss. list_all step_ok ss \<longrightarrow>
           vals (durable h') ss = (if ss = path_steps p then Some v else vals (durable h) ss) \<and>
           (\<not> bare (durable h') ss \<longleftrightarrow> \<not> bare (durable h) ss \<or> strict_prefix ss (path_steps p)))"
  proof -
    obtain h' where h': "store_write_all h p v = (Inr (), h')" "stored h (path_steps p) v h'"
      using write_all_stored [OF a] by blast
    have "\<not> bare (durable h') ss \<longleftrightarrow> \<not> bare (durable h) ss \<or> strict_prefix ss (path_steps p)"
      if "list_all step_ok ss" for ss
    proof -
      have V: "VALUE_NAME \<notin> set (path_steps p)" "VALUE_NAME \<notin> set ss"
        using steps_not_marker valid_path(3) [OF a(2)] that by auto
      have "\<not> bare (durable h') ss \<longleftrightarrow>
          (\<exists>s. s \<noteq> VALUE_NAME \<and> (node_from_steps (durable h) (ss @ [s]) \<noteq> None \<or> prefix (ss @ [s]) (path_steps p)))"
        using h'(2) V by (auto simp: bare_def stored_def)
      also have "\<dots> \<longleftrightarrow> \<not> bare (durable h) ss \<or> (\<exists>s. s \<noteq> VALUE_NAME \<and> prefix (ss @ [s]) (path_steps p))"
        by (auto simp: bare_def)
      also have "(\<exists>s. s \<noteq> VALUE_NAME \<and> prefix (ss @ [s]) (path_steps p)) \<longleftrightarrow> strict_prefix ss (path_steps p)"
      proof
        assume "strict_prefix ss (path_steps p)"
        then obtain s zs where "path_steps p = ss @ s # zs" by (auto elim: strict_prefixE')
        with V show "\<exists>s. s \<noteq> VALUE_NAME \<and> prefix (ss @ [s]) (path_steps p)" by (auto simp: prefix_def)
      qed (auto simp: prefix_def strict_prefix_def)
      finally show ?thesis .
    qed
    with h' steps_not_marker show ?thesis by (auto simp: memory_runtime_def stored_def)
  qed
next
  fix h p v
  assume "store_wf h" "writable p" "vals (durable h) (path_steps p) = Some v" "length v < 2 ^ 31"
  then show "rt_read_all memory_runtime h p = Some (Inr v)"
    by (simp add: memory_runtime_def read_all_value)
next
  fix h p
  assume "store_wf h" "writable p" "vals (durable h) (path_steps p) = None"
  then show "\<exists>e. rt_read_all memory_runtime h p = Some (Inl e)"
    by (simp add: memory_runtime_def read_all_no_value)
next
  fix h p
  assume a: "store_wf h" "writable p"
    and e: "vals (durable h) (path_steps p) \<noteq> None \<or> \<not> bare (durable h) (path_steps p)"
  have "bare (durable (node_delete h p)) ss" if "bare (durable h) ss" for ss
    using node_delete_effect(4) [OF a] that unfolding bare_def by blast
  with delete_eq [OF a e] node_delete_effect(1,3) [OF a]
  show "\<exists>h'. rt_delete memory_runtime h p = (Inr (), h') \<and> store_wf h' \<and>
        (\<forall>ss. list_all step_ok ss \<longrightarrow>
           vals (durable h') ss = (if prefix (path_steps p) ss then None else vals (durable h) ss) \<and>
           (\<not> bare (durable h') ss \<longrightarrow> \<not> bare (durable h) ss))"
    by (auto simp: memory_runtime_def)
next
  fix h ss ts
  assume ok: "list_all step_ok (ss @ ts)" and ne: "ts \<noteq> []" 
    and v: "vals (durable h) (ss @ ts) \<noteq> None \<or> \<not> bare (durable h) (ss @ ts)"
  obtain t ts' where ts: "ts = t # ts'" using ne by (cases ts) auto
  have "node_from_steps (durable h) ((ss @ [t]) @ ts') \<noteq> None"
  proof
    assume n: "node_from_steps (durable h) ((ss @ [t]) @ ts') = None"
    then have "vals (durable h) (ss @ ts) = None" "bare (durable h) (ss @ ts)"
      unfolding vals_def bare_def node_from_steps_append [of _ "ss @ ts"] using ts by simp_all
    with v show False by simp
  qed
  then have "node_from_steps (durable h) (ss @ [t]) \<noteq> None"
    unfolding node_from_steps_append [of _ "ss @ [t]"]
    by (cases "node_from_steps (durable h) (ss @ [t])") simp_all
  moreover have "t \<noteq> VALUE_NAME"
  proof
    assume "t = VALUE_NAME"
    then have "VALUE_NAME \<in> set (ss @ ts)" using ts by simp
    with steps_not_marker [OF ok] show False by contradiction
  qed
  ultimately show "\<not> bare (durable h) ss" by (auto simp: bare_def)
qed

end
