(* ===== verification/EVM_List_Heap.thy ===== *)
theory EVM_List_Heap
  imports EVM_Linked_List
begin

text \<open>
  A heap of pointers is the state that the operations of
  \<^verbatim>\<open>etherlink/kernel_evm/kernel/src/linked_list.rs\<close> keep behind the paths of a host. For every host
  that meets the contract, the operations on the storage refine operations on the heap and fail
  nowhere.
\<close>

section \<open>Heaps of pointers\<close>

type_synonym ptrs = "bytes \<rightharpoonup> Pointer"

record 'e heap =
  h_ptr :: ptrs
  h_dat :: "bytes \<rightharpoonup> 'e"
  h_ends :: "LinkedListPointer option"

definition heap_push :: "'e heap \<Rightarrow> bytes \<Rightarrow> 'e \<Rightarrow> 'e heap" where
  "heap_push H key elt =
     (if h_ptr H key \<noteq> None then H
      else case h_ends H of
          None \<Rightarrow>
            (let back = \<lparr>ptr_id = key, ptr_previous = None, ptr_next = None\<rparr>
             in \<lparr>h_ptr = (h_ptr H)(key \<mapsto> back), h_dat = (h_dat H)(key \<mapsto> elt),
                 h_ends = Some \<lparr>llp_front = back, llp_back = back\<rparr>\<rparr>)
        | Some ps \<Rightarrow>
            (let penultimate = (llp_back ps)\<lparr>ptr_next := Some key\<rparr>;
                 back = \<lparr>ptr_id = key, ptr_previous = Some (ptr_id penultimate), ptr_next = None\<rparr>
             in \<lparr>h_ptr = (h_ptr H)(ptr_id penultimate \<mapsto> penultimate, key \<mapsto> back),
                 h_dat = (h_dat H)(key \<mapsto> elt),
                 h_ends = Some \<lparr>llp_front = llp_front ps, llp_back = back\<rparr>\<rparr>))"

definition heap_unlink ::
  "LinkedListPointer \<Rightarrow> Pointer option \<Rightarrow> Pointer option \<Rightarrow> 'e heap \<Rightarrow> 'e heap" where
  "heap_unlink ps previous nxt H =
     (case (previous, nxt) of
        (None, None) \<Rightarrow> H\<lparr>h_ends := None\<rparr>
      | (None, Some n) \<Rightarrow>
          (let new_front = n\<lparr>ptr_previous := None\<rparr>
           in H\<lparr>h_ptr := (h_ptr H)(ptr_id n \<mapsto> new_front),
                h_ends := Some \<lparr>llp_front = new_front, llp_back = llp_back ps\<rparr>\<rparr>)
      | (Some p, None) \<Rightarrow>
          (let new_back = p\<lparr>ptr_next := None\<rparr>
           in H\<lparr>h_ptr := (h_ptr H)(ptr_id p \<mapsto> new_back),
                h_ends := Some \<lparr>llp_front = llp_front ps, llp_back = new_back\<rparr>\<rparr>)
      | (Some p, Some n) \<Rightarrow>
          H\<lparr>h_ptr := (h_ptr H)(ptr_id p \<mapsto> p\<lparr>ptr_next := Some (ptr_id n)\<rparr>,
                                ptr_id n \<mapsto> n\<lparr>ptr_previous := Some (ptr_id p)\<rparr>)\<rparr>)"

definition heap_remove :: "'e heap \<Rightarrow> bytes \<Rightarrow> 'e option \<times> 'e heap" where
  "heap_remove H key =
     (case (h_ends H, h_ptr H key) of
        (Some ps, Some p) \<Rightarrow>
          (h_dat H key,
           heap_unlink ps (Option.bind (ptr_previous p) (h_ptr H)) (Option.bind (ptr_next p) (h_ptr H))
             (H\<lparr>h_ptr := (h_ptr H)(key := None), h_dat := (h_dat H)(key := None)\<rparr>))
      | _ \<Rightarrow> (None, H))"

section \<open>Storage represents a heap\<close>

text \<open>
  \<open>stores\<close>: the entries below the path of the list are those of the heap. \<open>saved\<close>: the metadata are
  those of the list, or the list is empty and has never been saved.
\<close>

definition heap_ok :: "'e crates \<Rightarrow> ptrs \<Rightarrow> (bytes \<rightharpoonup> 'e) \<Rightarrow> bool" where
  "heap_ok cr P M \<longleftrightarrow> (\<forall>k p. P k = Some p \<longrightarrow> ptr_ok p \<and> ptr_id p = k) \<and>
     (\<forall>k e. M k = Some e \<longrightarrow> elt_fits cr e)"

definition stores ::
  "'e crates \<Rightarrow> bytes \<Rightarrow> (bytes list \<Rightarrow> bytes option) \<Rightarrow> (bytes list \<Rightarrow> bool) \<Rightarrow> ptrs \<Rightarrow>
     (bytes \<rightharpoonup> 'e) \<Rightarrow> bool" where
  "stores cr root v b P M \<longleftrightarrow> heap_ok cr P M \<and> \<not> b (meta_steps root) \<and>
     (\<forall>k. is_hash k \<longrightarrow>
        v (ptr_steps cr root k) = map_option (\<lambda>p. rlp_bytes cr (pointer_encode p)) (P k) \<and>
        v (dat_steps cr root k) = map_option (\<lambda>e. rlp_bytes cr (elt_encode cr e)) (M k) \<and>
        \<not> b (ptr_steps cr root k) \<and> \<not> b (dat_steps cr root k))"

definition saved :: "'e crates \<Rightarrow> (bytes list \<Rightarrow> bytes option) \<Rightarrow> LinkedList \<Rightarrow> bool" where
  "saved cr v l \<longleftrightarrow> v (meta_steps (ll_path l)) = Some (rlp_bytes cr (list_encode l)) \<or>
     v (meta_steps (ll_path l)) = None \<and> pointers l = None"

definition represents ::
  "'e crates \<Rightarrow> bytes \<Rightarrow> (bytes list \<Rightarrow> bytes option) \<Rightarrow> (bytes list \<Rightarrow> bool) \<Rightarrow> LinkedList \<Rightarrow>
     'e heap \<Rightarrow> bool" where
  "represents cr root v b l H \<longleftrightarrow> stores cr root v b (h_ptr H) (h_dat H) \<and> saved cr v l \<and>
     ll_path l = root \<and> pointers l = h_ends H \<and> ends_ok (h_ends H)"

lemma all_steps_ok:
  assumes "crates_ok cr" "root_ok root" "is_hash k"
  shows "list_all step_ok (ptr_steps cr root k)" "list_all step_ok (dat_steps cr root k)"
    and "list_all step_ok (dir_steps cr root k)" "list_all step_ok (meta_steps root)"
proof -
  have "list_all step_ok (path_steps root)" using assms(2) by (simp add: root_ok_def valid_path)
  moreover have "step_ok (ascii ''meta'')" by code_simp
  ultimately show "list_all step_ok (ptr_steps cr root k)" "list_all step_ok (dat_steps cr root k)"
    "list_all step_ok (dir_steps cr root k)" "list_all step_ok (meta_steps root)"
    using entry_steps_ok [OF assms(1,3)] by (simp_all add: ptr_steps_def dat_steps_def dir_steps_def meta_steps_def)
qed

text \<open>What a write of a pointer, of data or of the metadata and a deletion of an entry do to \<open>stores\<close>.\<close>

definition written ::
  "(bytes list \<Rightarrow> bytes option) \<Rightarrow> (bytes list \<Rightarrow> bool) \<Rightarrow> bytes list \<Rightarrow> bytes \<Rightarrow>
     (bytes list \<Rightarrow> bytes option) \<Rightarrow> (bytes list \<Rightarrow> bool) \<Rightarrow> bool" where
  "written v b ts x v' b' \<longleftrightarrow> (\<forall>ss. list_all step_ok ss \<longrightarrow>
     v' ss = (if ss = ts then Some x else v ss) \<and> (b' ss \<longleftrightarrow> b ss \<or> strict_prefix ss ts))"

definition deleted ::
  "(bytes list \<Rightarrow> bytes option) \<Rightarrow> (bytes list \<Rightarrow> bool) \<Rightarrow> bytes list \<Rightarrow>
     (bytes list \<Rightarrow> bytes option) \<Rightarrow> (bytes list \<Rightarrow> bool) \<Rightarrow> bool" where
  "deleted v b ts v' b' \<longleftrightarrow> (\<forall>ss. list_all step_ok ss \<longrightarrow>
     v' ss = (if prefix ts ss then None else v ss) \<and> (b' ss \<longrightarrow> b ss))"

lemma stores_ptr:
  assumes "crates_ok cr" "root_ok root" "stores cr root v b P M" "ptr_ok p"
    and "written v b (ptr_steps cr root (ptr_id p)) (rlp_bytes cr (pointer_encode p)) v' b'"
  shows "stores cr root v' b' (P(ptr_id p \<mapsto> p)) M"
proof -
  have k: "is_hash (ptr_id p)" using assms(4) by (simp add: ptr_ok_def)
  note st = all_steps_ok [OF assms(1,2)]
  have "heap_ok cr (P(ptr_id p \<mapsto> p)) M" using assms(3,4) by (simp add: stores_def heap_ok_def)
  moreover have "\<not> b' (meta_steps root)"
    using assms(3,5) st(4) [OF k] steps_apart [OF assms(1) k k] by (simp add: stores_def written_def)
  moreover have "v' (ptr_steps cr root k') = map_option (\<lambda>p. rlp_bytes cr (pointer_encode p)) ((P(ptr_id p \<mapsto> p)) k') \<and>
      v' (dat_steps cr root k') = map_option (\<lambda>e. rlp_bytes cr (elt_encode cr e)) (M k') \<and>
      \<not> b' (ptr_steps cr root k') \<and> \<not> b' (dat_steps cr root k')" if "is_hash k'" for k'
  proof -
    note a = steps_apart [OF assms(1) that k] steps_apart [OF assms(1) k that]
    have "dat_steps cr root k' \<noteq> ptr_steps cr root (ptr_id p)" using a by metis
    with assms(3,5) that st [OF that] a show ?thesis by (simp add: stores_def written_def)
  qed
  ultimately show ?thesis unfolding stores_def by blast
qed

lemma stores_dat:
  assumes "crates_ok cr" "root_ok root" "stores cr root v b P M" "is_hash k" "elt_fits cr e"
    and "written v b (dat_steps cr root k) (rlp_bytes cr (elt_encode cr e)) v' b'"
  shows "stores cr root v' b' P (M(k \<mapsto> e))"
proof -
  note st = all_steps_ok [OF assms(1,2)]
  have "heap_ok cr P (M(k \<mapsto> e))" using assms(3,5) by (simp add: stores_def heap_ok_def)
  moreover have "\<not> b' (meta_steps root)"
    using assms(3,6) st(4) [OF assms(4)] steps_apart [OF assms(1,4,4)] by (simp add: stores_def written_def)
  moreover have "v' (ptr_steps cr root k') = map_option (\<lambda>p. rlp_bytes cr (pointer_encode p)) (P k') \<and>
      v' (dat_steps cr root k') = map_option (\<lambda>e. rlp_bytes cr (elt_encode cr e)) ((M(k \<mapsto> e)) k') \<and>
      \<not> b' (ptr_steps cr root k') \<and> \<not> b' (dat_steps cr root k')" if "is_hash k'" for k'
    using assms(3,6) that st [OF that] steps_apart [OF assms(1) that assms(4)] steps_apart [OF assms(1,4) that]
    by (simp add: stores_def written_def)
  ultimately show ?thesis unfolding stores_def by blast
qed

lemma stores_meta:
  assumes "crates_ok cr" "root_ok root" "stores cr root v b P M"
    and "written v b (meta_steps root) x v' b'"
  shows "stores cr root v' b' P M"
proof -
  note st = all_steps_ok [OF assms(1,2)]
  have z: "is_hash (replicate 32 0)" by (simp add: is_hash_def TRANSACTION_HASH_SIZE_def)
  have "\<not> b' (meta_steps root)" using assms(3,4) st(4) [OF z] by (simp add: stores_def written_def)
  moreover have "v' (ptr_steps cr root k') = map_option (\<lambda>p. rlp_bytes cr (pointer_encode p)) (P k') \<and>
      v' (dat_steps cr root k') = map_option (\<lambda>e. rlp_bytes cr (elt_encode cr e)) (M k') \<and>
      \<not> b' (ptr_steps cr root k') \<and> \<not> b' (dat_steps cr root k')" if "is_hash k'" for k'
    using assms(3,4) that st [OF that] steps_apart [OF assms(1) that that]
    by (simp add: stores_def written_def)
  ultimately show ?thesis using assms(3) unfolding stores_def by blast
qed

lemma stores_dir:
  assumes "crates_ok cr" "root_ok root" "stores cr root v b P M" "is_hash k"
    and "deleted v b (dir_steps cr root k) v' b'"
  shows "stores cr root v' b' (P(k := None)) (M(k := None))"
proof -
  note st = all_steps_ok [OF assms(1,2)]
  have "heap_ok cr (P(k := None)) (M(k := None))" using assms(3) by (simp add: stores_def heap_ok_def)
  moreover have "\<not> b' (meta_steps root)"
    using assms(3,5) st(4) [OF assms(4)] by (auto simp: stores_def deleted_def)
  moreover have "v' (ptr_steps cr root k') = map_option (\<lambda>p. rlp_bytes cr (pointer_encode p)) ((P(k := None)) k') \<and>
      v' (dat_steps cr root k') = map_option (\<lambda>e. rlp_bytes cr (elt_encode cr e)) ((M(k := None)) k') \<and>
      \<not> b' (ptr_steps cr root k') \<and> \<not> b' (dat_steps cr root k')" if "is_hash k'" for k'
    using assms(3,5) that st [OF that] steps_apart [OF assms(1,4) that]
    by (auto simp: stores_def deleted_def)
  ultimately show ?thesis unfolding stores_def by blast
qed

section \<open>The storage refines the heap\<close>

lemma stores_entry:
  assumes "crates_ok cr" "stores cr root v b P M"
  shows "P k = Some p \<Longrightarrow> rlp_weight (pointer_encode p) < 2 ^ 31 \<and> pointer_decode (pointer_encode p) = Inr p"
    and "M k = Some e \<Longrightarrow> rlp_weight (elt_encode cr e) < 2 ^ 31 \<and> elt_decode cr (elt_encode cr e) = Inr e"
proof -
  assume "P k = Some p"
  then have p: "ptr_ok p" using assms(2) by (auto simp: stores_def heap_ok_def)
  with pointer_weight [OF p] show "rlp_weight (pointer_encode p) < 2 ^ 31 \<and> pointer_decode (pointer_encode p) = Inr p"
    by (simp add: pointer_roundtrip)
next
  assume "M k = Some e"
  with assms show "rlp_weight (elt_encode cr e) < 2 ^ 31 \<and> elt_decode cr (elt_encode cr e) = Inr e"
    by (auto simp: stores_def heap_ok_def elt_fits_def crates_ok_def)
qed

context durable_host
begin

lemma ll_pointer_read:
  assumes "inv h" "crates_ok cr" "root_ok root" "stores cr root (val h) (sub h) P M" "is_hash k"
  shows "pointer_read rt cr h root k = ok (P k)"
proof -
  obtain p where p: "pointer_path cr k root = ok p" "writable p" "path_steps p = ptr_steps cr root k"
    using entry_paths(1) [OF assms(2,3,5)] by blast
  have "read_optional_rlp rt cr pointer_decode h p = ok (P k)"
  proof (rule read_optional_val [OF assms(1) p(2) assms(2), where enc = pointer_encode])
    show "\<not> sub h (path_steps p)"
      "val h (path_steps p) = map_option (\<lambda>v. rlp_bytes cr (pointer_encode v)) (P k)"
      using assms(4,5) by (simp_all add: p(3) stores_def)
  qed (rule stores_entry(1) [OF assms(2,4)])
  with p(1) show ?thesis by (simp add: pointer_read_def rbind2_def)
qed

lemma ll_data:
  assumes "inv h" "crates_ok cr" "root_ok root" "stores cr root (val h) (sub h) P M" "is_hash (ptr_id q)"
  shows "M (ptr_id q) = Some e \<Longrightarrow> get_data rt cr q h root = ok e"
    and "rbind2 (data_path cr q root) (\<lambda>path. read_optional_rlp rt cr (elt_decode cr) h path) = ok (M (ptr_id q))"
proof -
  let ?k = "ptr_id q"
  obtain p where p: "entry_path cr ?k (ascii ''/data'') root = ok p" "writable p"
    "path_steps p = dat_steps cr root ?k"
    using entry_paths(2) [OF assms(2,3,5)] by blast
  have v: "\<not> sub h (path_steps p)"
    "val h (path_steps p) = map_option (\<lambda>v. rlp_bytes cr (elt_encode cr v)) (M ?k)"
    using assms(4,5) by (simp_all add: p(3) stores_def)
  note se = stores_entry(2) [OF assms(2,4)]
  show "get_data rt cr q h root = ok e" if "M ?k = Some e"
    using read_rlp_val [OF assms(1) p(2) assms(2), of "elt_encode cr e" "elt_decode cr"] v se [OF that] that p(1)
    by (simp add: get_data_def data_path_def rbind2_def of_decoder_def)
  have "read_optional_rlp rt cr (elt_decode cr) h p = ok (M ?k)"
    by (rule read_optional_val [OF assms(1) p(2) assms(2) v]) (rule se)
  with p(1) show "rbind2 (data_path cr q root) (\<lambda>path. read_optional_rlp rt cr (elt_decode cr) h path) = ok (M ?k)"
    by (simp add: data_path_def rbind2_def)
qed

lemma ll_store:
  assumes "inv h" "writable p"
  shows "\<exists>h'. store_rlp rt cr x h p = (ok (), h') \<and> inv h' \<and>
    written (val h) (sub h) (path_steps p) (rlp_bytes cr x) (val h') (sub h')"
  unfolding written_def by (rule store_rlp_val [OF assms])

lemma ll_pointer_save:
  assumes "inv h" "crates_ok cr" "root_ok root" "stores cr root (val h) (sub h) P M" "ptr_ok q"
  shows "\<exists>h'. pointer_save rt cr q h root = (ok (), h') \<and> inv h' \<and>
    stores cr root (val h') (sub h') (P(ptr_id q \<mapsto> q)) M"
proof -
  have k: "is_hash (ptr_id q)" using assms(5) by (simp add: ptr_ok_def)
  obtain p where p: "pointer_path cr (ptr_id q) root = ok p" "writable p"
    "path_steps p = ptr_steps cr root (ptr_id q)"
    using entry_paths(1) [OF assms(2,3) k] by blast
  obtain h' where "store_rlp rt cr (pointer_encode q) h p = (ok (), h')" "inv h'"
    "written (val h) (sub h) (path_steps p) (rlp_bytes cr (pointer_encode q)) (val h') (sub h')"
    using ll_store [OF assms(1) p(2)] by blast
  with stores_ptr [OF assms(2-5)] p show ?thesis
    by (auto simp: pointer_save_def with_path_def ptr_path_def sbind_def)
qed

lemma ll_save_data:
  assumes "inv h" "crates_ok cr" "root_ok root" "stores cr root (val h) (sub h) P M" "is_hash (ptr_id q)"
    and "elt_fits cr e"
  shows "\<exists>h'. save_data rt cr q h root e = (ok (), h') \<and> inv h' \<and>
    stores cr root (val h') (sub h') P (M(ptr_id q \<mapsto> e))"
proof -
  obtain p where p: "entry_path cr (ptr_id q) (ascii ''/data'') root = ok p" "writable p"
    "path_steps p = dat_steps cr root (ptr_id q)"
    using entry_paths(2) [OF assms(2,3,5)] by blast
  obtain h' where "store_rlp rt cr (elt_encode cr e) h p = (ok (), h')" "inv h'"
    "written (val h) (sub h) (path_steps p) (rlp_bytes cr (elt_encode cr e)) (val h') (sub h')"
    using ll_store [OF assms(1) p(2)] by blast
  with stores_dat [OF assms(2-6)] p show ?thesis
    by (auto simp: save_data_def with_path_def data_path_def sbind_def)
qed

lemma ll_list_save:
  assumes "inv h" "crates_ok cr" "root_ok (ll_path l)" "stores cr (ll_path l) (val h) (sub h) P M"
  shows "\<exists>h'. list_save rt cr l h = (ok (), h') \<and> inv h' \<and> stores cr (ll_path l) (val h') (sub h') P M \<and>
    saved cr (val h') l"
proof -
  obtain p where p: "metadata_path (ll_path l) = ok p" "writable p" "path_steps p = meta_steps (ll_path l)"
    using meta_path [OF assms(3)] by blast
  obtain h' where h': "store_rlp rt cr (list_encode l) h p = (ok (), h')" "inv h'"
    "written (val h) (sub h) (path_steps p) (rlp_bytes cr (list_encode l)) (val h') (sub h')"
    using ll_store [OF assms(1) p(2)] by blast
  have "saved cr (val h') l" using h'(3) p valid_path(3) [OF p(2)] by (simp add: saved_def written_def)
  with stores_meta [OF assms(2-4)] p h' show ?thesis
    by (auto simp: list_save_def with_path_def sbind_def)
qed

lemma ll_remove_with_data:
  assumes "inv h" "crates_ok cr" "root_ok root" "stores cr root (val h) (sub h) P M" "P (ptr_id q) \<noteq> None"
    and "is_hash (ptr_id q)"
  shows "\<exists>h'. remove_with_data rt cr q h root = (ok (), h') \<and> inv h' \<and>
    stores cr root (val h') (sub h') (P(ptr_id q := None)) (M(ptr_id q := None))"
proof -
  let ?k = "ptr_id q"
  obtain p where p: "entry_path cr ?k [] root = ok p" "writable p" "path_steps p = dir_steps cr root ?k"
    using entry_paths(3) [OF assms(2,3,6)] by blast
  have e: "ptr_steps cr root ?k = path_steps p @ [ascii ''pointer'']"
    by (simp add: p(3) ptr_steps_def dir_steps_def)
  have "val h (ptr_steps cr root ?k) \<noteq> None" using assms(4-6) by (auto simp: stores_def)
  with below [OF assms(1), of "path_steps p" "[ascii ''pointer'']"] all_steps_ok(1) [OF assms(2,3,6)] e
  have "sub h (path_steps p)" by simp
  then obtain h' where "rt_delete rt h p = (Inr (), h')" "inv h'"
    "deleted (val h) (sub h) (path_steps p) (val h') (sub h')"
    using delete [OF assms(1) p(2)] unfolding deleted_def by blast
  with stores_dir [OF assms(2-4,6)] p show ?thesis
    by (auto simp: remove_with_data_def with_path_def sbind_def of_runtime_def)
qed

text \<open>The list operations, one by one.\<close>

lemma ll_push:
  assumes "inv h" "crates_ok cr" "root_ok root" "represents cr root (val h) (sub h) l H"
    and "is_hash key" "elt_fits cr elt"
  shows "\<exists>l' h'. list_push rt cr (l, h) key elt = (ok (), (l', h')) \<and> inv h' \<and>
    represents cr root (val h') (sub h') l' (heap_push H key elt)"
proof -
  note c = assms(2,3)
  have l: "ll_path l = root" "pointers l = h_ends H" "ends_ok (h_ends H)"
    and st: "stores cr root (val h) (sub h) (h_ptr H) (h_dat H)"
    using assms(4) by (simp_all add: represents_def)
  have rd: "pointer_read rt cr h root key = ok (h_ptr H key)"
    by (rule ll_pointer_read [OF assms(1) c st assms(5)])
  show ?thesis
  proof (cases "h_ptr H key")
    case (Some p)
    with rd assms(1,4) l show ?thesis by (simp add: list_push_def sbind_def heap_push_def)
  next
    case None
    show ?thesis
    proof (cases "h_ends H")
      case ends: None
      let ?b = "\<lparr>ptr_id = key, ptr_previous = None, ptr_next = None\<rparr>"
      let ?l = "l\<lparr>pointers := Some \<lparr>llp_front = ?b, llp_back = ?b\<rparr>\<rparr>"
      have b: "ptr_ok ?b" using assms(5) by (simp add: ptr_ok_def)
      obtain h1 where 1: "pointer_save rt cr ?b h root = (ok (), h1)" "inv h1"
        "stores cr root (val h1) (sub h1) ((h_ptr H)(key \<mapsto> ?b)) (h_dat H)"
        using ll_pointer_save [OF assms(1) c st b] by auto
      obtain h2 where 2: "save_data rt cr ?b h1 root elt = (ok (), h2)" "inv h2"
        "stores cr root (val h2) (sub h2) ((h_ptr H)(key \<mapsto> ?b)) ((h_dat H)(key \<mapsto> elt))"
        using ll_save_data [OF 1(2) c 1(3), of ?b] assms(5,6) by auto
      obtain h3 where 3: "list_save rt cr ?l h2 = (ok (), h3)" "inv h3"
        "stores cr root (val h3) (sub h3) ((h_ptr H)(key \<mapsto> ?b)) ((h_dat H)(key \<mapsto> elt))"
        "saved cr (val h3) ?l"
        using ll_list_save [OF 2(2) c(1), of ?l] c(2) 2(3) l(1) by auto
      from ends None rd l 1(1) 2(1) 3 b show ?thesis
        by (simp add: list_push_def sbind_def on_host_def heap_push_def represents_def ends_ok_def Let_def)
    next
      case ends: (Some ps)
      let ?p = "(llp_back ps)\<lparr>ptr_next := Some key\<rparr>"
      let ?b = "\<lparr>ptr_id = key, ptr_previous = Some (ptr_id ?p), ptr_next = None\<rparr>"
      let ?l = "l\<lparr>pointers := Some \<lparr>llp_front = llp_front ps, llp_back = ?b\<rparr>\<rparr>"
      let ?P = "(h_ptr H)(ptr_id (llp_back ps) \<mapsto> ?p, key \<mapsto> ?b)"
      have ok: "ptr_ok ?p" "ptr_ok ?b" "ptr_ok (llp_front ps)"
        using assms(5) l(3) ends by (simp_all add: ptr_ok_def ends_ok_def)
      obtain h0 where 0: "pointer_save rt cr ?p h root = (ok (), h0)" "inv h0"
        "stores cr root (val h0) (sub h0) ((h_ptr H)(ptr_id (llp_back ps) \<mapsto> ?p)) (h_dat H)"
        using ll_pointer_save [OF assms(1) c st ok(1)] by auto
      obtain h1 where 1: "pointer_save rt cr ?b h0 root = (ok (), h1)" "inv h1"
        "stores cr root (val h1) (sub h1) ?P (h_dat H)"
        using ll_pointer_save [OF 0(2) c 0(3) ok(2)] by auto
      obtain h2 where 2: "save_data rt cr ?b h1 root elt = (ok (), h2)" "inv h2"
        "stores cr root (val h2) (sub h2) ?P ((h_dat H)(key \<mapsto> elt))"
        using ll_save_data [OF 1(2) c 1(3), of ?b] assms(5,6) by auto
      obtain h3 where 3: "list_save rt cr ?l h2 = (ok (), h3)" "inv h3"
        "stores cr root (val h3) (sub h3) ?P ((h_dat H)(key \<mapsto> elt))" "saved cr (val h3) ?l"
        using ll_list_save [OF 2(2) c(1), of ?l] c(2) 2(3) l(1) by auto
      from ends None rd l 0(1) 1(1) 2(1) 3 ok show ?thesis
        by (simp add: list_push_def sbind_def on_host_def heap_push_def represents_def ends_ok_def Let_def)
    qed
  qed
qed

lemma ll_find:
  assumes "inv h" "crates_ok cr" "root_ok root" "represents cr root (val h) (sub h) l H" "is_hash key"
  shows "list_find rt cr (l, h) key = ok (if h_ptr H key = None then None else h_dat H key)"
proof -
  have l: "ll_path l = root" and st: "stores cr root (val h) (sub h) (h_ptr H) (h_dat H)"
    using assms(4) by (simp_all add: represents_def)
  have rd: "pointer_read rt cr h root key = ok (h_ptr H key)"
    by (rule ll_pointer_read [OF assms(1-3) st assms(5)])
  show ?thesis
  proof (cases "h_ptr H key")
    case None
    with rd l show ?thesis by (simp add: list_find_def rbind2_def)
  next
    case (Some p)
    then have "ptr_id p = key" using st by (simp add: stores_def heap_ok_def)
    with ll_data(2) [OF assms(1-3) st, of p] Some rd l assms(5) show ?thesis
      by (simp add: list_find_def rbind2_def)
  qed
qed

lemma ll_first:
  assumes "inv h" "crates_ok cr" "root_ok root" "represents cr root (val h) (sub h) l H"
    and "h_ends H = Some ps" "h_dat H (ptr_id (llp_front ps)) = Some e"
  shows "list_first rt cr (l, h) = ok (Some e)"
    and "list_first_with_id rt cr (l, h) = ok (Some (ptr_id (llp_front ps), e))"
proof -
  have l: "ll_path l = root" "pointers l = Some ps" "is_hash (ptr_id (llp_front ps))"
    and st: "stores cr root (val h) (sub h) (h_ptr H) (h_dat H)"
    using assms(4,5) by (simp_all add: represents_def ends_ok_def ptr_ok_def)
  with ll_data(1) [OF assms(1-3) st l(3) assms(6)]
  show "list_first rt cr (l, h) = ok (Some e)"
    "list_first_with_id rt cr (l, h) = ok (Some (ptr_id (llp_front ps), e))"
    by (simp_all add: list_first_def list_first_with_id_def rbind2_def)
qed

lemma ll_new:
  assumes "inv h" "crates_ok cr" "root_ok root" "represents cr root (val h) (sub h) l H"
  shows "list_new rt cr root h = ok l"
proof -
  have l: "ll_path l = root" "ends_ok (pointers l)" "saved cr (val h) l" "\<not> sub h (meta_steps root)"
    using assms(4) by (simp_all add: represents_def stores_def)
  have w: "writable (ll_path l)" using assms(3) l(1) by (simp add: root_ok_def)
  obtain p where p: "metadata_path root = ok p" "writable p" "path_steps p = meta_steps root"
    using meta_path [OF assms(3)] by blast
  let ?x = "if val h (meta_steps root) = None then None else Some l"
  have "read_optional_rlp rt cr list_decode h p = ok ?x"
  proof (rule read_optional_val [OF assms(1) p(2) assms(2), where enc = list_encode])
    show "val h (path_steps p) = map_option (\<lambda>v. rlp_bytes cr (list_encode v)) ?x"
      using l(1,3) p(3) by (auto simp: saved_def)
    show "rlp_weight (list_encode v) < 2 ^ 31 \<and> list_decode (list_encode v) = Inr v" if "?x = Some v" for v
      using that list_weight [OF l(2) w] list_roundtrip [OF l(2) w] by (auto split: if_splits)
  qed (simp add: p(3) l(4))
  moreover have "val h (meta_steps root) = None \<Longrightarrow> l = \<lparr>ll_path = root, pointers = None\<rparr>"
    using l(1,3) by (cases l) (auto simp: saved_def)
  ultimately show ?thesis using p(1) by (auto simp: list_new_def list_read_def rbind2_def)
qed

lemma ll_neighbour:
  assumes "inv h" "crates_ok cr" "root_ok root" "stores cr root (val h) (sub h) P M"
    and "\<And>k. v = Some k \<Longrightarrow> is_hash k"
  shows "read_neighbour rt cr h root v = ok (Option.bind v P)"
  using ll_pointer_read [OF assms(1-4)] assms(5) by (cases v) (simp_all add: read_neighbour_def)

lemma ll_unlink:
  assumes "inv h" "crates_ok cr" "root_ok (ll_path l)"
    and "stores cr (ll_path l) (val h) (sub h) (h_ptr H) (h_dat H)"
    and "pointers l = Some ps" "h_ends H = Some ps" "ends_ok (Some ps)"
    and "\<And>p. previous = Some p \<Longrightarrow> ptr_ok p" "\<And>p. nxt = Some p \<Longrightarrow> ptr_ok p"
  shows "\<exists>l' h'. unlink rt cr ps previous nxt (l, h) = (ok (), (l', h')) \<and> inv h' \<and>
    stores cr (ll_path l) (val h') (sub h') (h_ptr (heap_unlink ps previous nxt H))
      (h_dat (heap_unlink ps previous nxt H)) \<and>
    ll_path l' = ll_path l \<and> pointers l' = h_ends (heap_unlink ps previous nxt H) \<and> ends_ok (pointers l')"
proof -
  note save = ll_pointer_save [OF assms(1-4)]
  note unfold = unlink_def heap_unlink_def sbind_def on_host_def Let_def ends_ok_def
  consider (none) "previous = None" "nxt = None" | (head) n where "previous = None" "nxt = Some n"
    | (rear) p where "previous = Some p" "nxt = None" | (mid) p n where "previous = Some p" "nxt = Some n"
    by (cases previous; cases nxt) auto
  then show ?thesis
  proof cases
    case none
    with assms show ?thesis by (simp add: unfold)
  next
    case head
    then have n: "ptr_ok (n\<lparr>ptr_previous := None\<rparr>)" using assms(9) by (simp add: ptr_ok_def)
    from save [OF n] n head assms(5-7) show ?thesis by (auto simp: unfold)
  next
    case rear
    then have p: "ptr_ok (p\<lparr>ptr_next := None\<rparr>)" using assms(8) by (simp add: ptr_ok_def)
    from save [OF p] p rear assms(5-7) show ?thesis by (auto simp: unfold)
  next
    case mid
    then have ok: "ptr_ok (p\<lparr>ptr_next := Some (ptr_id n)\<rparr>)" "ptr_ok (n\<lparr>ptr_previous := Some (ptr_id p)\<rparr>)"
      using assms(8,9) by (simp_all add: ptr_ok_def)
    obtain h1 where 1: "pointer_save rt cr (p\<lparr>ptr_next := Some (ptr_id n)\<rparr>) h (ll_path l) = (ok (), h1)" "inv h1"
      "stores cr (ll_path l) (val h1) (sub h1) ((h_ptr H)(ptr_id p \<mapsto> p\<lparr>ptr_next := Some (ptr_id n)\<rparr>)) (h_dat H)"
      using save [OF ok(1)] by auto
    from ll_pointer_save [OF 1(2) assms(2,3) 1(3) ok(2)] 1(1) mid assms(5-7) show ?thesis
      by (auto simp: unfold)
  qed
qed

lemma ll_remove:
  assumes "inv h" "crates_ok cr" "root_ok root" "represents cr root (val h) (sub h) l H" "is_hash key"
    and "h_ptr H key \<noteq> None \<Longrightarrow> h_dat H key \<noteq> None"
  shows "\<exists>l' h'. list_remove rt cr (l, h) key = (ok (fst (heap_remove H key)), (l', h')) \<and> inv h' \<and>
    represents cr root (val h') (sub h') l' (snd (heap_remove H key))"
proof -
  note c = assms(2,3)
  have l: "ll_path l = root" "pointers l = h_ends H" "ends_ok (h_ends H)"
    and st: "stores cr root (val h) (sub h) (h_ptr H) (h_dat H)"
    using assms(4) by (simp_all add: represents_def)
  have rd: "pointer_read rt cr h root key = ok (h_ptr H key)"
    by (rule ll_pointer_read [OF assms(1) c st assms(5)])
  consider (none) "h_ends H = None" | (absent) ps where "h_ends H = Some ps" "h_ptr H key = None"
    | (present) ps p e where "h_ends H = Some ps" "h_ptr H key = Some p" "h_dat H key = Some e"
    using assms(6) by (cases "h_ends H"; cases "h_ptr H key") auto
  then show ?thesis
  proof cases
    case none
    with l assms(1,4) show ?thesis by (simp add: list_remove_def heap_remove_def)
  next
    case absent
    with l rd assms(1,4) show ?thesis by (simp add: list_remove_def heap_remove_def sbind_def)
  next
    case present
    let ?prev = "Option.bind (ptr_previous p) (h_ptr H)" and ?next = "Option.bind (ptr_next p) (h_ptr H)"
    let ?H = "H\<lparr>h_ptr := (h_ptr H)(key := None), h_dat := (h_dat H)(key := None)\<rparr>"
    have p: "ptr_ok p" "ptr_id p = key" and all: "\<And>k q. h_ptr H k = Some q \<Longrightarrow> ptr_ok q"
      using st present(2) by (auto simp: stores_def heap_ok_def)
    have nb: "read_neighbour rt cr h root (ptr_previous p) = ok ?prev"
      "read_neighbour rt cr h root (ptr_next p) = ok ?next"
      using p(1) by (auto intro!: ll_neighbour [OF assms(1) c st] simp: ptr_ok_def)
    have nbs: "ptr_ok q" if "?prev = Some q \<or> ?next = Some q" for q
      using that all by (auto simp: bind_eq_Some_conv)
    have gd: "get_data rt cr p h root = ok e"
      using ll_data(1) [OF assms(1) c st, of p e] p present(3) assms(5) by simp
    obtain h1 where 1: "remove_with_data rt cr p h root = (ok (), h1)" "inv h1"
      "stores cr root (val h1) (sub h1) (h_ptr ?H) (h_dat ?H)"
      using ll_remove_with_data [OF assms(1) c st, of p] p present(2) assms(5) by auto
    obtain l2 h2 where 2: "unlink rt cr ps ?prev ?next (l, h1) = (ok (), (l2, h2))" "inv h2"
      "stores cr root (val h2) (sub h2) (h_ptr (heap_unlink ps ?prev ?next ?H)) (h_dat (heap_unlink ps ?prev ?next ?H))"
      "ll_path l2 = root" "pointers l2 = h_ends (heap_unlink ps ?prev ?next ?H)" "ends_ok (pointers l2)"
      using ll_unlink [OF 1(2) c(1), of l ?H ps ?prev ?next] 1(3) c(2) l present(1) nbs by auto
    obtain h3 where "list_save rt cr l2 h2 = (ok (), h3)" "inv h3" "saved cr (val h3) l2"
      "stores cr root (val h3) (sub h3) (h_ptr (heap_unlink ps ?prev ?next ?H)) (h_dat (heap_unlink ps ?prev ?next ?H))"
      using ll_list_save [OF 2(2) c(1), of l2] c(2) 2(3,4) by auto
    with present l rd nb gd 1(1) 2 show ?thesis
      by (simp add: list_remove_def heap_remove_def sbind_def on_host_def represents_def)
  qed
qed

lemma ll_delete:
  assumes "inv h" "crates_ok cr" "root_ok root" "represents cr root (val h) (sub h) l H"
  shows "\<exists>l' h'. list_delete rt cr (l, h) = (ok (), (l', h')) \<and> inv h' \<and>
    represents cr root (val h') (sub h') l' \<lparr>h_ptr = Map.empty, h_dat = Map.empty, h_ends = None\<rparr>"
proof -
  let ?r = "path_steps root" and ?l = "l\<lparr>pointers := None\<rparr>"
  have w: "writable root" using assms(3) by (simp add: root_ok_def)
  have l: "ll_path l = root" and st: "stores cr root (val h) (sub h) (h_ptr H) (h_dat H)"
    using assms(4) by (simp_all add: represents_def)
  note ok = all_steps_ok [OF assms(2,3)]
  have z: "is_hash (replicate 32 0)" by (simp add: is_hash_def TRANSACTION_HASH_SIZE_def)
  have empty: "represents cr root (val h') (sub h') ?l \<lparr>h_ptr = Map.empty, h_dat = Map.empty, h_ends = None\<rparr>"
    if v: "\<And>ts. ts \<noteq> [] \<Longrightarrow> list_all step_ok (?r @ ts) \<Longrightarrow> val h' (?r @ ts) = None"
      and b: "\<And>ss. list_all step_ok ss \<Longrightarrow> sub h' ss \<Longrightarrow> sub h ss" for h'
  proof -
    have "val h' (ptr_steps cr root k) = None \<and> val h' (dat_steps cr root k) = None \<and>
        \<not> sub h' (ptr_steps cr root k) \<and> \<not> sub h' (dat_steps cr root k)" if "is_hash k" for k
      using v ok [OF that] b [OF ok(1) [OF that]] b [OF ok(2) [OF that]] st that
      by (auto simp: ptr_steps_def dat_steps_def stores_def)
    moreover have "val h' (meta_steps root) = None" "\<not> sub h' (meta_steps root)"
      using v ok(4) [OF z] b [OF ok(4) [OF z]] st by (auto simp: meta_steps_def stores_def)
    ultimately show ?thesis
      using l by (simp add: represents_def stores_def heap_ok_def saved_def ends_ok_def)
  qed
  show ?thesis
  proof (cases "val h ?r \<noteq> None \<or> sub h ?r")
    case True
    then obtain h' where d: "rt_delete rt h root = (Inr (), h')" "inv h'"
      "deleted (val h) (sub h) ?r (val h') (sub h')"
      using delete [OF assms(1) w] unfolding deleted_def by blast
    have "represents cr root (val h') (sub h') ?l \<lparr>h_ptr = Map.empty, h_dat = Map.empty, h_ends = None\<rparr>"
      using d(3) by (intro empty) (auto simp: deleted_def)
    moreover have "\<exists>t. rt_has rt h root = Inr (Some t)" using has [OF assms(1) w] True by auto
    ultimately show ?thesis using d(1,2) l
      by (auto simp: list_delete_def sbind_def of_runtime_def on_host_def)
  next
    case False
    have "represents cr root (val h) (sub h) ?l \<lparr>h_ptr = Map.empty, h_dat = Map.empty, h_ends = None\<rparr>"
      using False below [OF assms(1)] by (intro empty) blast+
    moreover have "rt_has rt h root = Inr None" using has [OF assms(1) w] False by auto
    ultimately show ?thesis using assms(1) l by (auto simp: list_delete_def sbind_def of_runtime_def)
  qed
qed

end

end
