(* ===== verification/EVM_Codec.thy ===== *)
theory EVM_Codec
  imports EVM_Linked_List
begin

text \<open>
  Functions that meet the assumptions on the external crates: hexadecimal digits, and a self-delimiting
  encoding of RLP items by tags and lengths of four bytes. They instantiate the parameters of the
  linked list at concrete inputs.
\<close>

definition hex_digit :: "nat \<Rightarrow> u8" where
  "hex_digit n = ascii ''0123456789abcdef'' ! n"

definition hex_text :: "bytes \<Rightarrow> bytes" where
  "hex_text k = concat (map (\<lambda>b. [hex_digit (unat b div 16), hex_digit (unat b mod 16)]) k)"

fun item_bytes :: "rlp \<Rightarrow> bytes" where
  "item_bytes (RData b) = 0 # to_le_bytes (word_of_nat (length b) :: 32 word) @ b"
| "item_bytes (RList xs) = 1 # concat (map item_bytes xs) @ [2]"

text \<open>One item, or the items up to the end of a list, with the bytes behind; the fuel bounds the nesting.\<close>

fun parse_item :: "nat \<Rightarrow> bytes \<Rightarrow> (rlp \<times> bytes) option"
  and parse_items :: "nat \<Rightarrow> bytes \<Rightarrow> (rlp list \<times> bytes) option" where
  "parse_item 0 bs = None"
| "parse_item (Suc n) [] = None"
| "parse_item (Suc n) (t # bs) =
     (if t = 0 then
        let k = unat (from_le_bytes (take 4 bs) :: 32 word)
        in Some (RData (take k (drop 4 bs)), drop k (drop 4 bs))
      else if t = 1 then map_option (apfst RList) (parse_items n bs)
      else None)"
| "parse_items 0 bs = None"
| "parse_items (Suc n) [] = None"
| "parse_items (Suc n) (t # bs) =
     (if t = 2 then Some ([], bs)
      else case parse_item n (t # bs) of
          None \<Rightarrow> None
        | Some (x, r) \<Rightarrow> map_option (apfst ((#) x)) (parse_items n r))"

definition item_view :: "bytes \<Rightarrow> DecoderError + rlp" where
  "item_view bs =
     (case parse_item (2 * length bs + 2) bs of
        Some (x, []) \<Rightarrow> Inr x
      | _ \<Rightarrow> Inl (Custom ''RlpInconsistentLengthAndData''))"

definition example_crates :: "bytes crates" where
  "example_crates =
     \<lparr>hex_encode = hex_text, rlp_bytes = item_bytes, rlp_view = item_view, elt_encode = RData,
      elt_decode = as_bytes\<rparr>"

lemma hex_digit_props:
  "list_all (\<lambda>n. is_allowed_step_byte (hex_digit n)) [0..<16]" "distinct (map hex_digit [0..<16])"
  by code_simp+

lemma hex_digit_ok: "n < 16 \<Longrightarrow> is_allowed_step_byte (hex_digit n)"
  using hex_digit_props(1) by (simp add: list_all_iff)

lemma hex_digit_inj: "n < 16 \<Longrightarrow> m < 16 \<Longrightarrow> hex_digit n = hex_digit m \<longleftrightarrow> n = m"
  using hex_digit_props(2) by (auto simp: distinct_map inj_on_def)

lemma unat_byte: "unat (b :: u8) div 16 < 16" "unat (b :: u8) mod 16 < 16"
  using unsigned_less [of b, where 'a = nat] by (simp_all add: div_less_iff_less_mult)

lemma hex_text_step: "length (hex_text k) = 2 * length k" "list_all is_allowed_step_byte (hex_text k)"
  by (induction k) (simp_all add: hex_text_def hex_digit_ok unat_byte)

lemma hex_text_inj: "hex_text k = hex_text k' \<Longrightarrow> length k = length k' \<Longrightarrow> k = k'"
proof (induction k k' rule: list_induct2')
  case (4 b k b' k')
  then have "unat b div 16 = unat b' div 16" "unat b mod 16 = unat b' mod 16" "k = k'"
    using hex_digit_inj unat_byte by (auto simp: hex_text_def)
  then have "unat b = unat b'" by (metis div_mult_mod_eq)
  with \<open>k = k'\<close> show ?case by (simp add: word_unat_eq_iff)
qed (simp_all add: hex_text_def)

lemma item_length: "length (item_bytes x) \<le> rlp_weight x"
proof (induction x)
  case (RList xs)
  then have "length (concat (map item_bytes xs)) \<le> sum_list (map rlp_weight xs)"
    by (induction xs) (auto intro: add_mono)
  then show ?case by simp
qed simp

lemma item_first: "\<exists>t bs. item_bytes x = t # bs \<and> t \<noteq> 2"
  by (cases x) simp_all

lemma parse_items_bytes:
  assumes "\<And>x n r. x \<in> set xs \<Longrightarrow> 2 * length (item_bytes x) \<le> n \<Longrightarrow> parse_item n (item_bytes x @ r) = Some (x, r)"
    and "2 * length (concat (map item_bytes xs)) < n"
  shows "parse_items n (concat (map item_bytes xs) @ 2 # r) = Some (xs, r)"
  using assms
proof (induction xs arbitrary: n)
  case Nil
  then show ?case by (cases n) simp_all
next
  case (Cons x xs)
  obtain t bs where t: "item_bytes x = t # bs" "t \<noteq> 2" using item_first by blast
  obtain m where n: "n = Suc m" using Cons.prems(2) by (cases n) auto
  have "parse_item m (item_bytes x @ concat (map item_bytes xs) @ 2 # r) = Some (x, concat (map item_bytes xs) @ 2 # r)"
    by (rule Cons.prems(1)) (use Cons.prems(2) n t(1) in simp_all)
  moreover have "parse_items m (concat (map item_bytes xs) @ 2 # r) = Some (xs, r)"
    using Cons n t(1) by simp
  ultimately show ?case using n t by simp
qed

lemma parse_item_bytes:
  "rlp_weight x < 2 ^ 31 \<Longrightarrow> 2 * length (item_bytes x) \<le> n \<Longrightarrow> parse_item n (item_bytes x @ r) = Some (x, r)"
proof (induction x arbitrary: n r)
  case (RData b)
  then obtain m where "n = Suc m" by (cases n) auto
  moreover have "unat (word_of_nat (length b) :: 32 word) = length b"
    using RData.prems(1) by (simp add: unat_word_of_nat)
  ultimately show ?case by (simp add: Let_def)
next
  case (RList xs)
  then obtain m where n: "n = Suc m" by (cases n) auto
  have "rlp_weight x < 2 ^ 31" if "x \<in> set xs" for x
    using RList.prems(1) member_le_sum_list [of "rlp_weight x" "map rlp_weight xs"] that by simp
  with RList n show ?case using parse_items_bytes [of xs m r] by simp
qed

lemma example_crates_ok: "crates_ok example_crates"
proof -
  have "item_view (item_bytes x) = Inr x" if "rlp_weight x < 2 ^ 31" for x
    using parse_item_bytes [OF that, of "2 * length (item_bytes x) + 2" "[]"] by (simp add: item_view_def)
  moreover have "step_ok (hex_text k) \<and> length (hex_text k) = 2 * length k" if "is_hash k" for k
    using hex_text_step [of k] that by (auto simp: step_ok_def is_hash_def TRANSACTION_HASH_SIZE_def)
  ultimately show ?thesis
    using hex_text_inj item_length by (auto simp: crates_ok_def example_crates_def as_bytes_def is_hash_def)
qed

end
