(* ===== verification/EVM_List_Spec.thy ===== *)
theory EVM_List_Spec
  imports EVM_List_Heap EVM_Codec
begin

text \<open>
  The linked list in durable storage implements a list: the operations on the heap of pointers refine
  those of a list as long as no stale pointer is saved, for any sequence of operations and reloads
  from the storage. Two runs in which the code saves a stale pointer end the theory.
\<close>

section \<open>The heap refines a list\<close>

text \<open>A doubly linked segment: \<open>pr\<close> is what its first pointer has before it and \<open>nx\<close> what its last has behind it.\<close>

fun seg :: "ptrs \<Rightarrow> bytes option \<Rightarrow> bytes list \<Rightarrow> bytes option \<Rightarrow> bool" where
  "seg P pr [] nx \<longleftrightarrow> True"
| "seg P pr (k # ks) nx \<longleftrightarrow>
     P k = Some \<lparr>ptr_id = k, ptr_previous = pr, ptr_next = (case ks of [] \<Rightarrow> nx | k' # _ \<Rightarrow> Some k')\<rparr> \<and>
     seg P (Some k) ks nx"

definition head_or :: "bytes list \<Rightarrow> bytes option \<Rightarrow> bytes option" where
  "head_or ks d = (case ks of [] \<Rightarrow> d | k # _ \<Rightarrow> Some k)"

definition last_or :: "bytes list \<Rightarrow> bytes option \<Rightarrow> bytes option" where
  "last_or ks d = (if ks = [] then d else Some (last ks))"

lemma head_last_simps [simp]:
  "head_or [] d = d" "head_or (k # ks) d = Some k" "last_or [] d = d" "last_or (ks @ [k]) d = Some k"
  "last_or [k] d = Some k" "last_or (k # k' # ks) d = last_or (k' # ks) d"
  by (simp_all add: head_or_def last_or_def)

lemma seg_append: "seg P pr (us @ vs) nx \<longleftrightarrow> seg P pr us (head_or vs nx) \<and> seg P (last_or us pr) vs nx"
proof (induction us arbitrary: pr)
  case (Cons u us)
  have "last_or (u # us) pr = last_or us (Some u)" by (simp add: last_or_def)
  with Cons show ?case by (auto simp: head_or_def split: list.splits)
qed simp

lemma seg_cong: "(\<And>k. k \<in> set ks \<Longrightarrow> P' k = P k) \<Longrightarrow> seg P' pr ks nx \<longleftrightarrow> seg P pr ks nx"
  by (induction ks arbitrary: pr) auto

text \<open>An update outside a segment.\<close>

lemma seg_upd [simp]: "k \<notin> set ks \<Longrightarrow> seg (P(k := v)) pr ks nx \<longleftrightarrow> seg P pr ks nx"
  by (rule seg_cong) auto

text \<open>
  The state that a list implies. \<open>gone\<close> are the identifiers removed since the list was last empty:
  the first pointer, and the copy of the last pointer that the list caches, may still refer to one of
  them. The cached copy is \<open>stale\<close> if it refers to one of them though it has a predecessor.
\<close>

record 'e spec =
  items :: "(bytes \<times> 'e) list"
  gone :: "bytes set"
  stale :: bool

definition dangling :: "bytes set \<Rightarrow> bytes option \<Rightarrow> bool" where
  "dangling D v \<longleftrightarrow> (\<forall>k. v = Some k \<longrightarrow> k \<in> D)"

definition linked :: "'e spec \<Rightarrow> 'e heap \<Rightarrow> bool" where
  "linked S H \<longleftrightarrow>
     (let ks = map fst (items S) in
      distinct ks \<and> dom (h_ptr H) = set ks \<and> h_dat H = map_of (items S) \<and> gone S \<inter> set ks = {} \<and>
      (\<exists>pr. dangling (gone S) pr \<and> seg (h_ptr H) pr ks None) \<and>
      (case h_ends H of
         None \<Rightarrow> ks = []
       | Some ps \<Rightarrow> ks \<noteq> [] \<and> ptr_id (llp_front ps) = hd ks \<and> ptr_id (llp_back ps) = last ks \<and>
           ptr_next (llp_back ps) = None \<and>
           (if stale S \<or> length ks = 1 then dangling (gone S) (ptr_previous (llp_back ps))
            else ptr_previous (llp_back ps) = Some (last (butlast ks)))))"

text \<open>Appending and deleting.\<close>

definition spec_push :: "'e spec \<Rightarrow> bytes \<Rightarrow> 'e \<Rightarrow> 'e spec" where
  "spec_push S key elt =
     (if key \<in> fst ` set (items S) then S else S\<lparr>items := items S @ [(key, elt)]\<rparr>)"

definition spec_remove :: "'e spec \<Rightarrow> bytes \<Rightarrow> 'e option \<times> 'e spec" where
  "spec_remove S key =
     (let ks = map fst (items S); xs = filter (\<lambda>x. fst x \<noteq> key) (items S) in
      if key \<notin> set ks then (None, S)
      else
        (map_of (items S) key,
         \<lparr>items = xs, gone = (if xs = [] then {} else insert key (gone S)),
          stale = (key \<noteq> last ks \<and>
            (if key = hd ks then stale S \<and> length ks > 2 else stale S \<or> key = last (butlast ks)))\<rparr>))"

text \<open>A push is safe unless the cached pointer is stale or the identifier is one that may dangle.\<close>

definition may_push :: "'e spec \<Rightarrow> bytes \<Rightarrow> bool" where
  "may_push S key \<longleftrightarrow> key \<in> fst ` set (items S) \<or> \<not> stale S \<and> key \<notin> gone S"

lemma map_of_snoc: "k \<notin> fst ` set xs \<Longrightarrow> map_of (xs @ [(k, v)]) = (map_of xs)(k \<mapsto> v)"
  by (induction xs) (auto simp: fun_upd_twist)

lemma push_linked:
  assumes "linked S H" "may_push S key"
  shows "linked (spec_push S key elt) (heap_push H key elt)"
proof (cases "key \<in> fst ` set (items S)")
  case True
  moreover have "h_ptr H key \<noteq> None" using assms(1) True by (auto simp: linked_def Let_def dom_def)
  ultimately show ?thesis using assms(1) by (simp add: spec_push_def heap_push_def)
next
  case False
  let ?ks = "map fst (items S)"
  have new: "key \<notin> set ?ks" "key \<notin> gone S" "\<not> stale S" using assms(2) False by (auto simp: may_push_def)
  have P: "h_ptr H key = None" using assms(1) new(1) by (auto simp: linked_def Let_def dom_def)
  obtain pr where pr: "dangling (gone S) pr" "seg (h_ptr H) pr ?ks None"
    using assms(1) by (auto simp: linked_def Let_def)
  show ?thesis
  proof (cases "h_ends H")
    case None
    with assms(1) new P False show ?thesis
      by (auto simp: linked_def Let_def spec_push_def heap_push_def dangling_def)
  next
    case (Some ps)
    let ?q = "llp_back ps"
    obtain us z where ks: "?ks = us @ [z]" using assms(1) Some by (cases ?ks rule: rev_cases) (auto simp: linked_def Let_def)
    have q: "?q = \<lparr>ptr_id = z, ptr_previous = ptr_previous ?q, ptr_next = None\<rparr>"
      using assms(1) Some ks by (auto simp: linked_def Let_def)
    have prev: "if us = [] then dangling (gone S) (ptr_previous ?q) else ptr_previous ?q = Some (last us)"
      using assms(1) Some ks new(3) by (auto simp: linked_def Let_def)
    define pr' where "pr' = (if us = [] then ptr_previous ?q else pr)"
    have hp: "h_ptr (heap_push H key elt) =
        (h_ptr H)(z \<mapsto> ?q\<lparr>ptr_next := Some key\<rparr>, key \<mapsto> \<lparr>ptr_id = key, ptr_previous = Some z, ptr_next = None\<rparr>)"
      "h_dat (heap_push H key elt) = (h_dat H)(key \<mapsto> elt)"
      "h_ends (heap_push H key elt) = Some \<lparr>llp_front = llp_front ps,
         llp_back = \<lparr>ptr_id = key, ptr_previous = Some z, ptr_next = None\<rparr>\<rparr>"
      using P Some q by (simp_all add: heap_push_def Let_def) (metis Pointer.select_convs(1))+
    have z: "z \<notin> set us" "key \<noteq> z" "key \<notin> set us" using assms(1) ks new(1) by (auto simp: linked_def Let_def)
    have "?q\<lparr>ptr_next := Some key\<rparr> = \<lparr>ptr_id = z, ptr_previous = ptr_previous ?q, ptr_next = Some key\<rparr>"
      using q by (metis Pointer.update_convs(3))
    then have "seg (h_ptr (heap_push H key elt)) pr' (us @ [z, key]) None"
      using pr(2) prev z unfolding hp(1) ks by (auto simp: seg_append pr'_def last_or_def)
    moreover have "dangling (gone S) pr'" using pr(1) prev by (simp add: pr'_def)
    moreover have "map_of (items S @ [(key, elt)]) = (map_of (items S))(key \<mapsto> elt)"
      by (rule map_of_snoc [OF False])
    moreover have "hd (us @ [z, key]) = hd (us @ [z])" "last (butlast (us @ [z, key])) = z"
      by (simp_all add: hd_append butlast_append)
    moreover have "map fst (items (spec_push S key elt)) = us @ [z, key]"
      "items (spec_push S key elt) = items S @ [(key, elt)]" "gone (spec_push S key elt) = gone S"
      "\<not> stale (spec_push S key elt)"
      using False ks new(3) by (simp_all add: spec_push_def)
    ultimately show ?thesis
      using assms(1) Some ks new(1,2) hp z unfolding linked_def Let_def by auto
  qed
qed

text \<open>The pointers around a removed one.\<close>

lemma seg_remove:
  assumes "seg P pr (us @ k # vs) None" "distinct (us @ k # vs)"
  shows "P k = Some \<lparr>ptr_id = k, ptr_previous = last_or us pr, ptr_next = head_or vs None\<rparr>"
    and "us = us' @ [p] \<Longrightarrow> \<exists>q. P p = Some \<lparr>ptr_id = p, ptr_previous = q, ptr_next = Some k\<rparr> \<and> q = last_or us' pr"
    and "vs = n # vs' \<Longrightarrow> \<exists>q. P n = Some \<lparr>ptr_id = n, ptr_previous = Some k, ptr_next = q\<rparr>"
    and "seg (P(k := None)) pr us (Some k)" "seg (P(k := None)) (Some k) vs None"
  using assms by (auto simp: seg_append head_or_def)

lemma spec_remove_split:
  assumes "items S = us @ (key, e) # vs" "distinct (map fst (items S))"
  shows "spec_remove S key =
    (Some e, \<lparr>items = us @ vs, gone = (if us @ vs = [] then {} else insert key (gone S)),
       stale = (vs \<noteq> [] \<and> (if us = [] then stale S \<and> length vs \<ge> 2 else stale S \<or> length vs = 1))\<rparr>)"
proof -
  have key: "\<forall>x \<in> set (us @ vs). fst x \<noteq> key"
    using assms(2) unfolding assms(1) by (auto simp: image_iff)
  then have f: "filter (\<lambda>x. fst x \<noteq> key) (items S) = us @ vs" using assms(1) by (auto simp: filter_id_conv)
  have m: "map_of (items S) key = Some e" using assms by (intro map_of_is_SomeI) simp_all
  have l: "key = last (map fst (items S)) \<longleftrightarrow> vs = []"
  proof (cases vs rule: rev_cases)
    case Nil
    with assms(1) show ?thesis by simp
  next
    case (snoc ws w)
    with key have "fst w \<noteq> key" by simp
    with snoc assms(1) show ?thesis by auto
  qed
  have h: "key = hd (map fst (items S)) \<longleftrightarrow> us = []"
  proof (cases us)
    case Nil
    with assms(1) show ?thesis by simp
  next
    case (Cons u us')
    with key have "fst u \<noteq> key" by simp
    with Cons assms(1) show ?thesis by auto
  qed
  have b: "key = last (butlast (map fst (items S))) \<longleftrightarrow> length vs = 1" if "vs \<noteq> []"
  proof -
    obtain ws w where w: "vs = ws @ [w]" using \<open>vs \<noteq> []\<close> by (cases vs rule: rev_cases) auto
    show ?thesis
    proof (cases ws rule: rev_cases)
      case Nil
      with assms(1) w show ?thesis by (simp add: butlast_append)
    next
      case (snoc ws' x)
      with key w have "fst x \<noteq> key" by simp
      with snoc assms(1) w show ?thesis by (simp add: butlast_append)
    qed
  qed
  have "key \<in> set (map fst (items S))" "length (map fst (items S)) > 2 \<longleftrightarrow> length us + length vs \<ge> 2"
    using assms(1) by auto
  then show ?thesis unfolding spec_remove_def Let_def f m l h by (cases "vs = []") (simp_all add: b)
qed

lemma map_of_without:
  assumes "distinct (map fst (us @ (k, e) # vs))"
  shows "(map_of (us @ (k, e) # vs))(k := None) = map_of (us @ vs)"
proof -
  have "k \<notin> fst ` set (us @ vs)" using assms by auto
  then have "map_of (us @ vs) k = None" by (metis map_of_eq_None_iff)
  then show ?thesis by (auto simp: fun_eq_iff map_add_def split: option.splits)
qed

lemma linkedI:
  assumes "map fst (items S) = ks" "distinct ks" "dom P = set ks" "M = map_of (items S)" "gone S \<inter> set ks = {}"
    and "dangling (gone S) pr" "seg P pr ks None"
    and "ks \<noteq> []" "ptr_id (llp_front ps) = hd ks" "ptr_id (llp_back ps) = last ks"
    and "ptr_next (llp_back ps) = None"
    and "if stale S \<or> length ks = 1 then dangling (gone S) (ptr_previous (llp_back ps))
      else ptr_previous (llp_back ps) = Some (last (butlast ks))"
  shows "linked S \<lparr>h_ptr = P, h_dat = M, h_ends = Some ps\<rparr>"
  using assms unfolding linked_def Let_def by auto

lemma dangling_insert: "dangling D v \<Longrightarrow> dangling (insert k D) v"
  by (simp add: dangling_def)

text \<open>The cached last pointer after the removal of another.\<close>

lemma cached_back:
  assumes "if st \<or> length (us @ k # vs) = 1 then dangling D q else q = Some (last (butlast (us @ k # vs)))"
    and "vs \<noteq> []"
  shows "if (if us = [] then st \<and> length vs \<ge> 2 else st \<or> length vs = 1) \<or> length (us @ vs) = 1
    then dangling (insert k D) q else q = Some (last (butlast (us @ vs)))"
proof -
  obtain ws w where vs: "vs = ws @ [w]" using assms(2) by (cases vs rule: rev_cases) auto
  show ?thesis
  proof (cases "ws = []")
    case True
    with assms(1) vs show ?thesis by (auto simp: butlast_append dangling_def split: if_splits)
  next
    case False
    then have "length vs \<ge> 2" using vs by (cases ws) auto
    with False assms(1) vs show ?thesis by (auto simp: butlast_append dangling_def split: if_splits)
  qed
qed

lemma unlink_linked:
  fixes xs ys key
  defines "us \<equiv> map fst xs" and "vs \<equiv> map fst ys"
  assumes sg: "seg P pr (us @ key # vs) None" and d: "distinct (us @ key # vs)"
    and dom: "dom P = set (us @ key # vs)" and pr: "dangling D pr" and D: "D \<inter> set (us @ key # vs) = {}"
    and ps: "ptr_id (llp_front ps) = hd (us @ key # vs)" "ptr_id (llp_back ps) = last (us @ key # vs)"
      "ptr_next (llp_back ps) = None"
    and cached: "if st \<or> length (us @ key # vs) = 1 then dangling D (ptr_previous (llp_back ps))
      else ptr_previous (llp_back ps) = Some (last (butlast (us @ key # vs)))"
  shows "linked \<lparr>items = xs @ ys, gone = (if xs @ ys = [] then {} else insert key D),
      stale = (ys \<noteq> [] \<and> (if xs = [] then st \<and> length ys \<ge> 2 else st \<or> length ys = 1))\<rparr>
    (heap_unlink ps (Option.bind (last_or us pr) P) (Option.bind (head_or vs None) P)
       \<lparr>h_ptr = P(key := None), h_dat = map_of (xs @ ys), h_ends = Some ps\<rparr>)"
proof -
  note r = seg_remove [OF sg d]
  have D': "insert key D \<inter> set (us @ vs) = {}" "distinct (us @ vs)" "dom (P(key := None)) = set (us @ vs)"
    and pr': "dangling (insert key D) pr" "dangling (insert key D) None"
    using D d dom pr by (auto simp: dangling_def)
  have nopr: "Option.bind pr P = None" using pr D dom by (cases pr) (auto simp: dangling_def dom_def)
  have e: "xs = [] \<longleftrightarrow> us = []" "ys = [] \<longleftrightarrow> vs = []" "length ys = length vs" "map fst (xs @ ys) = us @ vs"
    by (simp_all add: us_def vs_def)
  let ?u = "heap_unlink ps (Option.bind (last_or us pr) P) (Option.bind (head_or vs None) P)
       \<lparr>h_ptr = P(key := None), h_dat = map_of (xs @ ys), h_ends = Some ps\<rparr>"
  let ?S = "\<lparr>items = xs @ ys, gone = (if xs @ ys = [] then {} else insert key D),
      stale = (ys \<noteq> [] \<and> (if xs = [] then st \<and> length ys \<ge> 2 else st \<or> length ys = 1))\<rparr>"
  show ?thesis
  proof (cases us rule: rev_cases)
    case us: Nil
    show ?thesis
    proof (cases vs)
      case Nil
      with us e nopr d dom show ?thesis by (auto simp: heap_unlink_def linked_def dangling_def)
    next
      case (Cons n vs')
      then obtain q where n: "P n = Some \<lparr>ptr_id = n, ptr_previous = Some key, ptr_next = q\<rparr>" using r(3) by blast
      let ?n = "\<lparr>ptr_id = n, ptr_previous = None, ptr_next = q\<rparr>"
      have "seg (P(key := None, n \<mapsto> ?n)) None vs None"
        using r(5) Cons n d by auto
      moreover have "?u = \<lparr>h_ptr = P(key := None, n \<mapsto> ?n), h_dat = map_of (xs @ ys),
          h_ends = Some \<lparr>llp_front = ?n, llp_back = llp_back ps\<rparr>\<rparr>"
        using us Cons n nopr by (simp add: heap_unlink_def Let_def)
      ultimately show ?thesis
        using linkedI [of ?S vs "P(key := None, n \<mapsto> ?n)" _ None] Cons us e D' pr' ps cached_back [OF cached]
        by (auto simp: insert_absorb)
    qed
  next
    case us: (snoc us' p)
    then have p: "P p = Some \<lparr>ptr_id = p, ptr_previous = last_or us' pr, ptr_next = Some key\<rparr>" using r(2) by blast
    show ?thesis
    proof (cases vs)
      case Nil
      let ?p = "\<lparr>ptr_id = p, ptr_previous = last_or us' pr, ptr_next = None\<rparr>"
      have "seg (P(key := None, p \<mapsto> ?p)) pr us None"
        using r(4) us d by (auto simp: seg_append)
      moreover have "?u = \<lparr>h_ptr = P(key := None, p \<mapsto> ?p), h_dat = map_of (xs @ ys),
          h_ends = Some \<lparr>llp_front = llp_front ps, llp_back = ?p\<rparr>\<rparr>"
        using us Nil p by (simp add: heap_unlink_def Let_def)
      ultimately show ?thesis
        using linkedI [of ?S us "P(key := None, p \<mapsto> ?p)" _ pr] Nil us e D' pr' ps
        by (auto simp: insert_absorb hd_append last_or_def)
    next
      case (Cons n vs')
      then obtain q where n: "P n = Some \<lparr>ptr_id = n, ptr_previous = Some key, ptr_next = q\<rparr>" using r(3) by blast
      let ?p = "\<lparr>ptr_id = p, ptr_previous = last_or us' pr, ptr_next = Some n\<rparr>"
      let ?n = "\<lparr>ptr_id = n, ptr_previous = Some p, ptr_next = q\<rparr>"
      let ?P = "P(key := None, p \<mapsto> ?p, n \<mapsto> ?n)"
      have "seg ?P pr us (Some n)" "seg ?P (Some p) vs None"
        using r(4,5) us Cons n d by (auto simp: seg_append)
      moreover have "head_or vs None = Some n" "last_or us pr = Some p" using us Cons by simp_all
      ultimately have "seg ?P pr (us @ vs) None" unfolding seg_append by metis
      moreover have "?u = \<lparr>h_ptr = ?P, h_dat = map_of (xs @ ys), h_ends = Some ps\<rparr>"
        using us Cons p n by (simp add: heap_unlink_def Let_def)
      ultimately show ?thesis
        using linkedI [of ?S "us @ vs" ?P _ pr] Cons us e D' pr' ps cached_back [OF cached]
        by (auto simp: insert_absorb hd_append)
    qed
  qed
qed

lemma remove_present:
  assumes "linked S H" "items S = xs @ (key, e) # ys"
  shows "fst (heap_remove H key) = Some e \<and> linked (snd (spec_remove S key)) (snd (heap_remove H key))"
proof -
  let ?us = "map fst xs" and ?vs = "map fst ys"
  have ks: "map fst (items S) = ?us @ key # ?vs" using assms(2) by simp
  have d: "distinct (?us @ key # ?vs)" and dom: "dom (h_ptr H) = set (?us @ key # ?vs)"
    and M: "h_dat H = map_of (xs @ (key, e) # ys)" and gone: "gone S \<inter> set (?us @ key # ?vs) = {}"
    using assms by (auto simp: linked_def Let_def)
  obtain pr where pr: "dangling (gone S) pr" and sg: "seg (h_ptr H) pr (?us @ key # ?vs) None"
    using assms(1) unfolding linked_def Let_def ks by blast
  obtain ps where e: "h_ends H = Some ps"
    and ps: "ptr_id (llp_front ps) = hd (?us @ key # ?vs)"
      "ptr_id (llp_back ps) = last (?us @ key # ?vs)" "ptr_next (llp_back ps) = None"
      "if stale S \<or> length (?us @ key # ?vs) = 1 then dangling (gone S) (ptr_previous (llp_back ps))
       else ptr_previous (llp_back ps) = Some (last (butlast (?us @ key # ?vs)))"
    using assms(1) unfolding linked_def Let_def ks by (auto split: option.splits)
  have m: "(h_dat H)(key := None) = map_of (xs @ ys)"
    unfolding M by (rule map_of_without) (use d in simp)
  have v: "h_dat H key = Some e"
    unfolding M by (rule map_of_is_SomeI) (use d in simp_all)
  have "heap_remove H key = (Some e, heap_unlink ps (Option.bind (last_or ?us pr) (h_ptr H))
      (Option.bind (head_or ?vs None) (h_ptr H))
      \<lparr>h_ptr = (h_ptr H)(key := None), h_dat = map_of (xs @ ys), h_ends = Some ps\<rparr>)"
    using e seg_remove(1) [OF sg d] m v by (cases H) (simp add: heap_remove_def)
  moreover have "distinct (map fst (items S))" using d ks by simp
  ultimately show ?thesis
    using unlink_linked [OF sg d dom pr gone ps] spec_remove_split [OF assms(2)] by simp
qed

lemma remove_linked:
  assumes "linked S H"
  shows "fst (heap_remove H key) = fst (spec_remove S key) \<and>
    linked (snd (spec_remove S key)) (snd (heap_remove H key))"
proof (cases "key \<in> set (map fst (items S))")
  case False
  then have "h_ptr H key = None" using assms by (auto simp: linked_def Let_def dom_def)
  with False assms show ?thesis
    by (simp add: heap_remove_def spec_remove_def Let_def split: option.split)
next
  case True
  then obtain xs e ys where items: "items S = xs @ (key, e) # ys" by (auto dest!: split_list)
  have "distinct (map fst (items S))" using assms by (simp add: linked_def Let_def)
  with remove_present [OF assms items] spec_remove_split [OF items] show ?thesis by simp
qed

section \<open>Runs of operations\<close>

datatype 'e command =
    Push bytes 'e
  | Find bytes
  | Remove bytes
  | First
  | FirstWithId
  | PopFirst
  | IsEmpty
  | Delete
  | Reload

datatype 'e reply = Done | Element "'e option" | Entry "(bytes \<times> 'e) option" | Emptiness bool

definition reply :: "('a \<Rightarrow> 'e reply) \<Rightarrow> 'a res \<times> 's \<Rightarrow> 'e reply res \<times> 's" where
  "reply f r = sbind r (\<lambda>v s. (ok (f v), s))"

text \<open>\<open>Reload\<close> drops the list in memory and loads it from the storage.\<close>

fun run_command :: "'h runtime \<Rightarrow> 'e crates \<Rightarrow> 'h lstate \<Rightarrow> 'e command \<Rightarrow> 'e reply res \<times> 'h lstate" where
  "run_command rt cr s (Push key elt) = reply (\<lambda>_. Done) (list_push rt cr s key elt)"
| "run_command rt cr s (Find key) = reply Element (list_find rt cr s key, s)"
| "run_command rt cr s (Remove key) = reply Element (list_remove rt cr s key)"
| "run_command rt cr s First = reply Element (list_first rt cr s, s)"
| "run_command rt cr s FirstWithId = reply Entry (list_first_with_id rt cr s, s)"
| "run_command rt cr s PopFirst = reply Element (list_pop_first rt cr s)"
| "run_command rt cr s IsEmpty = (ok (Emptiness (list_is_empty (fst s))), s)"
| "run_command rt cr s Delete = reply (\<lambda>_. Done) (list_delete rt cr s)"
| "run_command rt cr s Reload =
     sbind (list_new rt cr (ll_path (fst s)) (snd s), s) (\<lambda>l s. (ok Done, (l, snd s)))"

fun run_commands ::
  "'h runtime \<Rightarrow> 'e crates \<Rightarrow> 'h lstate \<Rightarrow> 'e command list \<Rightarrow> 'e reply list res \<times> 'h lstate" where
  "run_commands rt cr s [] = (ok [], s)"
| "run_commands rt cr s (c # cs) =
     sbind (run_command rt cr s c) (\<lambda>r s. sbind (run_commands rt cr s cs) (\<lambda>rs s. (ok (r # rs), s)))"

text \<open>What a list replies.\<close>

definition empty_spec :: "'e spec" where
  "empty_spec = \<lparr>items = [], gone = {}, stale = False\<rparr>"

fun spec_command :: "'e spec \<Rightarrow> 'e command \<Rightarrow> 'e reply \<times> 'e spec" where
  "spec_command S (Push key elt) = (Done, spec_push S key elt)"
| "spec_command S (Find key) = (Element (map_of (items S) key), S)"
| "spec_command S (Remove key) = apfst Element (spec_remove S key)"
| "spec_command S First = (Element (case items S of [] \<Rightarrow> None | x # _ \<Rightarrow> Some (snd x)), S)"
| "spec_command S FirstWithId = (Entry (case items S of [] \<Rightarrow> None | x # _ \<Rightarrow> Some x), S)"
| "spec_command S PopFirst =
     (case items S of [] \<Rightarrow> (Element None, S) | x # _ \<Rightarrow> apfst Element (spec_remove S (fst x)))"
| "spec_command S IsEmpty = (Emptiness (items S = []), S)"
| "spec_command S Delete = (Done, empty_spec)"
| "spec_command S Reload = (Done, S)"

fun spec_commands :: "'e spec \<Rightarrow> 'e command list \<Rightarrow> 'e reply list \<times> 'e spec" where
  "spec_commands S [] = ([], S)"
| "spec_commands S (c # cs) =
     (case spec_command S c of (r, S) \<Rightarrow> case spec_commands S cs of (rs, S) \<Rightarrow> (r # rs, S))"

fun allowed :: "'e crates \<Rightarrow> 'e spec \<Rightarrow> 'e command \<Rightarrow> bool" where
  "allowed cr S (Push key elt) \<longleftrightarrow> is_hash key \<and> elt_fits cr elt \<and> may_push S key"
| "allowed cr S (Find key) \<longleftrightarrow> is_hash key"
| "allowed cr S (Remove key) \<longleftrightarrow> is_hash key"
| "allowed cr S _ \<longleftrightarrow> True"

fun all_allowed :: "'e crates \<Rightarrow> 'e spec \<Rightarrow> 'e command list \<Rightarrow> bool" where
  "all_allowed cr S [] \<longleftrightarrow> True"
| "all_allowed cr S (c # cs) \<longleftrightarrow> allowed cr S c \<and> all_allowed cr (snd (spec_command S c)) cs"

lemma linked_facts:
  assumes "linked S H"
  shows "h_dat H = map_of (items S)" "h_ptr H k = None \<longleftrightarrow> map_of (items S) k = None"
    and "h_ends H = None \<longleftrightarrow> items S = []"
    and "h_ends H = Some ps \<Longrightarrow> \<exists>e xs. items S = (ptr_id (llp_front ps), e) # xs"
proof -
  show d: "h_dat H = map_of (items S)" and "h_ends H = None \<longleftrightarrow> items S = []"
    using assms by (auto simp: linked_def Let_def split: option.splits)
  have "k \<in> dom (h_ptr H) \<longleftrightarrow> k \<in> fst ` set (items S)" using assms by (simp add: linked_def Let_def)
  then show "h_ptr H k = None \<longleftrightarrow> map_of (items S) k = None" by (auto simp: map_of_eq_None_iff dom_def)
  show "\<exists>e xs. items S = (ptr_id (llp_front ps), e) # xs" if "h_ends H = Some ps"
    using assms that by (cases "items S") (auto simp: linked_def Let_def)
qed

lemma linked_empty: "linked empty_spec \<lparr>h_ptr = Map.empty, h_dat = Map.empty, h_ends = None\<rparr>"
  by (simp add: linked_def empty_spec_def dangling_def exI [of _ None])

text \<open>\<open>implements\<close>: the storage and the list in memory stand for a list of the specification.\<close>

definition implements ::
  "'e crates \<Rightarrow> bytes \<Rightarrow> (bytes list \<Rightarrow> bytes option) \<Rightarrow> (bytes list \<Rightarrow> bool) \<Rightarrow> LinkedList \<Rightarrow>
     'e spec \<Rightarrow> bool" where
  "implements cr root v b l S \<longleftrightarrow> (\<exists>H. represents cr root v b l H \<and> linked S H)"

context durable_host
begin

lemma run_remove:
  assumes "inv h" "crates_ok cr" "root_ok root" "implements cr root (val h) (sub h) l S" "is_hash key"
  shows "\<exists>l' h'. list_remove rt cr (l, h) key = (ok (fst (spec_remove S key)), (l', h')) \<and> inv h' \<and>
    implements cr root (val h') (sub h') l' (snd (spec_remove S key))"
proof -
  obtain H where H: "represents cr root (val h) (sub h) l H" "linked S H"
    using assms(4) by (auto simp: implements_def)
  have "h_ptr H key \<noteq> None \<Longrightarrow> h_dat H key \<noteq> None" using linked_facts(1,2) [OF H(2)] by simp
  with ll_remove [OF assms(1-3) H(1) assms(5)] remove_linked [OF H(2), of key] show ?thesis
    unfolding implements_def by (metis (no_types, lifting))
qed

lemma run_command_spec:
  assumes "inv h" "crates_ok cr" "root_ok root" "implements cr root (val h) (sub h) l S" "allowed cr S c"
  shows "\<exists>l' h'. run_command rt cr (l, h) c = (ok (fst (spec_command S c)), (l', h')) \<and> inv h' \<and>
    implements cr root (val h') (sub h') l' (snd (spec_command S c))"
proof -
  obtain H where H: "represents cr root (val h) (sub h) l H" "linked S H"
    using assms(4) by (auto simp: implements_def)
  note f = linked_facts [OF H(2)]
  have p: "pointers l = h_ends H" "ll_path l = root" "ends_ok (h_ends H)" using H(1) by (simp_all add: represents_def)
  note rw = reply_def sbind_def
  show ?thesis
  proof (cases c)
    case (Push key elt)
    with assms(5) ll_push [OF assms(1-3) H(1), of key elt] push_linked [OF H(2), of key elt] show ?thesis
      by (auto simp: rw implements_def)
  next
    case (Find key)
    with assms(1,4,5) ll_find [OF assms(1-3) H(1), of key] f(1) f(2) [of key] show ?thesis by (auto simp: rw)
  next
    case (Remove key)
    with assms(5) run_remove [OF assms(1-4), of key] show ?thesis by (auto simp: rw)
  next
    case First
    with assms(1,4) p f ll_first(1) [OF assms(1-3) H(1)] show ?thesis
      by (cases "h_ends H") (fastforce simp: rw list_first_def)+
  next
    case FirstWithId
    with assms(1,4) p f ll_first(2) [OF assms(1-3) H(1)] show ?thesis
      by (cases "h_ends H") (fastforce simp: rw list_first_with_id_def)+
  next
    case PopFirst
    show ?thesis
    proof (cases "h_ends H")
      case None
      with PopFirst assms(1,4) p f show ?thesis by (simp add: rw list_pop_first_def)
    next
      case (Some ps)
      then have "is_hash (ptr_id (llp_front ps))" using p(3) by (simp add: ends_ok_def ptr_ok_def)
      with Some PopFirst p f(4) [OF Some] run_remove [OF assms(1-4), of "ptr_id (llp_front ps)"] show ?thesis
        by (auto simp: rw list_pop_first_def)
    qed
  next
    case IsEmpty
    with assms(1,4) p f show ?thesis by (simp add: list_is_empty_def)
  next
    case Delete
    with ll_delete [OF assms(1-3) H(1)] linked_empty show ?thesis by (fastforce simp: rw implements_def)
  next
    case Reload
    with assms(1,4) p ll_new [OF assms(1-3) H(1)] show ?thesis by (simp add: sbind_def)
  qed
qed

lemma run_commands_spec:
  assumes "inv h" "crates_ok cr" "root_ok root" "implements cr root (val h) (sub h) l S" "all_allowed cr S cs"
  shows "\<exists>l' h'. run_commands rt cr (l, h) cs = (ok (fst (spec_commands S cs)), (l', h')) \<and> inv h' \<and>
    implements cr root (val h') (sub h') l' (snd (spec_commands S cs))"
  using assms
proof (induction cs arbitrary: l h S)
  case (Cons c cs)
  obtain l' h' where 1: "run_command rt cr (l, h) c = (ok (fst (spec_command S c)), (l', h'))" "inv h'"
    "implements cr root (val h') (sub h') l' (snd (spec_command S c))"
    using run_command_spec [OF Cons.prems(1-4), of c] Cons.prems(5) by auto
  from Cons.IH [OF 1(2) Cons.prems(2,3) 1(3)] Cons.prems(5) 1(1) show ?case
    by (fastforce simp: sbind_def split: prod.splits)
qed auto

lemma fresh_implements:
  assumes "inv h" "crates_ok cr" "root_ok root" "rt_has rt h root = Inr None"
  shows "list_new rt cr root h = ok \<lparr>ll_path = root, pointers = None\<rparr>"
    and "implements cr root (val h) (sub h) \<lparr>ll_path = root, pointers = None\<rparr> empty_spec"
proof -
  have w: "writable root" using assms(3) by (simp add: root_ok_def)
  have "\<not> sub h (path_steps root)" using has [OF assms(1) w] assms(4) by (auto split: if_splits)
  then have n: "val h (path_steps root @ ts) = None \<and> \<not> sub h (path_steps root @ ts)"
    if "list_all step_ok (path_steps root @ ts)" "ts \<noteq> []" for ts
    using below [OF assms(1) that] by blast
  have z: "is_hash (replicate 32 0)" by (simp add: is_hash_def TRANSACTION_HASH_SIZE_def)
  note ok = all_steps_ok [OF assms(2,3)]
  have "val h (meta_steps root) = None \<and> \<not> sub h (meta_steps root)"
    using n ok(4) [OF z] by (simp add: meta_steps_def)
  moreover have "val h (ptr_steps cr root k) = None \<and> \<not> sub h (ptr_steps cr root k) \<and>
      val h (dat_steps cr root k) = None \<and> \<not> sub h (dat_steps cr root k)" if "is_hash k" for k
    using n ok(1,2) [OF that] by (simp add: ptr_steps_def dat_steps_def)
  ultimately have r: "represents cr root (val h) (sub h) \<lparr>ll_path = root, pointers = None\<rparr>
      \<lparr>h_ptr = Map.empty, h_dat = Map.empty, h_ends = None\<rparr>"
    by (simp add: represents_def stores_def heap_ok_def saved_def ends_ok_def)
  show "list_new rt cr root h = ok \<lparr>ll_path = root, pointers = None\<rparr>" by (rule ll_new [OF assms(1-3) r])
  show "implements cr root (val h) (sub h) \<lparr>ll_path = root, pointers = None\<rparr> empty_spec"
    using r linked_empty unfolding implements_def by blast
qed

end

section \<open>Runs on the heap\<close>

text \<open>The replies of a heap, also where it does not stand for a list.\<close>

fun heap_command :: "'e heap \<Rightarrow> 'e command \<Rightarrow> ('e reply \<times> 'e heap) option" where
  "heap_command H (Push key elt) = Some (Done, heap_push H key elt)"
| "heap_command H (Find key) = Some (Element (if h_ptr H key = None then None else h_dat H key), H)"
| "heap_command H (Remove key) =
     (if h_ptr H key \<noteq> None \<and> h_dat H key = None then None else Some (apfst Element (heap_remove H key)))"
| "heap_command H FirstWithId =
     (case h_ends H of
        None \<Rightarrow> Some (Entry None, H)
      | Some ps \<Rightarrow>
          map_option (\<lambda>e. (Entry (Some (ptr_id (llp_front ps), e)), H)) (h_dat H (ptr_id (llp_front ps))))"
| "heap_command H PopFirst =
     (case h_ends H of
        None \<Rightarrow> Some (Element None, H)
      | Some ps \<Rightarrow>
          (let key = ptr_id (llp_front ps) in
           if h_ptr H key \<noteq> None \<and> h_dat H key = None then None
           else Some (apfst Element (heap_remove H key))))"
| "heap_command H _ = None"

fun heap_commands :: "'e heap \<Rightarrow> 'e command list \<Rightarrow> ('e reply list \<times> 'e heap) option" where
  "heap_commands H [] = Some ([], H)"
| "heap_commands H (c # cs) =
     (case heap_command H c of
        None \<Rightarrow> None
      | Some (r, H) \<Rightarrow> map_option (apfst ((#) r)) (heap_commands H cs))"

definition fits :: "'e crates \<Rightarrow> 'e command \<Rightarrow> bool" where
  "fits cr c \<longleftrightarrow>
     (case c of
        Push key elt \<Rightarrow> is_hash key \<and> elt_fits cr elt
      | Find key \<Rightarrow> is_hash key
      | Remove key \<Rightarrow> is_hash key
      | _ \<Rightarrow> True)"

context durable_host
begin

lemma run_heap_command:
  assumes "inv h" "crates_ok cr" "root_ok root" "represents cr root (val h) (sub h) l H" "fits cr c"
    and "heap_command H c = Some (r, H')"
  shows "\<exists>l' h'. run_command rt cr (l, h) c = (ok r, (l', h')) \<and> inv h' \<and>
    represents cr root (val h') (sub h') l' H'"
proof -
  have p: "pointers l = h_ends H" "ends_ok (h_ends H)" using assms(4) by (simp_all add: represents_def)
  note rw = reply_def sbind_def
  show ?thesis
  proof (cases c)
    case (Push key elt)
    with assms(5,6) ll_push [OF assms(1-4), of key elt] show ?thesis by (auto simp: rw fits_def)
  next
    case (Find key)
    with assms(1,4-6) ll_find [OF assms(1-4), of key] show ?thesis by (auto simp: rw fits_def)
  next
    case (Remove key)
    with assms(5,6) ll_remove [OF assms(1-4), of key] show ?thesis
      by (auto simp: rw fits_def apfst_def map_prod_def split: if_splits prod.splits)
  next
    case FirstWithId
    with assms(1,4,6) p ll_first(2) [OF assms(1-4)] show ?thesis
      by (cases "h_ends H") (auto simp: rw list_first_with_id_def)
  next
    case PopFirst
    show ?thesis
    proof (cases "h_ends H")
      case None
      with PopFirst assms(1,4,6) p show ?thesis by (auto simp: rw list_pop_first_def)
    next
      case (Some ps)
      then have "is_hash (ptr_id (llp_front ps))" using p(2) by (simp add: ends_ok_def ptr_ok_def)
      with Some PopFirst assms(6) p ll_remove [OF assms(1-4), of "ptr_id (llp_front ps)"] show ?thesis
        by (auto simp: rw list_pop_first_def Let_def apfst_def map_prod_def split: if_splits prod.splits)
    qed
  qed (use assms(6) in simp_all)
qed

lemma run_heap_commands:
  assumes "inv h" "crates_ok cr" "root_ok root" "represents cr root (val h) (sub h) l H" "list_all (fits cr) cs"
    and "heap_commands H cs = Some (rs, H')"
  shows "\<exists>l' h'. run_commands rt cr (l, h) cs = (ok rs, (l', h')) \<and> inv h' \<and>
    represents cr root (val h') (sub h') l' H'"
  using assms
proof (induction cs arbitrary: l h H rs)
  case (Cons c cs)
  obtain r H1 rs1 where 1: "heap_command H c = Some (r, H1)" "heap_commands H1 cs = Some (rs1, H')" "rs = r # rs1"
    using Cons.prems(6) by (auto split: option.splits)
  obtain l' h' where 2: "run_command rt cr (l, h) c = (ok r, (l', h'))" "inv h'"
    "represents cr root (val h') (sub h') l' H1"
    using run_heap_command [OF Cons.prems(1-4) _ 1(1)] Cons.prems(5) by auto
  from Cons.IH [OF 2(2) Cons.prems(2,3) 2(3) _ 1(2)] Cons.prems(5) 2(1) 1(3) show ?case
    by (fastforce simp: sbind_def)
qed auto

lemma first_with_id_fails:
  assumes "inv h" "crates_ok cr" "root_ok root" "represents cr root (val h) (sub h) l H"
    and "h_ends H = Some ps" "h_dat H (ptr_id (llp_front ps)) = None"
  shows "\<exists>e. list_first_with_id rt cr (l, h) = Some (Inl e)"
proof -
  have l: "ll_path l = root" "pointers l = Some ps" "is_hash (ptr_id (llp_front ps))"
    and st: "stores cr root (val h) (sub h) (h_ptr H) (h_dat H)"
    using assms(4,5) by (simp_all add: represents_def ends_ok_def ptr_ok_def)
  obtain p where p: "entry_path cr (ptr_id (llp_front ps)) (ascii ''/data'') root = ok p" "writable p"
    "path_steps p = dat_steps cr root (ptr_id (llp_front ps))"
    using entry_paths(2) [OF assms(2,3) l(3)] by blast
  have "val h (path_steps p) = None" using st l(3) assms(6) p(3) by (simp add: stores_def)
  then obtain e where "rt_read_all rt h p = Some (Inl e)" using read_none [OF assms(1) p(2)] by blast
  with l p(1) show ?thesis
    by (simp add: list_first_with_id_def get_data_def data_path_def rbind2_def read_rlp_def of_runtime_def)
qed

end

section \<open>Properties\<close>

abbreviation empty_list :: "bytes \<Rightarrow> LinkedList" where
  "empty_list root \<equiv> \<lparr>ll_path = root, pointers = None\<rparr>"

abbreviation empty_heap :: "'e heap" where
  "empty_heap \<equiv> \<lparr>h_ptr = Map.empty, h_dat = Map.empty, h_ends = None\<rparr>"

lemma fresh_store:
  assumes "crates_ok cr" "root_ok root" "store_wf st" "store_has st root = Inr None"
  shows "list_new memory_runtime cr root st = ok (empty_list root)"
    and "list_all (fits cr) cs \<Longrightarrow> heap_commands empty_heap cs = Some (rs, H) \<Longrightarrow>
      \<exists>l' st'. run_commands memory_runtime cr (empty_list root, st) cs = (ok rs, (l', st')) \<and> store_wf st' \<and>
        represents cr root (vals (durable st')) (\<lambda>ss. \<not> bare (durable st') ss) l' H"
    and "all_allowed cr empty_spec cs \<Longrightarrow>
      fst (run_commands memory_runtime cr (empty_list root, st) cs) = ok (fst (spec_commands empty_spec cs))"
proof -
  have h: "rt_has memory_runtime st root = Inr None" using assms(4) by (simp add: memory_runtime_def)
  note f = memory_host.fresh_implements [OF assms(3,1,2) h]
  show "list_new memory_runtime cr root st = ok (empty_list root)" by (rule f(1))
  obtain H0 where H0: "represents cr root (vals (durable st)) (\<lambda>ss. \<not> bare (durable st) ss) (empty_list root) H0"
    "linked (empty_spec :: 'a spec) H0"
    using f(2) by (auto simp: implements_def)
  have e: "H0 = empty_heap" using H0(2) by (cases H0) (simp add: linked_def empty_spec_def split: option.splits)
  show "\<exists>l' st'. run_commands memory_runtime cr (empty_list root, st) cs = (ok rs, (l', st')) \<and> store_wf st' \<and>
      represents cr root (vals (durable st')) (\<lambda>ss. \<not> bare (durable st') ss) l' H"
    if "list_all (fits cr) cs" "heap_commands empty_heap cs = Some (rs, H)"
    using memory_host.run_heap_commands [OF assms(3,1,2) H0(1)] that e by simp
  show "fst (run_commands memory_runtime cr (empty_list root, st) cs) = ok (fst (spec_commands empty_spec cs))"
    if "all_allowed cr empty_spec cs"
    using memory_host.run_commands_spec [OF assms(3,1,2) f(2) that] by auto
qed

lemma example_root: "root_ok (ascii ''/delayed'')"
proof -
  have "validate_path (ascii ''/delayed'') = Inr ()" by code_simp
  then show ?thesis by (simp add: root_ok_def writable_def ascii_def)
qed

lemma empty_store_has: "store_has empty_store (ascii ''/delayed'') = Inr None"
  by code_simp

lemma example_hash: "is_hash (replicate 32 b)"
  by (simp add: is_hash_def TRANSACTION_HASH_SIZE_def)

lemma example_fits: "elt_fits example_crates e \<longleftrightarrow> length e < 2 ^ 31 - 9"
  by (auto simp: elt_fits_def example_crates_def)

text \<open>
  C12: the linked list in durable storage is a list. Starting from a path that holds nothing, every
  sequence of pushes, searches, removals, reads of the first element, deletions and reloads from the
  storage replies what a list would, and no operation fails; the exception are pushes onto a list
  whose cached last pointer is stale and pushes of an identifier removed since the list was last empty.
\<close>

theorem linked_list_refines_list:
  assumes "crates_ok cr" "root_ok root" "store_wf st" "store_has st root = Inr None"
    and "all_allowed cr empty_spec cs"
  shows "\<exists>l. list_new memory_runtime cr root st = ok l \<and>
    fst (run_commands memory_runtime cr (l, st) cs) = ok (fst (spec_commands empty_spec cs))"
  using fresh_store(1,3) [OF assms(1-4)] assms(5) by blast

theorem linked_list_refines_list_witness:
  "\<exists>l. list_new memory_runtime example_crates (ascii ''/delayed'') empty_store = ok l \<and>
    fst (run_commands memory_runtime example_crates (l, empty_store)
      [Push (replicate 32 1) [7], Push (replicate 32 2) [8], Reload, PopFirst, FirstWithId, Push (replicate 32 3) [],
       Remove (replicate 32 3), PopFirst, IsEmpty, Push (replicate 32 1) [9], First]) =
    ok [Done, Done, Done, Element (Some [7]), Entry (Some (replicate 32 2, [8])), Done, Element (Some []),
        Element (Some [8]), Emptiness True, Done, Element (Some [9])]"
  using linked_list_refines_list [OF example_crates_ok example_root empty_store_wf empty_store_has,
    of "[Push (replicate 32 1) [7], Push (replicate 32 2) [8], Reload, PopFirst, FirstWithId, Push (replicate 32 3) [],
       Remove (replicate 32 3), PopFirst, IsEmpty, Push (replicate 32 1) [9], First]"]
  by (simp add: example_fits example_hash spec_push_def spec_remove_def may_push_def empty_spec_def)

text \<open>
  C15: removing the element before the last one of three does not refresh the copy of the last pointer
  that the list keeps; the next push saves the stale copy, and once the old last element is removed
  the list forgets its first element, which nobody removed.
\<close>

theorem stale_back_drops_front:
  assumes "crates_ok cr" "root_ok root" "store_wf st" "store_has st root = Inr None"
    and "distinct [a, b, c, d]" "list_all is_hash [a, b, c, d]" "list_all (elt_fits cr) [u, v, w, x]"
  shows "\<exists>l. list_new memory_runtime cr root st = ok l \<and>
    fst (run_commands memory_runtime cr (l, st)
      [Push a u, Push b v, Push c w, Remove b, FirstWithId, Push d x, Remove c, FirstWithId, Find a]) =
    ok [Done, Done, Done, Element (Some v), Entry (Some (a, u)), Done, Element (Some w), Entry (Some (d, x)),
        Element (Some u)]"
proof -
  let ?cs = "[Push a u, Push b v, Push c w, Remove b, FirstWithId, Push d x, Remove c, FirstWithId, Find a]"
  have "list_all (fits cr) ?cs" using assms(6,7) by (simp add: fits_def)
  moreover have "map_option fst (heap_commands empty_heap ?cs) =
      Some [Done, Done, Done, Element (Some v), Entry (Some (a, u)), Done, Element (Some w), Entry (Some (d, x)),
        Element (Some u)]"
    using assms(5) by (simp add: heap_push_def heap_remove_def heap_unlink_def Let_def) blast
  ultimately show ?thesis using fresh_store(1,2) [OF assms(1-4)] by fastforce
qed

theorem stale_back_drops_front_witness:
  "\<exists>l. list_new memory_runtime example_crates (ascii ''/delayed'') empty_store = ok l \<and>
    fst (run_commands memory_runtime example_crates (l, empty_store)
      [Push (replicate 32 1) [1], Push (replicate 32 2) [2], Push (replicate 32 3) [3], Remove (replicate 32 2),
       FirstWithId, Push (replicate 32 4) [4], Remove (replicate 32 3), FirstWithId, Find (replicate 32 1)]) =
    ok [Done, Done, Done, Element (Some [2]), Entry (Some (replicate 32 1, [1])), Done, Element (Some [3]),
        Entry (Some (replicate 32 4, [4])), Element (Some [1])]"
  by (rule stale_back_drops_front [OF example_crates_ok example_root empty_store_wf empty_store_has])
    (simp_all add: example_fits example_hash)

text \<open>
  C16: pushing an identifier that was removed follows a pointer that still refers to it: removing the
  first element then leaves the list with a first pointer whose data is gone, and every later read of
  the first element fails.
\<close>

theorem repush_breaks_list:
  assumes "crates_ok cr" "root_ok root" "store_wf st" "store_has st root = Inr None"
    and "distinct [a, b, c]" "list_all is_hash [a, b, c]" "list_all (elt_fits cr) [u, v, w]"
  shows "\<exists>l s e. list_new memory_runtime cr root st = ok l \<and>
    run_commands memory_runtime cr (l, st) [Push a u, Push b v, PopFirst, Push c w, Push a u, PopFirst] =
      (ok [Done, Done, Element (Some u), Done, Done, Element (Some v)], s) \<and>
    list_first_with_id memory_runtime cr s = Some (Inl e)"
proof -
  let ?cs = "[Push a u, Push b v, PopFirst, Push c w, Push a u, PopFirst]"
  have "list_all (fits cr) ?cs" using assms(6,7) by (simp add: fits_def)
  moreover have "case heap_commands empty_heap ?cs of
        None \<Rightarrow> False
      | Some (rs, H) \<Rightarrow> rs = [Done, Done, Element (Some u), Done, Done, Element (Some v)] \<and>
          (case h_ends H of None \<Rightarrow> False | Some ps \<Rightarrow> h_dat H (ptr_id (llp_front ps)) = None)"
    using assms(5) by (simp add: heap_push_def heap_remove_def heap_unlink_def Let_def) blast
  then obtain H ps where H: "heap_commands empty_heap ?cs =
      Some ([Done, Done, Element (Some u), Done, Done, Element (Some v)], H)"
    "h_ends H = Some ps" "h_dat H (ptr_id (llp_front ps)) = None"
    by (auto split: option.splits)
  ultimately obtain l st' where
    "run_commands memory_runtime cr (empty_list root, st) ?cs =
       (ok [Done, Done, Element (Some u), Done, Done, Element (Some v)], (l, st'))"
    "store_wf st'" "represents cr root (vals (durable st')) (\<lambda>ss. \<not> bare (durable st') ss) l H"
    using fresh_store(2) [OF assms(1-4)] by blast
  with memory_host.first_with_id_fails [OF _ assms(1,2) _ H(2,3)] fresh_store(1) [OF assms(1-4)] show ?thesis
    by blast
qed

theorem repush_breaks_list_witness:
  "\<exists>l s e. list_new memory_runtime example_crates (ascii ''/delayed'') empty_store = ok l \<and>
    run_commands memory_runtime example_crates (l, empty_store)
      [Push (replicate 32 1) [1], Push (replicate 32 2) [2], PopFirst, Push (replicate 32 3) [3],
       Push (replicate 32 1) [1], PopFirst] =
      (ok [Done, Done, Element (Some [1]), Done, Done, Element (Some [2])], s) \<and>
    list_first_with_id memory_runtime example_crates s = Some (Inl e)"
  by (rule repush_breaks_list [OF example_crates_ok example_root empty_store_wf empty_store_has])
    (simp_all add: example_fits example_hash)

end
