(* ===== verification/Spec2Isabelle.thy ===== *)
theory Spec2Isabelle
  imports RV_Boot RV_Encoding EVM_List_Spec
begin

text \<open>
  Models of two parts of the smart rollups, with the properties that make them correct: the RISC-V
  interpreter and the crates around it (\<^verbatim>\<open>src/src/risc_v\<close>), and the durable storage of WebAssembly
  kernels (\<^verbatim>\<open>src/src/kernel_sdk\<close>) with the linked list that the EVM kernel keeps in it
  (\<^verbatim>\<open>src/etherlink/kernel_evm/kernel/src/linked_list.rs\<close>).

  \<^bold>\<open>The RISC-V machine.\<close> An ELF file is loaded into the segments of a program
  (\<^verbatim>\<open>kernel_loader/src/lib.rs\<close>, \<^verbatim>\<open>interpreter/src/program.rs\<close>). Booting copies the segments, an
  initial ramdisk and a device tree into the main memory and sets up the hart. A step takes a
  pending interrupt, fetches, parses and runs one instruction and delivers its exception; an
  environment call is left to the caller, which asks an execution environment to handle it. The
  interpreter (\<^verbatim>\<open>interpreter/src/lib.rs\<close>) and the PVM (\<^verbatim>\<open>pvm/src/state.rs\<close>) are two such callers.
  The whole state lives in regions of a backend that a layout places in one block of bytes.

  \<^bold>\<open>The durable storage.\<close> A kernel stores values under paths. The trait \<open>Runtime\<close>
  (\<^verbatim>\<open>host/src/runtime.rs\<close>) checks and splits its calls into host functions that transfer chunks of
  bounded size and return error codes; the in-memory store (\<^verbatim>\<open>mock/src/state/\<close>) implements these host
  functions on a tree of nodes. The linked list keeps one pointer and one value per identifier under
  the path of the list, and the ends of the list under a path of their own; it uses nothing of the
  host but the trait.

  \<^bold>\<open>The theories\<close>, in the order of their imports:

  \<^item> \<open>RV_Prelude\<close>: the integer types as words, shifts and saturating operations as the compiler of
    the release profile defines them, bytes in little-endian order.
  \<^item> \<open>RV_State_Backend\<close> (\<^verbatim>\<open>state_backend.rs\<close>, \<^verbatim>\<open>state_backend/\<close>): allocation of layouts, cells,
    regions, dynamic regions and the in-memory backend; placements of layouts that end below
    \<open>2 ^ 64\<close> are aligned, in bounds and disjoint, so that regions do not interfere. The interface of a region is the locale
    \<open>region_spec\<close>.
  \<^item> \<open>RV_Registers\<close> (\<^verbatim>\<open>machine_state/registers.rs\<close>): both register files, instances of one locale.
  \<^item> \<open>RV_Traps\<close> (\<^verbatim>\<open>traps.rs\<close>, \<^verbatim>\<open>machine_state/mode.rs\<close>): modes, exceptions, interrupts, causes.
  \<^item> \<open>RV_CSR_Fields\<close>, \<open>RV_CSR_Enum\<close>, \<open>RV_CSRegisters\<close> (\<^verbatim>\<open>machine_state/csregisters.rs\<close> and the files
    below it): bit fields, the enumeration of the registers with addresses and privileges, the
    rules for legal values, the register file with its shadow registers, interrupt masks and
    delegation. \<open>csr_wf\<close> is the invariant: every register holds a value that its rules accept.
  \<^item> \<open>RV_Hart\<close> (\<^verbatim>\<open>machine_state/hart_state.rs\<close>): the hart and trap entry.
  \<^item> \<open>RV_Bus\<close> (\<^verbatim>\<open>machine_state/bus.rs\<close>, \<^verbatim>\<open>bus/\<close>): address decoding, memory, devices; accesses of every
    width, and their locale \<open>addressable\<close>.
  \<^item> \<open>RV_Parser\<close>, \<open>RV_Encoding\<close> (\<^verbatim>\<open>parser.rs\<close>, \<^verbatim>\<open>parser/instruction.rs\<close>): the instructions, their
    parser, and an encoder of the formats that the parser inverts.
  \<^item> \<open>RV_ALU\<close>, \<open>RV_ISA\<close> (\<^verbatim>\<open>interpreter/\<close>): the instructions, each as its handler has it, and the
    functions of their operands that they compute.
  \<^item> \<open>RV_Machine\<close>, \<open>RV_Safety\<close> (\<^verbatim>\<open>machine_state.rs\<close>): fetching, running, interrupts, steps;
    invariants, precise exceptions, privilege isolation and trap round trips.
  \<^item> \<open>RV_Exec_Env\<close> (\<^verbatim>\<open>exec_env.rs\<close>, \<^verbatim>\<open>exec_env/posix.rs\<close>, \<^verbatim>\<open>lib.rs\<close>, \<^verbatim>\<open>pvm/src/state.rs\<close>): environments and
    the two drivers, compared with a reference run \<open>env_run\<close> that goes one step at a time. What a
    driver needs of an environment is the locale \<open>ecall_handler\<close>.
  \<^item> \<open>RV_Program\<close>, \<open>RV_Loader\<close> (\<^verbatim>\<open>program.rs\<close>, \<^verbatim>\<open>kernel_loader/src/lib.rs\<close>): segments and their image,
    loading and relocation. What the loader needs of a memory is the locale \<open>loader_memory\<close>.
  \<^item> \<open>RV_Boot\<close> (\<^verbatim>\<open>devicetree.rs\<close>, \<open>setup_boot\<close> of \<^verbatim>\<open>machine_state.rs\<close>, the constructor of
    \<^verbatim>\<open>lib.rs\<close>): device tree, booting, reachable states. A backend of the interpreter is what its two
    parts hold, so that construction is modelled on a new backend and on a used one alike.
  \<^item> \<open>SDK_Path\<close> (\<^verbatim>\<open>host/src/path.rs\<close>): validation and concatenation of paths; a grammar of paths.
  \<^item> \<open>SDK_Store\<close> (\<^verbatim>\<open>mock/src/state/store.rs\<close>): the tree of nodes. \<open>store_wf\<close> is its invariant: a node has
    the marker child exactly if it has a value.
  \<^item> \<open>SDK_Runtime\<close> (\<^verbatim>\<open>core/src/lib.rs\<close>, \<^verbatim>\<open>host/src/\<close>, \<^verbatim>\<open>mock/src/state/in_memory_store.rs\<close>): host functions,
    error codes and the storage part of \<open>Runtime\<close>; writes read back, deletion removes subtrees.
  \<^item> \<open>EVM_Linked_List\<close> (\<^verbatim>\<open>linked_list.rs\<close>, helpers of \<^verbatim>\<open>storage.rs\<close>, \<^verbatim>\<open>delayed_inbox.rs\<close> and
    \<^verbatim>\<open>rlp_helpers.rs\<close>): the list and its codec. What it needs of a host is the locale \<open>durable_host\<close>,
    interpreted on the in-memory store.
  \<^item> \<open>EVM_List_Heap\<close>, \<open>EVM_List_Spec\<close>: the storage refines a heap of pointers, the heap refines a list;
    two runs in which it does not. \<open>EVM_Codec\<close> instantiates the external codecs.

  This theory holds the property that spans the RISC-V machine, from the bytes of a file to the state
  of an interpreter.

  \<^bold>\<open>Conventions.\<close> Machine integers are words of their width, so that arithmetic wraps as in the
  release profile. A region is a function from indices to elements. A function that returns
  \<open>Result\<close> is a sum, with the error on the left, paired with the state where it also changes the
  state, since an error may leave earlier effects behind; \<open>Option\<close> is \<open>option\<close>; where the source can
  also panic the result is of the type \<open>rust\<close>, or \<open>None\<close> with a comment. The instructions that share
  a handler shape are grouped under one constructor with an operation, as in \<open>RType\<close> and \<open>Load\<close>.

  \<^bold>\<open>Loops and bounds.\<close> Nothing of the programs uses fuel: the loops over a budget of steps terminate because each
  round uses up a part of it, and the others are structural. Step counters are natural numbers
  with the saturation of \<open>usize\<close> at 64 bits; the comparisons with the reference run ask that the
  budget be below \<open>2 ^ 64\<close>, as every \<open>usize\<close> is. The laws of the bus ask that the memory be at most
  \<open>2 ^ 63\<close> bytes; the layouts of the program have at most \<open>2 ^ 32\<close>. Offsets and sizes of the
  allocator are natural numbers whose sums wrap at \<open>2 ^ 64\<close> as those of \<open>usize\<close> do; what is shown of
  a placement asks that the end of the layout, computed without wrapping (\<open>layout_end\<close>), be below
  \<open>2 ^ 64\<close>. The loop that reads a value in
  chunks ends only if the host makes progress: it is a partial function, and its result on the
  in-memory store is proved for values below \<open>2 ^ 31\<close> bytes, the largest size a host function can
  report. A linked list needs a path of at most 169 bytes, so that the paths of its entries are valid.

  \<^bold>\<open>Parameters.\<close> External crates are arguments of the definitions: \<open>goblin\<close>, which parses ELF
  files (\<open>goblin_spec\<close>: the file range of a header is its offset and size, where its end is a \<open>usize\<close>); \<open>vm_fdt\<close>, which writes
  device trees; \<open>twiddle\<close>, which gets and sets bits (\<open>twiddle_spec\<close>); and \<open>hex\<close> and \<open>rlp\<close>, with the
  encoding of the elements of a list (\<open>crates_ok\<close>: hexadecimal digits, decoding of what was encoded,
  headers of at most nine bytes). Concrete instances show that the assumptions can be met.

  \<^bold>\<open>Not modelled.\<close> The text forms of instructions and of floating-point registers, the variant of
  the constructor that also returns the parsed program for display, and the sandbox with its
  debugger, which are output; the instance of the loader for the emulator \<open>rvemu\<close>, an external
  crate; the read-only manager and the casts between byte slices and references in the backend,
  whose effect is that of the little-endian byte order here. Of the
  kernel SDK, inputs, outputs, reveals, preimages and the encodings over external parser crates; of
  the EVM kernel, everything but the linked list, which is block production around the external EVM
  engine; the demonstration kernels and the Michelson interpreter, which share no code with these
  parts.
\<close>

section \<open>From an ELF file to a running interpreter\<close>

lemma image_bound:
  assumes "segs_wf segs" "\<And>x y. image_at segs x = Some y \<Longrightarrow> x < B"
  shows "\<forall>(a, v) \<in> set segs. length v \<le> B"
proof clarify
  fix a v assume av: "(a, v) \<in> set segs"
  show "length v \<le> B"
  proof (cases "v = []")
    case False
    then have "covers (unat a + (length v - 1)) (a, v)" by (simp add: covers_def)
    with av have "image_at segs (unat a + (length v - 1)) \<noteq> None" by (auto simp: image_at_None)
    with assms(2) show ?thesis by fastforce
  qed simp
qed

lemma file_image_bound:
  assumes "file_image contents base hs x = Some y"
    and "\<forall>h \<in> set hs. unat (base h) + unat (p_memsz h) \<le> B"
  shows "x < B"
  using assms by (auto simp: file_image_def in_target_def find_Some_iff dest!: nth_mem)

lemma interpreter_new_eq:
  assumes "from_elf M1G g contents = Ok p"
  shows "fst (interpreter_new g fdt b contents initrd mode) =
    (case setup_boot fdt (be_machine b) p initrd Machine of
       (Inl e, _) \<Rightarrow> Err (MachineError e)
     | (Inr _, m) \<Rightarrow> Ok \<lparr>in_posix = set_exit_mode (be_posix b) mode, in_machine = m\<rparr>)"
  using assms by (simp add: interpreter_new_def interpreter_init_def split: prod.split sum.split)

text \<open>
  C1: an interpreter that is created from an executable, on any backend, holds its image. Every
  byte that the program headers of the file assign to an address is read there, zeroes where a
  segment is longer in memory than in the file. The ramdisk begins at the end of the last segment
  of the program, behind every byte of the image, and the device tree directly behind the ramdisk;
  it announces the memory and, exactly if there is a ramdisk, the range in which it lies. The hart
  is at the entry point in machine mode, whatever the mode that is passed, which becomes the exit
  mode; \<open>a0\<close> is zero and \<open>a1\<close> the address of the device tree. The exit code is the one that the
  backend holds, none for a new backend. Loading cannot fail or panic for such a file; what can
  fail is writing to a memory that is too small and generating the device tree.
\<close>

theorem interpreter_new_boots:
  assumes g: "goblin_spec g" "g_parse g contents = Inr elf" "e_type elf = ET_EXEC"
    and h: "headers_ok contents p_paddr (loadable elf)"
      "\<forall>h \<in> set (loadable elf). unat (p_paddr h) + unat (p_memsz h) \<le> 2 ^ 62"
    and sz: "length (initrd_bytes initrd) \<le> 2 ^ 62" "\<forall>cs dtb. fdt cs = Inr dtb \<longrightarrow> length dtb \<le> 2 ^ 62"
    and bytes: "mem_BYTES (bus_memory (ms_bus (be_machine b))) = M1G"
  shows "exit_code (be_posix create_backend) = None \<and>
    (case fst (interpreter_new g fdt b contents initrd mode) of
      Panic \<Rightarrow> False
    | Err e \<Rightarrow> (\<exists>me. e = MachineError me)
    | Ok i \<Rightarrow>
        read_pc i = elf_entry elf \<and> h_mode (ms_hart (in_machine i)) = Machine \<and>
        px_exit_mode (in_posix i) = mode \<and> exit_code (in_posix i) = exit_code (be_posix b) \<and>
        read_register i x10 = 0 \<and>
        (\<forall>x y. file_image contents p_paddr (loadable elf) x = Some y \<longrightarrow>
           bus_read (ms_bus (in_machine i)) (word_of_nat x) = Some y) \<and>
        (\<exists>p rd calls dtb. from_elf M1G g contents = Ok p \<and> program_end (prog_segments p) rd \<and>
           (\<forall>x y. file_image contents p_paddr (loadable elf) x = Some y \<longrightarrow> x < unat rd) \<and>
           unat (read_register i x11) = unat rd + length (initrd_bytes initrd) \<and>
           fdt calls = Inr dtb \<and>
           fdt_announces calls (2 ^ 30) (map_option (\<lambda>_. (rd, read_register i x11)) initrd) \<and>
           (\<forall>k < length (initrd_bytes initrd).
              bus_read (ms_bus (in_machine i)) (rd + word_of_nat k) = Some (initrd_bytes initrd ! k)) \<and>
           (\<forall>k < length dtb.
              bus_read (ms_bus (in_machine i)) (read_register i x11 + word_of_nat k) = Some (dtb ! k))))"
proof -
  have fresh: "exit_code (be_posix create_backend) = None"
    by (simp add: exit_code_def posix_exited_def create_backend_def)
  obtain p where p: "from_elf M1G g contents = Ok p" "entrypoint p = elf_entry elf"
      "segs_wf (prog_segments p)"
      "\<And>x. image_at (prog_segments p) x = file_image contents p_paddr (loadable elf) x"
    using from_elf_loads [OF g h(1)] by blast
  have sizes: "boot_sizes_ok fdt p initrd"
    using image_bound [OF p(3), of "2 ^ 62"] file_image_bound [OF _ h(2)] p(4) sz
    by (auto simp: boot_sizes_ok_def)
  let ?m = "be_machine b"
  have wf: "bus_wf (ms_bus ?m)" using bytes by (simp add: bus_wf_def)
  obtain r m' where b: "setup_boot fdt ?m p initrd Machine = (r, m')" by fastforce
  show ?thesis
  proof (cases r)
    case (Inl e)
    with b fresh show ?thesis by (simp add: interpreter_new_eq [OF p(1)])
  next
    case (Inr u)
    with b have b': "setup_boot fdt ?m p initrd Machine = (Inr (), m')" by simp
    let ?i = "\<lparr>in_posix = set_exit_mode (be_posix b) mode, in_machine = m'\<rparr>"
    have new: "fst (interpreter_new g fdt b contents initrd mode) = Ok ?i"
      using b' by (simp add: interpreter_new_eq [OF p(1)])
    show ?thesis
    proof (rule boot_memory [OF wf p(3) sizes b'], goal_cases)
      case (1 dtb)
      have regs: "read_pc ?i = elf_entry elf" "h_mode (ms_hart m') = Machine"
        "read_register ?i x10 = 0" "read_register ?i x11 = boot_dtb ?m p initrd"
        unfolding read_pc_def read_register_def by (simp_all add: 1(8) boot_hart_regs p(2))
      have px: "px_exit_mode (in_posix ?i) = mode" "exit_code (in_posix ?i) = exit_code (be_posix b)"
        by (simp_all add: exit_code_def posix_exited_def set_exit_mode_def)
      obtain calls where calls: "fdt calls = Inr dtb"
        "fdt_announces calls (2 ^ 30) (map_option (\<lambda>_. (boot_initrd ?m p, boot_dtb ?m p initrd)) initrd)"
        using boot_device_tree [OF 1(1)] unfolding bytes by auto
      have e: "program_end (prog_segments p) (boot_initrd ?m p)"
        unfolding boot_initrd_def using p(3) by (rule program_end_initrd)
      have img: "\<forall>x y. file_image contents p_paddr (loadable elf) x = Some y \<longrightarrow>
          x < unat (boot_initrd ?m p)"
        using image_before_end [OF e] p(4) by simp
      show ?case
        unfolding new rust.case regs using fresh regs px 1(4-7) p(1,4) calls e img
        by (auto intro!: exI [of _ p] exI [of _ "boot_initrd ?m p"] exI [of _ calls] exI [of _ dtb])
    qed
  qed
qed

lemma sample_elf_loads: "from_elf n sample_goblin [0, 5, 6] = Ok sample_program"
proof -
  have "from_elf n sample_goblin [0, 5, 6] = from_elf 0 sample_goblin [0, 5, 6]"
    by (simp add: from_elf_def load_elf_def sample_goblin_def sample_elf_def ET_DYN_def ET_EXEC_def)
  moreover have "from_elf 0 sample_goblin [0, 5, 6] = Ok sample_program" by code_simp
  ultimately show ?thesis by simp
qed

lemma sample_elf_boots:
  "fst (setup_boot sample_fdt (be_machine create_backend) sample_program (Some [9]) Machine) = Inr ()"
proof -
  define b where "b = ms_bus (be_machine create_backend)"
  have b: "bus_wf b" "in_memory b a n \<longleftrightarrow> 0x80000000 \<le> unat a \<and> unat a + n \<le> 0xC0000000 \<and> unat a < 0xC0000000"
    for a n
    by (simp_all add: b_def create_backend_def bus_wf_def in_memory_def)
  then show ?thesis
    by (simp add: setup_boot_def sample_program_def write_initrd_def initrd_address_def bus_write_all_u8
        generate_def generate_custom_def sample_fdt_def Let_def flip: b_def)
qed

theorem interpreter_new_boots_witness:
  "\<exists>i. fst (interpreter_new sample_goblin sample_fdt create_backend [0, 5, 6] (Some [9]) User) = Ok i \<and>
     read_pc i = 0x80000000 \<and> bus_read (ms_bus (in_machine i)) 0x80000001 = Some (6 :: u8) \<and>
     exit_code (in_posix i) = None"
proof -
  obtain m' where "setup_boot sample_fdt (be_machine create_backend) sample_program (Some [9]) Machine = (Inr (), m')"
    using sample_elf_boots by (metis prod.collapse)
  then obtain i where
    i: "fst (interpreter_new sample_goblin sample_fdt create_backend [0, 5, 6] (Some [9]) User) = Ok i"
    by (simp add: interpreter_new_eq [OF sample_elf_loads])
  have img: "file_image [0, 5, 6] p_paddr (loadable sample_elf) 0x80000001 = Some 6"
    by (simp add: file_image_def in_target_def target_byte_def loadable_def sample_elf_def)
  have hyps: "goblin_spec sample_goblin" "g_parse sample_goblin [0, 5, 6] = Inr sample_elf"
    "e_type sample_elf = ET_EXEC" "headers_ok [0, 5, 6] p_paddr (loadable sample_elf)"
    "\<forall>h \<in> set (loadable sample_elf). unat (p_paddr h) + unat (p_memsz h) \<le> 2 ^ 62"
    "length (initrd_bytes (Some [9])) \<le> 2 ^ 62" "\<forall>cs dtb. sample_fdt cs = Inr dtb \<longrightarrow> length dtb \<le> 2 ^ 62"
    "mem_BYTES (bus_memory (ms_bus (be_machine create_backend))) = M1G"
    by (simp_all add: goblin_spec_def sample_goblin_def sample_elf_def loadable_def header_ok_def
        initrd_bytes_def sample_fdt_def create_backend_def)
  note new = interpreter_new_boots [OF hyps, where mode = User, unfolded i rust.case]
  have "read_pc i = elf_entry sample_elf" "exit_code (in_posix i) = None"
    using new by (elim conjE; simp)+
  moreover have "bus_read (ms_bus (in_machine i)) (word_of_nat 0x80000001) = Some (6 :: u8)"
    using new img by blast
  ultimately show ?thesis using i by (simp add: sample_elf_def)
qed

end
